(* ===== verification/Prelude.thy ===== *)
theory Prelude
  imports Main "HOL-Library.Word"
begin

text \<open>
  What every component shares: the ways the wrapper stops a simulation, the result type of an
  operation that can stop it, the machine integers of the sources, and the collections of facts the
  component proofs use.

  An operation that returns in the C++ gives \<open>Inr\<close> of its value; one that ends the simulation
  gives \<open>Inl\<close> of the reason. Assertions are modelled as enabled (a debug build).
\<close>

section \<open>Collections of facts\<close>

named_theorems res_simps \<open>equations and eliminations for the result type\<close>
named_theorems frame_simps \<open>fields an operation leaves alone\<close>
named_theorems inv_intros \<open>operations that keep a component's invariant\<close>

section \<open>Machine integers and pointers\<close>

type_synonym u32 = "32 word"
type_synonym u64 = "64 word"

text \<open>Simulated time: gem5 ticks and SystemC time values are 64-bit counts of picoseconds.\<close>

type_synonym tick = u64

text \<open>The address of an object; a nullable pointer is \<open>ptr option\<close>.\<close>

type_synonym ptr = nat

text \<open>
  A pointer member that a constructor may leave unset: reading it before it is assigned is
  undefined behaviour, which the model keeps apart from the null pointer.
\<close>

datatype 'a ptr_field = Indeterminate | Null | Obj 'a

section \<open>Ends of the simulation\<close>

datatype abort =
    Assert_failed
  | Sc_assert_failed
  | Panic string
  | Fatal string
  | Sc_report_fatal string string
  | Sc_report_error string
  | Exit_failure string
  | Out_of_range_exception
  | Undefined_behaviour string
  | No_return

type_synonym 'a res = "abort + 'a"

definition bindr :: "'a res \<Rightarrow> ('a \<Rightarrow> 'b res) \<Rightarrow> 'b res" where
  "bindr r k = (case r of Inl e \<Rightarrow> Inl e | Inr x \<Rightarrow> k x)"

fun returns :: "'a res \<Rightarrow> bool" where
  "returns (Inl e) = False"
| "returns (Inr x) = True"

lemma bindr_Inl [simp]: "bindr (Inl e) k = Inl e"
  by (simp add: bindr_def)

lemma bindr_Inr [simp]: "bindr (Inr x) k = k x"
  by (simp add: bindr_def)

lemma bindr_eq_Inr [res_simps]: "bindr r k = Inr y \<longleftrightarrow> (\<exists>x. r = Inr x \<and> k x = Inr y)"
  by (cases r) auto

lemma bindr_eq_Inl [res_simps]:
  "bindr r k = Inl e \<longleftrightarrow> r = Inl e \<or> (\<exists>x. r = Inr x \<and> k x = Inl e)"
  by (cases r) auto

lemma bindrE:
  assumes "bindr r k = Inr y"
  obtains x where "r = Inr x" and "k x = Inr y"
  using assms by (cases r) auto

lemma bindr_assoc: "bindr (bindr r k) h = bindr r (\<lambda>x. bindr (k x) h)"
  by (cases r) auto

lemma bindr_right_unit: "bindr r Inr = r"
  by (cases r) auto

lemma bindr_cong [fundef_cong]:
  "r = r' \<Longrightarrow> (\<And>x. r' = Inr x \<Longrightarrow> k x = k' x) \<Longrightarrow> bindr r k = bindr r' k'"
  by (cases r') auto

lemma returns_iff [res_simps]: "returns r \<longleftrightarrow> (\<exists>x. r = Inr x)"
  by (cases r) auto

lemma not_returns_iff: "\<not> returns r \<longleftrightarrow> (\<exists>e. r = Inl e)"
  by (cases r) auto

lemma if_Inl_eq_Inr [res_simps]:
  "(if b then Inl e else r) = Inr y \<longleftrightarrow> \<not> b \<and> r = Inr y"
  "(if b then r else Inl e) = Inr y \<longleftrightarrow> b \<and> r = Inr y"
  by auto

text \<open>
  The contract of a state operation: when it returns, its result and new state satisfy \<open>Q\<close>.
\<close>

definition ensures :: "'a res \<Rightarrow> ('a \<Rightarrow> bool) \<Rightarrow> bool" where
  "ensures r Q \<longleftrightarrow> (\<forall>x. r = Inr x \<longrightarrow> Q x)"

lemma ensuresI [intro?]: "(\<And>x. r = Inr x \<Longrightarrow> Q x) \<Longrightarrow> ensures r Q"
  by (simp add: ensures_def)

lemma ensuresD: "ensures r Q \<Longrightarrow> r = Inr x \<Longrightarrow> Q x"
  by (simp add: ensures_def)

lemma ensures_Inl [simp]: "ensures (Inl e) Q"
  by (simp add: ensures_def)

lemma ensures_Inr [simp]: "ensures (Inr x) Q \<longleftrightarrow> Q x"
  by (simp add: ensures_def)

lemma ensures_if [simp]:
  "ensures (if b then r else r') Q \<longleftrightarrow> (b \<longrightarrow> ensures r Q) \<and> (\<not> b \<longrightarrow> ensures r' Q)"
  by simp

lemma ensures_bindr:
  "ensures r P \<Longrightarrow> (\<And>x. P x \<Longrightarrow> ensures (k x) Q) \<Longrightarrow> ensures (bindr r k) Q"
  by (cases r) auto

lemma ensures_bindr_eq: "ensures (bindr r k) Q \<longleftrightarrow> ensures r (\<lambda>x. ensures (k x) Q)"
  by (cases r) auto

lemma ensures_mono: "ensures r P \<Longrightarrow> (\<And>x. P x \<Longrightarrow> Q x) \<Longrightarrow> ensures r Q"
  by (auto simp: ensures_def)

section \<open>Lists\<close>

lemma filter_find_conv:
  "find P xs = (case filter P xs of [] \<Rightarrow> None | x # _ \<Rightarrow> Some x)"
  by (induction xs) auto

lemma sorted_wrt_less_distinct:
  "sorted_wrt (<) (xs :: 'a::linorder list) \<Longrightarrow> distinct xs"
  by (simp add: strict_sorted_iff)

lemma count_list_append_single [simp]:
  "count_list (xs @ [y]) x = count_list xs x + (if x = y then 1 else 0)"
  by simp

section \<open>Words\<close>

lemma word_less_of_nat_u32:
  assumes "n < 2 ^ 32"
  shows "unat (of_nat n :: u32) = n"
  using assms by (simp add: unat_of_nat take_bit_nat_eq_self)

lemma of_nat_u32_not_max:
  assumes "n < 2 ^ 32 - 1"
  shows "of_nat n \<noteq> (- 1 :: u32)"
proof
  assume "of_nat n = (- 1 :: u32)"
  then have "unat (of_nat n :: u32) = 2 ^ 32 - 1"
    by (simp add: unsigned_minus_1_eq_mask mask_eq_exp_minus_1)
  then show False using assms by (simp add: word_less_of_nat_u32)
qed

lemma word_add_no_wrap_less:
  fixes a b c :: u64
  assumes "unat b + unat c < 2 ^ 64"
  shows "a < b + c \<longleftrightarrow> unat a < unat b + unat c"
proof -
  have "unat (b + c) = unat b + unat c"
    using assms by (simp add: unat_word_ariths)
  then show ?thesis by (simp add: word_less_nat_alt)
qed

end
