(* ===== verification/Std_Map.thy ===== *)
theory Std_Map
  imports Prelude
begin

text \<open>
  The ordered associative container \<open>std::map\<close>, as the sources use it: \<open>find\<close>, \<open>insert\<close> (which
  keeps an existing entry), assignment through \<open>operator[]\<close> or an iterator, iteration in
  ascending key order, and \<open>size\<close>. A map is the list of its entries in iteration order. The locale
  \<open>ordered_map\<close> states what clients rely on, and the list implementation is its interpretation.
\<close>

type_synonym ('k, 'v) smap = "('k \<times> 'v) list"

section \<open>Operations\<close>

definition smap_find :: "'k \<Rightarrow> ('k, 'v) smap \<Rightarrow> 'v option" where
  "smap_find k m = map_of m k"

fun smap_assign :: "'k::linorder \<Rightarrow> 'v \<Rightarrow> ('k, 'v) smap \<Rightarrow> ('k, 'v) smap" where
  "smap_assign k v [] = [(k, v)]"
| "smap_assign k v ((k', v') # m) =
     (if k < k' then (k, v) # (k', v') # m
      else if k = k' then (k, v) # m
      else (k', v') # smap_assign k v m)"

definition smap_insert :: "'k::linorder \<Rightarrow> 'v \<Rightarrow> ('k, 'v) smap \<Rightarrow> ('k, 'v) smap" where
  "smap_insert k v m = (case smap_find k m of None \<Rightarrow> smap_assign k v m | Some _ \<Rightarrow> m)"

text \<open>\<open>m[k]\<close> as a value: a missing key is first added with a default-constructed value.\<close>

definition smap_index :: "'k::linorder \<Rightarrow> 'v \<Rightarrow> ('k, 'v) smap \<Rightarrow> 'v \<times> ('k, 'v) smap" where
  "smap_index k dflt m =
     (case smap_find k m of Some v \<Rightarrow> (v, m) | None \<Rightarrow> (dflt, smap_assign k dflt m))"

definition smap_keys :: "('k, 'v) smap \<Rightarrow> 'k list" where
  "smap_keys m = map fst m"

definition smap_ok :: "('k::linorder, 'v) smap \<Rightarrow> bool" where
  "smap_ok m \<longleftrightarrow> sorted_wrt (<) (smap_keys m)"

section \<open>The contract of an ordered map\<close>

locale ordered_map =
  fixes find :: "'k::linorder \<Rightarrow> 'm \<Rightarrow> 'v option"
    and assign :: "'k \<Rightarrow> 'v \<Rightarrow> 'm \<Rightarrow> 'm"
    and insert :: "'k \<Rightarrow> 'v \<Rightarrow> 'm \<Rightarrow> 'm"
    and keys :: "'m \<Rightarrow> 'k list"
    and ok :: "'m \<Rightarrow> bool"
  assumes find_assign: "ok m \<Longrightarrow> find k' (assign k v m) = (if k' = k then Some v else find k' m)"
    and find_insert: "ok m \<Longrightarrow>
      find k' (insert k v m) = (if k' = k \<and> find k m = None then Some v else find k' m)"
    and keys_find: "ok m \<Longrightarrow> k \<in> set (keys m) \<longleftrightarrow> find k m \<noteq> None"
    and keys_sorted: "ok m \<Longrightarrow> sorted_wrt (<) (keys m)"
    and ok_assign: "ok m \<Longrightarrow> ok (assign k v m)"
    and ok_insert: "ok m \<Longrightarrow> ok (insert k v m)"
begin

lemma keys_assign: "ok m \<Longrightarrow> set (keys (assign k v m)) = Set.insert k (set (keys m))"
  by (auto simp: set_eq_iff keys_find find_assign ok_assign)

lemma keys_insert: "ok m \<Longrightarrow> set (keys (insert k v m)) = Set.insert k (set (keys m))"
  by (auto simp: set_eq_iff keys_find find_insert ok_insert)

lemma keys_assign_present:
  assumes "ok m" and "find k m \<noteq> None"
  shows "keys (assign k v m) = keys m"
proof (rule strict_sorted_equal)
  show "set (keys (assign k v m)) = set (keys m)"
    using assms by (auto simp: keys_assign keys_find)
qed (simp_all add: assms keys_sorted ok_assign)

lemma insert_then_assign: "ok m \<Longrightarrow> find k (assign k v' (insert k v m)) = Some v'"
  by (simp add: find_assign ok_insert)

lemma insert_keeps_first: "ok m \<Longrightarrow> find k m = Some v \<Longrightarrow> find k (insert k v' m) = Some v"
  by (simp add: find_insert)

end

section \<open>The list implementation keeps the contract\<close>

lemma smap_find_Nil [simp]: "smap_find k [] = None"
  by (simp add: smap_find_def)

lemma smap_find_Cons [simp]:
  "smap_find k ((k', v) # m) = (if k = k' then Some v else smap_find k m)"
  by (simp add: smap_find_def)

lemma smap_find_in_set: "smap_find k m = Some v \<Longrightarrow> (k, v) \<in> set m"
  by (simp add: smap_find_def map_of_SomeD)

lemma smap_find_None_iff: "smap_find k m = None \<longleftrightarrow> k \<notin> set (smap_keys m)"
  by (simp add: smap_find_def smap_keys_def map_of_eq_None_iff)

lemma smap_keys_Nil [simp]: "smap_keys [] = []"
  by (simp add: smap_keys_def)

lemma smap_keys_Cons [simp]: "smap_keys ((k, v) # m) = k # smap_keys m"
  by (simp add: smap_keys_def)

lemma smap_ok_Nil [simp]: "smap_ok []"
  by (simp add: smap_ok_def)

lemma smap_ok_Cons [simp]: "smap_ok ((k, v) # m) \<longleftrightarrow> (\<forall>k' \<in> set (smap_keys m). k < k') \<and> smap_ok m"
  by (simp add: smap_ok_def)

lemma smap_find_assign_any:
  "smap_find k' (smap_assign k v m) = (if k' = k then Some v else smap_find k' m)"
  by (induction k v m rule: smap_assign.induct) auto

lemma set_smap_keys_assign: "set (smap_keys (smap_assign k v m)) = insert k (set (smap_keys m))"
  by (induction k v m rule: smap_assign.induct) auto

lemma smap_ok_assign_any: "smap_ok m \<Longrightarrow> smap_ok (smap_assign k v m)"
  by (induction k v m rule: smap_assign.induct) (auto simp: set_smap_keys_assign)

lemma smap_ok_find_set: "smap_ok m \<Longrightarrow> (k, v) \<in> set m \<longleftrightarrow> smap_find k m = Some v"
proof (induction m)
  case (Cons e m)
  obtain k' v' where e: "e = (k', v')" by (cases e)
  from Cons.prems e have "k' \<notin> set (smap_keys m)" by auto
  with Cons e show ?case
    by (auto simp: smap_keys_def rev_image_eqI)
qed simp

interpretation std_map: ordered_map smap_find smap_assign smap_insert smap_keys smap_ok
proof unfold_locales
  fix m :: "('k::linorder, 'v) smap" and k k' :: 'k and v :: 'v
  assume ok: "smap_ok m"
  show "smap_find k' (smap_assign k v m) = (if k' = k then Some v else smap_find k' m)"
    by (rule smap_find_assign_any)
  show "smap_find k' (smap_insert k v m) =
      (if k' = k \<and> smap_find k m = None then Some v else smap_find k' m)"
    by (auto simp: smap_insert_def smap_find_assign_any split: option.split)
  show "k \<in> set (smap_keys m) \<longleftrightarrow> smap_find k m \<noteq> None"
    by (simp add: smap_find_None_iff)
  show "sorted_wrt (<) (smap_keys m)"
    using ok by (simp add: smap_ok_def)
  show "smap_ok (smap_assign k v m)"
    using ok by (rule smap_ok_assign_any)
  show "smap_ok (smap_insert k v m)"
    using ok by (simp add: smap_insert_def smap_ok_assign_any split: option.split)
qed

lemmas smap_laws = std_map.find_assign std_map.find_insert std_map.keys_assign
  std_map.keys_insert std_map.keys_assign_present std_map.ok_assign std_map.ok_insert

end
