(* ===== verification/Blocking_Helper.thy ===== *)
theory Blocking_Helper
  imports Std_Map
begin

text \<open>
  \<open>BlockingPacketHelper\<close> of \<open>blocking_packet_helper.{hh,cc}\<close>: for every socket of a slave port, the
  transaction that blocks its request channel, the one that blocks its response channel, and whether
  gem5 is owed a retry. The C++ members \<open>blockingRequest\<close> and \<open>needToSendRequestRetry_\<close> are never
  read or written and are left out. \<open>socket_num\<close> is an \<open>int\<close> that only meets \<open>uint32_t\<close> operands, so
  it takes part in unsigned arithmetic; no constructor sets it.

  The locale \<open>blocking_table\<close> is the contract the slave port relies on: over the sockets below
  \<open>socket_num\<close> the helper is a table of channel states.
\<close>

section \<open>State and operations\<close>

datatype pktType = Request | Response

record blocking_packet_helper =
  socket_num :: "u32 option"
  blockingRequestMap :: "(u32, ptr option) smap"
  blockingResponseMap :: "(u32, ptr option) smap"
  needToSendRequestRetryMap :: "(u32, bool) smap"
  isSystemPortBlocked :: bool
  bph_usingGem5Cache :: bool

definition BlockingPacketHelper :: blocking_packet_helper where
  "BlockingPacketHelper = \<lparr>socket_num = None, blockingRequestMap = [], blockingResponseMap = [],
     needToSendRequestRetryMap = [], isSystemPortBlocked = False, bph_usingGem5Cache = False\<rparr>"

definition bph_setUsingGem5Cache :: "bool \<Rightarrow> blocking_packet_helper \<Rightarrow> blocking_packet_helper" where
  "bph_setUsingGem5Cache state h = h\<lparr>bph_usingGem5Cache := state\<rparr>"

definition init_entry :: "u32 \<Rightarrow> blocking_packet_helper \<Rightarrow> blocking_packet_helper" where
  "init_entry i h =
     h\<lparr>blockingRequestMap := smap_insert i None (blockingRequestMap h),
       blockingResponseMap := smap_insert i None (blockingResponseMap h),
       needToSendRequestRetryMap := smap_insert i False (needToSendRequestRetryMap h)\<rparr>"

text \<open>The loop runs over \<open>0 .. socket_num\<close> inclusive; at the largest \<open>uint32_t\<close> it never ends.\<close>

definition bph_init :: "u32 \<Rightarrow> blocking_packet_helper \<Rightarrow> blocking_packet_helper res" where
  "bph_init num h =
     (if num = - 1 then Inl No_return
      else Inr (fold init_entry (map of_nat [0..<Suc (unat num)]) (h\<lparr>socket_num := Some num\<rparr>)))"

abbreviation invalid_blocking_request :: abort where
  "invalid_blocking_request \<equiv> Sc_report_fatal ''SCSlavePort'' ''Invaild blocking request''"

abbreviation socket_num_unset :: abort where
  "socket_num_unset \<equiv> Undefined_behaviour ''socket_num''"

definition updateBlockingMap ::
  "u32 \<Rightarrow> ptr option \<Rightarrow> pktType \<Rightarrow> blocking_packet_helper \<Rightarrow> blocking_packet_helper res" where
  "updateBlockingMap core_id blocking_trans type h =
     (case socket_num h of
        None \<Rightarrow> Inl socket_num_unset
      | Some n \<Rightarrow>
          if \<not> core_id \<le> n then Inl Assert_failed
          else
            let h = (if core_id = 0 \<and> bph_usingGem5Cache h
                     then h\<lparr>isSystemPortBlocked := (blocking_trans \<noteq> None)\<rparr> else h)
            in case type of
                 Request \<Rightarrow>
                   (case smap_find core_id (blockingRequestMap h) of
                      Some _ \<Rightarrow> Inr (h\<lparr>blockingRequestMap :=
                                        smap_assign core_id blocking_trans (blockingRequestMap h)\<rparr>)
                    | None \<Rightarrow> Inl invalid_blocking_request)
               | Response \<Rightarrow>
                   (case smap_find core_id (blockingResponseMap h) of
                      Some _ \<Rightarrow> Inr (h\<lparr>blockingResponseMap :=
                                        smap_assign core_id blocking_trans (blockingResponseMap h)\<rparr>)
                    | None \<Rightarrow> Inl invalid_blocking_request))"

definition getBlockingTrans :: "u32 \<Rightarrow> pktType \<Rightarrow> blocking_packet_helper \<Rightarrow> ptr option res" where
  "getBlockingTrans core_id type h =
     (case socket_num h of
        None \<Rightarrow> Inl socket_num_unset
      | Some n \<Rightarrow>
          if \<not> core_id < n then Inl Assert_failed
          else case smap_find core_id (case type of Request \<Rightarrow> blockingRequestMap h
                                                   | Response \<Rightarrow> blockingResponseMap h) of
                 Some t \<Rightarrow> Inr t
               | None \<Rightarrow> Inl invalid_blocking_request)"

definition isBlockedPort :: "u32 \<Rightarrow> pktType \<Rightarrow> blocking_packet_helper \<Rightarrow> bool res" where
  "isBlockedPort core_id type h =
     (if isSystemPortBlocked h then Inr True
      else bindr (getBlockingTrans core_id type h) (\<lambda>t. Inr (t \<noteq> None)))"

text \<open>The \<open>type\<close> argument is ignored: the search is always over the request map.\<close>

definition isBlockingTrans :: "ptr option \<Rightarrow> pktType \<Rightarrow> blocking_packet_helper \<Rightarrow> bool" where
  "isBlockingTrans blockingRequest type h \<longleftrightarrow>
     blockingRequest \<noteq> None \<and> list_ex (\<lambda>(k, t). t = blockingRequest) (blockingRequestMap h)"

definition bph_needToSendRequestRetry :: "u32 \<Rightarrow> blocking_packet_helper \<Rightarrow> bool res" where
  "bph_needToSendRequestRetry core_id h =
     (case socket_num h of
        None \<Rightarrow> Inl socket_num_unset
      | Some n \<Rightarrow>
          if \<not> core_id < n then Inl Assert_failed
          else case smap_find core_id (needToSendRequestRetryMap h) of
                 Some b \<Rightarrow> Inr b
               | None \<Rightarrow> Inl (Sc_report_fatal ''SCSlavePort'' ''Invaild send request retry''))"

definition updateRetryMap :: "u32 \<Rightarrow> bool \<Rightarrow> blocking_packet_helper \<Rightarrow> blocking_packet_helper res" where
  "updateRetryMap core_id state h =
     (case socket_num h of
        None \<Rightarrow> Inl socket_num_unset
      | Some n \<Rightarrow>
          if \<not> core_id < n then Inl Assert_failed
          else Inr (h\<lparr>needToSendRequestRetryMap :=
                 map (\<lambda>(k, b). (k, if k = core_id then state else b)) (needToSendRequestRetryMap h)\<rparr>))"

fun first_nonnull :: "('k \<times> 'v option) list \<Rightarrow> 'v option" where
  "first_nonnull [] = None"
| "first_nonnull ((k, t) # m) = (case t of Some x \<Rightarrow> Some x | None \<Rightarrow> first_nonnull m)"

definition getBlockingResponse :: "blocking_packet_helper \<Rightarrow> ptr option" where
  "getBlockingResponse h = first_nonnull (blockingResponseMap h)"

section \<open>Invariant and abstraction\<close>

definition sockets_upto :: "u32 \<Rightarrow> u32 list" where
  "sockets_upto n = map of_nat [0..<Suc (unat n)]"

text \<open>After \<open>init\<close>, each map has an entry for every socket \<open>0 .. socket_num\<close>.\<close>

definition helper_ok :: "u32 \<Rightarrow> blocking_packet_helper \<Rightarrow> bool" where
  "helper_ok n h \<longleftrightarrow>
     socket_num h = Some n
   \<and> smap_ok (blockingRequestMap h) \<and> smap_keys (blockingRequestMap h) = sockets_upto n
   \<and> smap_ok (blockingResponseMap h) \<and> smap_keys (blockingResponseMap h) = sockets_upto n
   \<and> smap_ok (needToSendRequestRetryMap h) \<and> smap_keys (needToSendRequestRetryMap h) = sockets_upto n
   \<and> (isSystemPortBlocked h \<longrightarrow> bph_usingGem5Cache h)"

text \<open>What the helper stands for: per channel and socket, the blocking transaction and the debt.\<close>

definition blocking :: "blocking_packet_helper \<Rightarrow> pktType \<Rightarrow> u32 \<Rightarrow> ptr option" where
  "blocking h type k =
     (case smap_find k (case type of Request \<Rightarrow> blockingRequestMap h
                                   | Response \<Rightarrow> blockingResponseMap h) of
        Some t \<Rightarrow> t | None \<Rightarrow> None)"

definition owed :: "blocking_packet_helper \<Rightarrow> u32 \<Rightarrow> bool" where
  "owed h k = (smap_find k (needToSendRequestRetryMap h) = Some True)"

section \<open>The contract of the table of blocking transactions\<close>

locale blocking_table =
  fixes get :: "u32 \<Rightarrow> pktType \<Rightarrow> 'h \<Rightarrow> ptr option res"
    and put :: "u32 \<Rightarrow> ptr option \<Rightarrow> pktType \<Rightarrow> 'h \<Rightarrow> 'h res"
    and debt :: "u32 \<Rightarrow> 'h \<Rightarrow> bool res"
    and set_debt :: "u32 \<Rightarrow> bool \<Rightarrow> 'h \<Rightarrow> 'h res"
    and tab :: "'h \<Rightarrow> pktType \<Rightarrow> u32 \<Rightarrow> ptr option"
    and owes :: "'h \<Rightarrow> u32 \<Rightarrow> bool"
    and ok :: "u32 \<Rightarrow> 'h \<Rightarrow> bool"
  assumes get_tab: "ok n h \<Longrightarrow> k < n \<Longrightarrow> get k ty h = Inr (tab h ty k)"
    and put_tab: "ok n h \<Longrightarrow> k \<le> n \<Longrightarrow>
      \<exists>h'. put k t ty h = Inr h' \<and> ok n h' \<and> tab h' = (tab h)(ty := (tab h ty)(k := t)) \<and> owes h' = owes h"
    and debt_owes: "ok n h \<Longrightarrow> k < n \<Longrightarrow> debt k h = Inr (owes h k)"
    and set_debt_owes: "ok n h \<Longrightarrow> k < n \<Longrightarrow>
      \<exists>h'. set_debt k b h = Inr h' \<and> ok n h' \<and> tab h' = tab h \<and> owes h' = (owes h)(k := b)"
begin

text \<open>Refusing a request: the socket stays blocked and gem5 is owed a retry there.\<close>

lemma refuse:
  assumes "ok n h" and "k < n"
  obtains h' where "set_debt k True h = Inr h'" and "ok n h'" and "tab h' = tab h"
    and "owes h' = (owes h)(k := True)"
  using set_debt_owes [OF assms] by blast

text \<open>Ending a request: the socket is free, the debt is read and then cleared.\<close>

lemma settle:
  assumes ok: "ok n h" and k: "k < n"
  obtains h' h'' where "put k None ty h = Inr h'" and "debt k h' = Inr (owes h k)"
    and "ok n h'" and "tab h' = (tab h)(ty := (tab h ty)(k := None))" and "owes h' = owes h"
    and "set_debt k False h' = Inr h''" and "ok n h''" and "tab h'' = tab h'"
    and "owes h'' = (owes h)(k := False)"
proof -
  obtain h' where h': "put k None ty h = Inr h'" "ok n h'"
      "tab h' = (tab h)(ty := (tab h ty)(k := None))" "owes h' = owes h"
    using put_tab [OF ok order.strict_implies_order [OF k]] by blast
  obtain h'' where h'': "set_debt k False h' = Inr h''" "ok n h''" "tab h'' = tab h'"
      "owes h'' = (owes h')(k := False)"
    using set_debt_owes [OF h'(2) k] by blast
  show thesis
    using that [OF h'(1) _ h'(2-4) h''(1-3)] debt_owes [OF h'(2) k] h' h'' by simp
qed

end

section \<open>The helper keeps the contract\<close>

lemma set_sockets_upto: "set (sockets_upto n) = {k. k \<le> n}"
proof -
  have "k \<in> of_nat ` {0..unat n}" if "k \<le> n" for k :: u32
    using that by (intro image_eqI [of _ _ "unat k"]) (auto simp: word_le_nat_alt)
  moreover have "(of_nat i :: u32) \<le> n" if "i \<le> unat n" for i
  proof -
    have "unat n < 2 ^ 32" using unsigned_less [of n] by simp
    then have "i < 2 ^ 32" using that by simp
    then show ?thesis using that by (simp add: word_le_nat_alt word_less_of_nat_u32)
  qed
  ultimately show ?thesis
    by (auto simp: sockets_upto_def atLeastLessThanSuc_atLeastAtMost simp del: upt_Suc)
qed

lemma smap_find_total:
  assumes "smap_keys m = sockets_upto n" and "k \<le> n"
  shows "\<exists>v. smap_find k m = Some v"
  using assms smap_find_None_iff [of k m] set_sockets_upto [of n]
  by (cases "smap_find k m") auto

lemma smap_keys_map_snd [simp]: "smap_keys (map (\<lambda>(k, b). (k, f k b)) m) = smap_keys m"
  by (induction m) auto

lemma smap_ok_map_snd [simp]: "smap_ok (map (\<lambda>(k, b). (k, f k b)) m) = smap_ok m"
  by (simp add: smap_ok_def)

lemma smap_find_map_snd:
  "smap_find k (map (\<lambda>(k, b). (k, f k b)) m) = map_option (f k) (smap_find k m)"
  by (induction m) auto

lemma helper_ok_get:
  assumes "helper_ok n h" and "k < n"
  shows "getBlockingTrans k type h = Inr (blocking h type k)"
proof -
  have "k \<le> n" using assms(2) by simp
  then show ?thesis
    using assms smap_find_total [of "blockingRequestMap h" n k]
      smap_find_total [of "blockingResponseMap h" n k]
    by (auto simp: getBlockingTrans_def blocking_def helper_ok_def split: pktType.split)
qed

lemma helper_ok_put:
  assumes "helper_ok n h" and "k \<le> n"
  shows "\<exists>h'. updateBlockingMap k t type h = Inr h' \<and> helper_ok n h'
    \<and> blocking h' = (blocking h)(type := (blocking h type)(k := t)) \<and> owed h' = owed h
    \<and> bph_usingGem5Cache h' = bph_usingGem5Cache h"
proof (cases type)
  case Request
  obtain v where "smap_find k (blockingRequestMap h) = Some v"
    using assms smap_find_total [of "blockingRequestMap h" n k] by (auto simp: helper_ok_def)
  with assms Request show ?thesis
    by (auto simp: updateBlockingMap_def helper_ok_def blocking_def [abs_def] owed_def [abs_def]
        smap_find_assign_any smap_laws fun_eq_iff split: pktType.split)
next
  case Response
  obtain v where "smap_find k (blockingResponseMap h) = Some v"
    using assms smap_find_total [of "blockingResponseMap h" n k] by (auto simp: helper_ok_def)
  with assms Response show ?thesis
    by (auto simp: updateBlockingMap_def helper_ok_def blocking_def [abs_def] owed_def [abs_def]
        smap_find_assign_any smap_laws fun_eq_iff split: pktType.split)
qed

lemma helper_ok_debt:
  assumes "helper_ok n h" and "k < n"
  shows "bph_needToSendRequestRetry k h = Inr (owed h k)"
proof -
  obtain b where "smap_find k (needToSendRequestRetryMap h) = Some b"
    using smap_find_total [of "needToSendRequestRetryMap h", OF _ less_imp_le [OF assms(2)]] assms(1)
    by (auto simp: helper_ok_def)
  then show ?thesis using assms by (simp add: bph_needToSendRequestRetry_def owed_def helper_ok_def)
qed

lemma helper_ok_set_debt:
  assumes "helper_ok n h" and "k < n"
  shows "\<exists>h'. updateRetryMap k b h = Inr h' \<and> helper_ok n h' \<and> blocking h' = blocking h
    \<and> owed h' = (owed h)(k := b) \<and> bph_usingGem5Cache h' = bph_usingGem5Cache h"
proof -
  obtain b' where "smap_find k (needToSendRequestRetryMap h) = Some b'"
    using smap_find_total [of "needToSendRequestRetryMap h", OF _ less_imp_le [OF assms(2)]] assms(1)
    by (auto simp: helper_ok_def)
  then show ?thesis
    using assms by (auto simp: updateRetryMap_def helper_ok_def blocking_def [abs_def]
        owed_def [abs_def] smap_find_map_snd fun_eq_iff split: pktType.split)
qed

interpretation bph: blocking_table getBlockingTrans updateBlockingMap bph_needToSendRequestRetry
  updateRetryMap blocking owed helper_ok
  using helper_ok_get helper_ok_put helper_ok_debt helper_ok_set_debt
  by unfold_locales blast+

section \<open>init\<close>

lemma sorted_sockets_upto: "sorted_wrt (<) (sockets_upto n)"
proof -
  have "(of_nat i :: u32) < of_nat j" if "i < j" and "j < Suc (unat n)" for i j
  proof -
    have "unat n < 2 ^ 32" using unsigned_less [of n] by simp
    then have "j < 2 ^ 32" and "i < 2 ^ 32" using that by simp_all
    then show ?thesis using that by (simp add: word_less_nat_alt word_less_of_nat_u32)
  qed
  then show ?thesis
    unfolding sockets_upto_def sorted_wrt_map
    by (intro sorted_wrt_mono_rel [OF _ sorted_wrt_upt]) auto
qed

lemma keys_eq_sockets_upto:
  assumes "smap_ok m" and "set (smap_keys m) = set (sockets_upto n)"
  shows "smap_keys m = sockets_upto n"
  using assms sorted_sockets_upto by (intro strict_sorted_equal) (simp_all add: smap_ok_def)

lemma init_entry_find:
  "smap_find k (blockingRequestMap (init_entry i h)) =
     (if k = i \<and> smap_find i (blockingRequestMap h) = None then Some None
      else smap_find k (blockingRequestMap h))"
  "smap_find k (blockingResponseMap (init_entry i h)) =
     (if k = i \<and> smap_find i (blockingResponseMap h) = None then Some None
      else smap_find k (blockingResponseMap h))"
  "smap_find k (needToSendRequestRetryMap (init_entry i h)) =
     (if k = i \<and> smap_find i (needToSendRequestRetryMap h) = None then Some False
      else smap_find k (needToSendRequestRetryMap h))"
  by (auto simp: init_entry_def smap_insert_def smap_find_assign_any split: option.split)

lemma init_entry_frame:
  "socket_num (init_entry i h) = socket_num h"
  "isSystemPortBlocked (init_entry i h) = isSystemPortBlocked h"
  "bph_usingGem5Cache (init_entry i h) = bph_usingGem5Cache h"
  by (simp_all add: init_entry_def)

definition maps_ok :: "blocking_packet_helper \<Rightarrow> bool" where
  "maps_ok h \<longleftrightarrow> smap_ok (blockingRequestMap h) \<and> smap_ok (blockingResponseMap h)
     \<and> smap_ok (needToSendRequestRetryMap h)"

lemma fold_init_entry:
  assumes "maps_ok h"
  shows "maps_ok (fold init_entry ks h)"
    and "set (smap_keys (blockingRequestMap (fold init_entry ks h)))
      = set ks \<union> set (smap_keys (blockingRequestMap h))"
    and "set (smap_keys (blockingResponseMap (fold init_entry ks h)))
      = set ks \<union> set (smap_keys (blockingResponseMap h))"
    and "set (smap_keys (needToSendRequestRetryMap (fold init_entry ks h)))
      = set ks \<union> set (smap_keys (needToSendRequestRetryMap h))"
  using assms
  by (induction ks arbitrary: h) (auto simp: maps_ok_def init_entry_def smap_laws)

lemma fold_init_entry_frame:
  "socket_num (fold init_entry ks h) = socket_num h"
  "isSystemPortBlocked (fold init_entry ks h) = isSystemPortBlocked h"
  "bph_usingGem5Cache (fold init_entry ks h) = bph_usingGem5Cache h"
  by (induction ks arbitrary: h) (simp_all add: init_entry_frame)

lemma init_entry_blocking: "blocking (init_entry i h) = blocking h"
  by (auto simp: blocking_def [abs_def] init_entry_find fun_eq_iff
      split: pktType.split option.split)

lemma init_entry_owed: "owed (init_entry i h) = owed h"
  by (auto simp: owed_def [abs_def] init_entry_find fun_eq_iff)

lemma fold_init_entry_tables:
  "blocking (fold init_entry ks h) = blocking h" "owed (fold init_entry ks h) = owed h"
  by (induction ks arbitrary: h) (simp_all add: init_entry_blocking init_entry_owed)

lemma BlockingPacketHelper_tables:
  "blocking (BlockingPacketHelper\<lparr>bph_usingGem5Cache := c, socket_num := m\<rparr>) ty k = None"
  "owed (BlockingPacketHelper\<lparr>bph_usingGem5Cache := c, socket_num := m\<rparr>) k = False"
  by (simp_all add: blocking_def owed_def BlockingPacketHelper_def split: pktType.split)

section \<open>Search\<close>

lemma first_nonnull_None: "first_nonnull m = None \<longleftrightarrow> (\<forall>(k, t) \<in> set m. t = None)"
  by (induction m rule: first_nonnull.induct) (auto split: option.splits)

lemma first_nonnull_Some:
  "smap_ok m \<Longrightarrow> first_nonnull m = Some t \<Longrightarrow>
     \<exists>k. smap_find k m = Some (Some t) \<and> (\<forall>j < k. \<forall>u. smap_find j m = Some u \<longrightarrow> u = None)"
proof (induction m rule: first_nonnull.induct)
  case (2 k u m)
  show ?case
  proof (cases u)
    case None
    with 2 obtain k' where k': "smap_find k' m = Some (Some t)"
        "\<forall>j < k'. \<forall>u. smap_find j m = Some u \<longrightarrow> u = None" by auto
    have "k \<noteq> k'" using k'(1) 2 smap_find_None_iff [of k' m] by auto
    then show ?thesis using k' None by auto
  next
    case (Some x)
    have "smap_find j m = None" if "j < k" for j
      using 2(2) that by (auto simp: smap_find_None_iff)
    with 2 Some show ?thesis by (intro exI [of _ k]) auto
  qed
qed simp

lemma blocking_Response_find:
  assumes "helper_ok n h"
  shows "blocking h Response k = Some t \<longleftrightarrow> smap_find k (blockingResponseMap h) = Some (Some t)"
  by (auto simp: blocking_def split: option.split)

lemma blocking_in_range:
  assumes "helper_ok n h" and "blocking h ty k = Some t"
  shows "k \<le> n"
proof -
  have "k \<in> set (sockets_upto n)"
  proof (cases ty)
    case Request
    with assms have "smap_find k (blockingRequestMap h) \<noteq> None"
      by (auto simp: blocking_def split: option.splits)
    with assms(1) show ?thesis by (simp add: smap_find_None_iff helper_ok_def)
  next
    case Response
    with assms have "smap_find k (blockingResponseMap h) \<noteq> None"
      by (auto simp: blocking_def split: option.splits)
    with assms(1) show ?thesis by (simp add: smap_find_None_iff helper_ok_def)
  qed
  then show ?thesis by (simp add: set_sockets_upto)
qed

lemma getBlockingResponse_None:
  assumes "helper_ok n h"
  shows "getBlockingResponse h = None \<longleftrightarrow> (\<forall>k. blocking h Response k = None)"
proof -
  have ok: "smap_ok (blockingResponseMap h)" using assms by (simp add: helper_ok_def)
  have "getBlockingResponse h = None \<longleftrightarrow> (\<forall>k t. smap_find k (blockingResponseMap h) = Some t \<longrightarrow> t = None)"
    using smap_ok_find_set [OF ok] by (auto simp: getBlockingResponse_def first_nonnull_None)
  then show ?thesis by (auto simp: blocking_def split: option.splits)
qed

lemma getBlockingResponse_Some:
  assumes "helper_ok n h" and "getBlockingResponse h = Some t"
  shows "\<exists>k \<le> n. blocking h Response k = Some t \<and> (\<forall>j < k. blocking h Response j = None)"
proof -
  obtain k where k: "smap_find k (blockingResponseMap h) = Some (Some t)"
      "\<forall>j < k. \<forall>u. smap_find j (blockingResponseMap h) = Some u \<longrightarrow> u = None"
    using first_nonnull_Some [of "blockingResponseMap h" t] assms
    by (auto simp: getBlockingResponse_def helper_ok_def)
  have "blocking h Response k = Some t" using k(1) by (simp add: blocking_def)
  moreover have "\<forall>j < k. blocking h Response j = None"
    using k(2) by (auto simp: blocking_def split: option.split)
  ultimately show ?thesis using blocking_in_range [OF assms(1)] by blast
qed

lemma isBlockingTrans_Some:
  assumes "helper_ok n h"
  shows "isBlockingTrans (Some t) ty h \<longleftrightarrow> (\<exists>k. blocking h Request k = Some t)"
proof -
  have ok: "smap_ok (blockingRequestMap h)" using assms by (simp add: helper_ok_def)
  have "isBlockingTrans (Some t) ty h \<longleftrightarrow> (\<exists>k. smap_find k (blockingRequestMap h) = Some (Some t))"
    using smap_ok_find_set [OF ok] by (auto simp: isBlockingTrans_def list_ex_iff)
  then show ?thesis by (auto simp: blocking_def split: option.splits)
qed

lemma isBlockingTrans_None [simp]: "\<not> isBlockingTrans None ty h"
  by (simp add: isBlockingTrans_def)

lemma bph_init_fresh:
  assumes "num \<noteq> - 1"
  shows "\<exists>h. bph_init num (bph_setUsingGem5Cache c BlockingPacketHelper) = Inr h \<and> helper_ok num h
     \<and> (\<forall>ty k. blocking h ty k = None) \<and> (\<forall>k. \<not> owed h k)"
proof -
  define h0 where "h0 = (bph_setUsingGem5Cache c BlockingPacketHelper)\<lparr>socket_num := Some num\<rparr>"
  define h where "h = fold init_entry (sockets_upto num) h0"
  have h0: "maps_ok h0" "blockingRequestMap h0 = []" "blockingResponseMap h0 = []"
      "needToSendRequestRetryMap h0 = []" "socket_num h0 = Some num" "\<not> isSystemPortBlocked h0"
    by (simp_all add: h0_def maps_ok_def bph_setUsingGem5Cache_def BlockingPacketHelper_def)
  have "helper_ok num h"
    using fold_init_entry [OF h0(1), of "sockets_upto num"] h0(2-) unfolding helper_ok_def maps_ok_def h_def
    by (intro conjI keys_eq_sockets_upto) (simp_all add: fold_init_entry_frame)
  moreover have "bph_init num (bph_setUsingGem5Cache c BlockingPacketHelper) = Inr h"
    using assms by (simp add: bph_init_def sockets_upto_def h_def h0_def del: upt_Suc)
  moreover have "blocking h ty k = None" "\<not> owed h k" for ty k
    by (simp_all add: h_def h0_def fold_init_entry_tables BlockingPacketHelper_tables
        bph_setUsingGem5Cache_def)
  ultimately show ?thesis by blast
qed

section \<open>Properties\<close>

text \<open>
  \<open>init\<close> for any socket count but the largest \<open>uint32_t\<close> returns, and establishes the table: an
  entry for each socket up to and including \<open>socket_num\<close>, no channel blocked, no retry owed.
\<close>

theorem init_establishes_table:
  assumes "num \<noteq> - 1"
  shows "\<exists>h. bph_init num (bph_setUsingGem5Cache c BlockingPacketHelper) = Inr h \<and> helper_ok num h
     \<and> (\<forall>ty k. blocking h ty k = None) \<and> (\<forall>k. \<not> owed h k)"
  using assms by (rule bph_init_fresh)

theorem init_establishes_table_witness:
  "\<exists>h. bph_init 2 (bph_setUsingGem5Cache False BlockingPacketHelper) = Inr h \<and> helper_ok 2 h"
  using init_establishes_table [of 2 False] by auto

text \<open>
  C31: once initialised for \<open>n\<close> sockets the helper refines a table of channel states. For every socket
  \<open>k < n\<close>: reading a blocking transaction or a retry debt returns the table's value; writing one
  changes exactly that value and keeps the invariant; no operation ends the simulation.
\<close>

theorem helper_refines_table:
  assumes "helper_ok n h" and "k < n"
  shows "getBlockingTrans k ty h = Inr (blocking h ty k)
    \<and> (\<exists>h'. updateBlockingMap k t ty h = Inr h' \<and> helper_ok n h'
        \<and> blocking h' = (blocking h)(ty := (blocking h ty)(k := t)) \<and> owed h' = owed h)
    \<and> bph_needToSendRequestRetry k h = Inr (owed h k)
    \<and> (\<exists>h'. updateRetryMap k b h = Inr h' \<and> helper_ok n h' \<and> blocking h' = blocking h
        \<and> owed h' = (owed h)(k := b))"
  using bph.get_tab [OF assms] bph.put_tab [OF assms(1) less_imp_le [OF assms(2)]]
    bph.debt_owes [OF assms] bph.set_debt_owes [OF assms] by blast

definition demo_helper :: blocking_packet_helper where
  "demo_helper = \<lparr>socket_num = Some 1, blockingRequestMap = [(0, Some 7), (1, None)],
     blockingResponseMap = [(0, None), (1, None)], needToSendRequestRetryMap = [(0, True), (1, False)],
     isSystemPortBlocked = False, bph_usingGem5Cache = False\<rparr>"

lemma demo_helper_ok: "helper_ok 1 demo_helper"
  by (simp add: helper_ok_def demo_helper_def sockets_upto_def)

theorem helper_refines_table_witness:
  "getBlockingTrans 0 Request demo_helper = Inr (Some 7)
   \<and> bph_needToSendRequestRetry 0 demo_helper = Inr True"
  using helper_refines_table [OF demo_helper_ok, of 0 Request None False]
  by (simp add: blocking_def owed_def demo_helper_def)

text \<open>
  The bounds of the accessors disagree at the last entry that \<open>init\<close> creates: at
  \<open>core_id = socket_num\<close> a transaction can be stored as blocking, but asking for it, asking for a
  retry debt and recording one all fail their assertion.
\<close>

theorem last_entry_write_only:
  assumes "helper_ok n h"
  shows "returns (updateBlockingMap n t ty h) \<and> getBlockingTrans n ty' h = Inl Assert_failed
    \<and> bph_needToSendRequestRetry n h = Inl Assert_failed \<and> updateRetryMap n b h = Inl Assert_failed"
  using assms helper_ok_put [OF assms order.refl, of t ty]
  by (auto simp: getBlockingTrans_def bph_needToSendRequestRetry_def updateRetryMap_def helper_ok_def
      returns_iff)

theorem last_entry_write_only_witness:
  "returns (updateBlockingMap 1 (Some 9) Request demo_helper)
   \<and> getBlockingTrans 1 Request demo_helper = Inl Assert_failed"
  using last_entry_write_only [OF demo_helper_ok] by blast

text \<open>
  \<open>getBlockingResponse\<close> returns null exactly when no response channel is blocked, and otherwise
  the blocked response of the lowest-numbered socket that has one.
\<close>

theorem getBlockingResponse_lowest:
  assumes "helper_ok n h"
  shows "(getBlockingResponse h = None \<longleftrightarrow> (\<forall>k. blocking h Response k = None))
    \<and> (\<forall>t. getBlockingResponse h = Some t \<longrightarrow>
         (\<exists>k \<le> n. blocking h Response k = Some t \<and> (\<forall>j < k. blocking h Response j = None)))"
  using getBlockingResponse_None [OF assms] getBlockingResponse_Some [OF assms] by blast

theorem getBlockingResponse_lowest_witness:
  "getBlockingResponse demo_helper = None \<and> blocking demo_helper Response 1 = None"
proof -
  have "getBlockingResponse demo_helper = None" by (simp add: getBlockingResponse_def demo_helper_def)
  with getBlockingResponse_lowest [OF demo_helper_ok] show ?thesis by blast
qed

end
