(* ===== verification/Tlm_Gem5.thy ===== *)
theory Tlm_Gem5
  imports Prelude
begin

text \<open>
  The data that crosses the boundary between gem5 and SystemC: the attributes of a TLM generic
  payload and of a gem5 packet that the wrapper reads or writes, and the payload extension of
  \<open>sc_ext.{hh,cc}\<close> that ties the two together.

  TLM and gem5 themselves are not part of the repository. Their enumerations and plain attributes
  are data here; everything they compute is a field of a record that the definitions take as an
  argument: \<open>tlm_lib\<close> for the payload's constructor, \<open>reset\<close> and status test, \<open>gem5_lib\<close> for the
  command attributes and \<open>makeResponse\<close>. The predicates \<open>tlm_lib_ok\<close> and \<open>gem5_lib_ok\<close> name the
  documented behaviour some theorems rely on.
\<close>

section \<open>TLM-2.0\<close>

datatype tlm_phase = UNINITIALIZED_PHASE | BEGIN_REQ | END_REQ | BEGIN_RESP | END_RESP

datatype tlm_sync_enum = TLM_ACCEPTED | TLM_UPDATED | TLM_COMPLETED

datatype tlm_command = TLM_READ_COMMAND | TLM_WRITE_COMMAND | TLM_IGNORE_COMMAND

datatype tlm_response_status =
    TLM_OK_RESPONSE
  | TLM_INCOMPLETE_RESPONSE
  | TLM_GENERIC_ERROR_RESPONSE
  | TLM_ADDRESS_ERROR_RESPONSE
  | TLM_COMMAND_ERROR_RESPONSE
  | TLM_BURST_ERROR_RESPONSE
  | TLM_BYTE_ENABLE_ERROR_RESPONSE

text \<open>
  \<open>class Gem5Extension\<close>: the packet and the socket the transaction belongs to. The constructor sets
  the packet only, so \<open>coreId\<close> is indeterminate (\<open>None\<close>) until \<open>setCoreID\<close>.
\<close>

record gem5_extension =
  Packet :: ptr
  coreId :: "u32 option"

record payload =
  gp_address :: u64
  gp_command :: tlm_command
  gp_data_ptr :: ptr
  gp_data_length :: u32
  gp_streaming_width :: u32
  gp_byte_enable_ptr :: "ptr option"
  gp_response_status :: tlm_response_status
  gp_extension :: "gem5_extension option"
  gp_has_mm :: bool

record tlm_lib =
  tl_new :: payload
  tl_reset :: "payload \<Rightarrow> payload"
  tl_is_response_error :: "tlm_response_status \<Rightarrow> bool"

definition tlm_lib_ok :: "tlm_lib \<Rightarrow> bool" where
  "tlm_lib_ok L \<longleftrightarrow>
     gp_has_mm (tl_new L) \<and> gp_extension (tl_new L) = None
   \<and> (\<forall>p. gp_has_mm (tl_reset L p) = gp_has_mm p \<and> gp_extension (tl_reset L p) = None)"

section \<open>gem5\<close>

text \<open>The commands the sources name, and the others by number.\<close>

datatype mem_cmd = ReadReq | WriteReq | SwapReq | OtherCmd nat

text \<open>What a packet's sender-state stack holds: the wrapper's own records, and other objects'.\<close>

datatype sender_state = TlmSenderState ptr | OtherSenderState nat

record packet =
  pkt_addr :: u64
  pkt_size :: u32
  pkt_data :: ptr
  pkt_cmd :: mem_cmd
  pkt_cacheResponding :: bool
  pkt_requestorId :: nat
  pkt_cpuClusterId :: "u32 option"
  pkt_payloadDelay :: tick
  pkt_headerDelay :: tick
  pkt_senderStates :: "sender_state list"

record gem5_lib =
  g_isRead :: "mem_cmd \<Rightarrow> bool"
  g_isWrite :: "mem_cmd \<Rightarrow> bool"
  g_isInvalidate :: "mem_cmd \<Rightarrow> bool"
  g_needsResponse :: "mem_cmd \<Rightarrow> bool"
  g_isResponse :: "mem_cmd \<Rightarrow> bool"
  g_makeResponse :: "packet \<Rightarrow> packet"

text \<open>
  gem5 documents that \<open>makeResponse\<close> turns a request that needs a response into that response and
  leaves the sender states to their owners, and that reads and writes have their namesake
  attributes.
\<close>

definition gem5_lib_ok :: "gem5_lib \<Rightarrow> bool" where
  "gem5_lib_ok G \<longleftrightarrow>
     g_isRead G ReadReq \<and> \<not> g_isRead G WriteReq \<and> g_isWrite G WriteReq
   \<and> \<not> g_isInvalidate G WriteReq
   \<and> (\<forall>p. g_needsResponse G (pkt_cmd p) \<longrightarrow>
        g_isResponse G (pkt_cmd (g_makeResponse G p))
      \<and> \<not> g_needsResponse G (pkt_cmd (g_makeResponse G p))
      \<and> pkt_senderStates (g_makeResponse G p) = pkt_senderStates p)"

section \<open>Concrete libraries\<close>

text \<open>
  Instances of the two records that satisfy the documented behaviour: they show that the
  hypotheses can hold and evaluate examples. No definition of the model refers to them.
\<close>

definition demo_tlm :: tlm_lib where
  "demo_tlm = \<lparr>tl_new = \<lparr>gp_address = 0, gp_command = TLM_IGNORE_COMMAND, gp_data_ptr = 0,
       gp_data_length = 0, gp_streaming_width = 0, gp_byte_enable_ptr = None,
       gp_response_status = TLM_INCOMPLETE_RESPONSE, gp_extension = None, gp_has_mm = True\<rparr>,
     tl_reset = (\<lambda>p. p\<lparr>gp_extension := None\<rparr>),
     tl_is_response_error = (\<lambda>s. s \<noteq> TLM_OK_RESPONSE)\<rparr>"

definition demo_gem5 :: gem5_lib where
  "demo_gem5 = \<lparr>g_isRead = (\<lambda>c. c = ReadReq \<or> c = SwapReq),
     g_isWrite = (\<lambda>c. c = WriteReq \<or> c = SwapReq),
     g_isInvalidate = (\<lambda>c. c = OtherCmd 0),
     g_needsResponse = (\<lambda>c. c = ReadReq \<or> c = WriteReq \<or> c = SwapReq),
     g_isResponse = (\<lambda>c. c = OtherCmd 1),
     g_makeResponse = (\<lambda>p. p\<lparr>pkt_cmd := OtherCmd 1\<rparr>)\<rparr>"

lemma demo_tlm_ok: "tlm_lib_ok demo_tlm"
  by (simp add: tlm_lib_ok_def demo_tlm_def)

lemma demo_gem5_ok: "gem5_lib_ok demo_gem5"
  by (simp add: gem5_lib_ok_def demo_gem5_def)

section \<open>Gem5Extension\<close>

definition Gem5Extension :: "ptr \<Rightarrow> gem5_extension" where
  "Gem5Extension packet = \<lparr>Packet = packet, coreId = None\<rparr>"

definition getExtension :: "payload \<Rightarrow> gem5_extension res" where
  "getExtension payload =
     (case gp_extension payload of None \<Rightarrow> Inl Sc_assert_failed | Some e \<Rightarrow> Inr e)"

definition getPacket :: "gem5_extension \<Rightarrow> ptr" where
  "getPacket e = Packet e"

definition setCoreID :: "u32 \<Rightarrow> gem5_extension \<Rightarrow> gem5_extension" where
  "setCoreID i e = e\<lparr>coreId := Some i\<rparr>"

definition getCoreID :: "gem5_extension \<Rightarrow> u32 res" where
  "getCoreID e =
     (case coreId e of None \<Rightarrow> Inl (Undefined_behaviour ''coreId'') | Some i \<Rightarrow> Inr i)"

definition clone :: "gem5_extension \<Rightarrow> gem5_extension" where
  "clone e = Gem5Extension (Packet e)"

definition copy_from :: "gem5_extension \<Rightarrow> gem5_extension \<Rightarrow> gem5_extension" where
  "copy_from cpyFrom e = e\<lparr>Packet := Packet cpyFrom\<rparr>"

lemmas ext_defs = Gem5Extension_def getExtension_def getPacket_def setCoreID_def getCoreID_def

text \<open>
  The wrapper finds its way back from a transaction through the extension: the packet and the
  socket id that were stored are the ones read.
\<close>

lemma extension_round_trip:
  assumes "gp_extension p = Some (setCoreID i (Gem5Extension pkt))"
  shows "bindr (getExtension p) (\<lambda>e. bindr (getCoreID e) (\<lambda>c. Inr (getPacket e, c))) = Inr (pkt, i)"
  using assms by (simp add: ext_defs)

end
