(* ===== verification/Memory_Manager.thy ===== *)
theory Memory_Manager
  imports Tlm_Gem5
begin

text \<open>
  \<open>MemoryManager\<close> of \<open>sc_mm.{hh,cc}\<close>: the pool of transactions behind \<open>mm.allocate()\<close>, to which the
  TLM library returns a payload through \<open>free\<close> when its last reference is released. Payload objects
  live in a heap; \<open>new\<close> takes the next unused address. The locale \<open>payload_pool\<close> is what the ports
  rely on: an allocation never returns a payload that is still in use.
\<close>

section \<open>State and operations\<close>

record gp_heap =
  cells :: "ptr \<Rightarrow> payload"
  brk :: ptr

record memory_manager =
  numberOfAllocations :: u32
  numberOfFrees :: u32
  freePayloads :: "ptr list"

type_synonym pool = "memory_manager \<times> gp_heap"

definition MemoryManager :: memory_manager where
  "MemoryManager = \<lparr>numberOfAllocations = 0, numberOfFrees = 0, freePayloads = []\<rparr>"

definition allocate :: "tlm_lib \<Rightarrow> pool \<Rightarrow> ptr \<times> pool" where
  "allocate L = (\<lambda>(mm, h).
     if freePayloads mm = []
     then (brk h, mm\<lparr>numberOfAllocations := numberOfAllocations mm + 1\<rparr>,
           h\<lparr>cells := (cells h)(brk h := tl_new L), brk := Suc (brk h)\<rparr>)
     else (last (freePayloads mm), mm\<lparr>freePayloads := butlast (freePayloads mm)\<rparr>, h))"

definition mm_free :: "tlm_lib \<Rightarrow> ptr \<Rightarrow> pool \<Rightarrow> pool" where
  "mm_free L payload = (\<lambda>(mm, h).
     (mm\<lparr>freePayloads := freePayloads mm @ [payload]\<rparr>,
      h\<lparr>cells := (cells h)(payload := tl_reset L (cells h payload))\<rparr>))"

text \<open>The destructor deletes the free payloads, counting each.\<close>

definition MemoryManager_destroy :: "memory_manager \<Rightarrow> memory_manager" where
  "MemoryManager_destroy mm =
     foldl (\<lambda>m payload. m\<lparr>numberOfFrees := numberOfFrees m + 1\<rparr>) mm (freePayloads mm)"

section \<open>Invariant\<close>

text \<open>
  \<open>live\<close> is the set of payloads handed out and not yet returned. Free and live payloads are disjoint,
  every payload ever created is one or the other, all were created with this manager, and a free one
  carries no extension.
\<close>

definition pool_ok :: "ptr set \<Rightarrow> pool \<Rightarrow> bool" where
  "pool_ok live = (\<lambda>(mm, h).
     distinct (freePayloads mm)
   \<and> set (freePayloads mm) \<inter> live = {}
   \<and> set (freePayloads mm) \<union> live = {..<brk h}
   \<and> numberOfAllocations mm = of_nat (brk h)
   \<and> (\<forall>p < brk h. gp_has_mm (cells h p))
   \<and> (\<forall>p \<in> set (freePayloads mm). gp_extension (cells h p) = None))"

definition clean_payload :: "ptr \<Rightarrow> pool \<Rightarrow> bool" where
  "clean_payload p s \<longleftrightarrow> gp_has_mm (cells (snd s) p) \<and> gp_extension (cells (snd s) p) = None"

definition empty_pool :: "payload \<Rightarrow> pool" where
  "empty_pool junk = (MemoryManager, \<lparr>cells = (\<lambda>_. junk), brk = 0\<rparr>)"

section \<open>The contract of a payload pool\<close>

text \<open>
  A history of requests to a pool: each allocation is recorded with the payload handed out and the
  payloads in use at that moment; a return of a payload that is not in use is not made.
\<close>

datatype pool_op = Alloc | Free ptr

fun pool_run :: "('s \<Rightarrow> ptr \<times> 's) \<Rightarrow> (ptr \<Rightarrow> 's \<Rightarrow> 's) \<Rightarrow> pool_op list \<Rightarrow> ptr set \<Rightarrow> 's
    \<Rightarrow> (ptr \<times> ptr set) list \<times> ptr set \<times> 's" where
  "pool_run alloc free [] live s = ([], live, s)"
| "pool_run alloc free (Alloc # ops) live s =
     (case alloc s of (p, s') \<Rightarrow>
      case pool_run alloc free ops (insert p live) s' of (ps, r) \<Rightarrow> ((p, live) # ps, r))"
| "pool_run alloc free (Free p # ops) live s =
     (if p \<in> live then pool_run alloc free ops (live - {p}) (free p s)
      else pool_run alloc free ops live s)"

locale payload_pool =
  fixes alloc :: "'s \<Rightarrow> ptr \<times> 's"
    and free :: "ptr \<Rightarrow> 's \<Rightarrow> 's"
    and ok :: "ptr set \<Rightarrow> 's \<Rightarrow> bool"
    and clean :: "ptr \<Rightarrow> 's \<Rightarrow> bool"
  assumes alloc_unused: "ok live s \<Longrightarrow> fst (alloc s) \<notin> live"
    and alloc_clean: "ok live s \<Longrightarrow> clean (fst (alloc s)) (snd (alloc s))"
    and alloc_ok: "ok live s \<Longrightarrow> ok (insert (fst (alloc s)) live) (snd (alloc s))"
    and free_ok: "ok live s \<Longrightarrow> p \<in> live \<Longrightarrow> ok (live - {p}) (free p s)"
    and reuse: "ok live s \<Longrightarrow> p \<in> live \<Longrightarrow> fst (alloc (free p s)) = p"
begin

lemma run_safe:
  "ok live s \<Longrightarrow> pool_run alloc free ops live s = (ps, live', s') \<Longrightarrow>
     ok live' s' \<and> (\<forall>(p, used) \<in> set ps. p \<notin> used)"
proof (induction ops arbitrary: live s ps)
  case (Cons opn ops)
  show ?case
  proof (cases opn)
    case Alloc
    obtain p t where a: "alloc s = (p, t)" by (cases "alloc s")
    obtain qs where r: "pool_run alloc free ops (insert p live) t = (qs, live', s')"
      and ps: "ps = (p, live) # qs"
      using Cons.prems(2) a Alloc by (auto split: prod.splits)
    have "ok (insert p live) t" and "p \<notin> live"
      using alloc_ok [OF Cons.prems(1)] alloc_unused [OF Cons.prems(1)] a by simp_all
    with Cons.IH [OF _ r] ps show ?thesis by simp
  next
    case (Free p)
    show ?thesis
    proof (cases "p \<in> live")
      case True
      then show ?thesis
        using Cons.IH [OF free_ok [OF Cons.prems(1) True]] Cons.prems(2) Free by simp
    next
      case False
      then show ?thesis using Cons.IH [OF Cons.prems(1)] Cons.prems(2) Free by simp
    qed
  qed
qed simp

text \<open>Two payloads in use at the same time are different objects.\<close>

lemma alloc_twice_distinct:
  assumes "ok live s"
  shows "fst (alloc (snd (alloc s))) \<noteq> fst (alloc s)"
  using alloc_unused [OF alloc_ok [OF assms]] by blast

end

section \<open>MemoryManager keeps the contract\<close>

lemma pool_ok_empty: "pool_ok {} (empty_pool junk)"
  by (simp add: pool_ok_def empty_pool_def MemoryManager_def)

lemma allocate_new:
  assumes "freePayloads mm = []"
  shows "allocate L (mm, h) = (brk h, mm\<lparr>numberOfAllocations := numberOfAllocations mm + 1\<rparr>,
           h\<lparr>cells := (cells h)(brk h := tl_new L), brk := Suc (brk h)\<rparr>)"
  using assms by (simp add: allocate_def)

lemma allocate_reuse:
  assumes "freePayloads mm = ps @ [p]"
  shows "allocate L (mm, h) = (p, mm\<lparr>freePayloads := ps\<rparr>, h)"
  using assms by (simp add: allocate_def)

lemma freePayloads_cases:
  obtains "freePayloads mm = []" | ps p where "freePayloads mm = ps @ [p]"
  by (cases "freePayloads mm" rule: rev_cases) auto

lemma allocate_fresh_and_ok:
  assumes lib: "tlm_lib_ok L" and ok: "pool_ok live s" and a: "allocate L s = (p, s')"
  shows "p \<notin> live \<and> clean_payload p s' \<and> pool_ok (insert p live) s'"
proof -
  obtain mm h where s: "s = (mm, h)" by (cases s)
  show ?thesis
  proof (cases mm rule: freePayloads_cases)
    case 1
    with ok s have live: "live = {..<brk h}" by (simp add: pool_ok_def)
    then have "insert (brk h) live = {..<Suc (brk h)}" by auto
    with 1 ok s a lib live show ?thesis
      by (auto simp: allocate_new pool_ok_def clean_payload_def tlm_lib_ok_def less_Suc_eq)
  next
    case (2 ps q)
    with ok s have "q < brk h" by (auto simp: pool_ok_def)
    with 2 ok s a show ?thesis
      by (auto simp: allocate_reuse pool_ok_def clean_payload_def)
  qed
qed

lemma mm_free_ok:
  assumes "tlm_lib_ok L" and "pool_ok live s" and "p \<in> live"
  shows "pool_ok (live - {p}) (mm_free L p s)"
  using assms by (cases s) (auto simp: pool_ok_def mm_free_def tlm_lib_ok_def)

lemma allocate_after_free: "fst (allocate L (mm_free L p s)) = p"
  by (cases s) (simp add: allocate_def mm_free_def)

text \<open>Over a TLM library with the documented behaviour, the manager is a payload pool.\<close>

interpretation mm_pool: payload_pool "allocate L" "mm_free L"
  "\<lambda>live s. tlm_lib_ok L \<and> pool_ok live s" clean_payload for L
proof unfold_locales
  fix live s p
  assume ok: "tlm_lib_ok L \<and> pool_ok live s"
  obtain q s' where a: "allocate L s = (q, s')" by (cases "allocate L s")
  from ok a show "fst (allocate L s) \<notin> live"
    and "clean_payload (fst (allocate L s)) (snd (allocate L s))"
    and "tlm_lib_ok L \<and> pool_ok (insert (fst (allocate L s)) live) (snd (allocate L s))"
    using allocate_fresh_and_ok [of L live s q s'] by simp_all
  from ok show "p \<in> live \<Longrightarrow> tlm_lib_ok L \<and> pool_ok (live - {p}) (mm_free L p s)"
    by (simp add: mm_free_ok)
  show "fst (allocate L (mm_free L p s)) = p"
    by (rule allocate_after_free)
qed

section \<open>Properties\<close>

text \<open>
  C35: whatever the sequence of allocations and returns, starting from the empty pool, no allocation
  hands out a payload that is still in use, and the pool's invariant holds at the end: free and used
  payloads partition the payloads ever created, whose number is \<open>numberOfAllocations\<close> (modulo its
  width), and free ones carry no extension.
\<close>

theorem mm_never_hands_out_used:
  assumes "tlm_lib_ok L"
    and "pool_run (allocate L) (mm_free L) ops {} (empty_pool junk) = (ps, live, s)"
  shows "(\<forall>(p, used) \<in> set ps. p \<notin> used) \<and> pool_ok live s"
  using mm_pool.run_safe [of L "{}" "empty_pool junk" ops ps live s] assms pool_ok_empty by blast

theorem mm_never_hands_out_used_witness:
  "let (ps, live, s) = pool_run (allocate demo_tlm) (mm_free demo_tlm)
       [Alloc, Alloc, Free 0, Alloc] {} (empty_pool (tl_new demo_tlm))
   in map fst ps = [0, 1, 0] \<and> live = {0, 1} \<and> pool_ok live s"
proof -
  obtain ps live s where r: "pool_run (allocate demo_tlm) (mm_free demo_tlm)
      [Alloc, Alloc, Free 0, Alloc] {} (empty_pool (tl_new demo_tlm)) = (ps, live, s)"
    by (rule prod_cases3)
  then have "map fst ps = [0, 1, 0] \<and> live = {0, 1}"
    by (auto simp: allocate_def mm_free_def empty_pool_def MemoryManager_def)
  with mm_never_hands_out_used [OF demo_tlm_ok r] r show ?thesis by simp
qed

end
