(* ===== verification/Slave_Transactor.thy ===== *)
theory Slave_Transactor
  imports Std_Map
begin

text \<open>
  \<open>Gem5SlaveTransactor_Multi\<close> of \<open>slave_transactor.{hh,cc}\<close>: the SystemC module that owns the initiator
  sockets of a slave port and the map from sockets to cores. \<open>sc_vector::init\<close> calls the creator
  once per element, in order. Binding the transactor to its port (\<open>before_end_of_elaboration\<close>) needs
  the simulation control and is modelled there.
\<close>

section \<open>std::to_string\<close>

definition digit_char :: "nat \<Rightarrow> char" where
  "digit_char d = char_of (48 + d)"

fun to_string :: "nat \<Rightarrow> string" where
  "to_string n =
     (if n < 10 then [digit_char n] else to_string (n div 10) @ [digit_char (n mod 10)])"

declare to_string.simps [simp del]

section \<open>State and operations\<close>

record slave_transactor_multi =
  stm_sockets :: "string list"
  socket_core_map :: "(u32, int list) smap"
  stm_portName :: string
  stm_socket_num :: u32
  stm_count :: u32

definition getNameForNewSocket ::
  "string \<Rightarrow> slave_transactor_multi \<Rightarrow> (string \<times> slave_transactor_multi) res" where
  "getNameForNewSocket name tm =
     (if \<not> stm_count tm < stm_socket_num tm then Inl Assert_failed
      else Inr (name @ to_string (unat (stm_count tm)), tm\<lparr>stm_count := stm_count tm + 1\<rparr>))"

definition create_socket ::
  "slave_transactor_multi \<Rightarrow> (string \<times> slave_transactor_multi) res" where
  "create_socket tm = getNameForNewSocket (stm_portName tm) tm"

fun init_sockets :: "nat \<Rightarrow> slave_transactor_multi \<Rightarrow> slave_transactor_multi res" where
  "init_sockets 0 tm = Inr tm"
| "init_sockets (Suc n) tm =
     bindr (create_socket tm) (\<lambda>(name, tm).
       init_sockets n (tm\<lparr>stm_sockets := stm_sockets tm @ [name]\<rparr>))"

definition Gem5SlaveTransactor_Multi :: "string \<Rightarrow> u32 \<Rightarrow> slave_transactor_multi res" where
  "Gem5SlaveTransactor_Multi portName socket_num =
     (if portName = [] then Inl (Sc_report_error ''No port name specified!'')
      else init_sockets (unat socket_num)
             \<lparr>stm_sockets = [], socket_core_map = [], stm_portName = portName,
              stm_socket_num = socket_num, stm_count = 0\<rparr>)"

definition getSocketNum :: "slave_transactor_multi \<Rightarrow> u32" where
  "getSocketNum tm = stm_socket_num tm"

definition isUsingGem5Cache :: "slave_transactor_multi \<Rightarrow> bool" where
  "isUsingGem5Cache tm = False"

definition setSocketCoreMap ::
  "(u32, int list) smap \<Rightarrow> slave_transactor_multi \<Rightarrow> slave_transactor_multi" where
  "setSocketCoreMap m tm = tm\<lparr>socket_core_map := m\<rparr>"

definition getSocketCoreMap :: "slave_transactor_multi \<Rightarrow> (u32, int list) smap" where
  "getSocketCoreMap tm = socket_core_map tm"

section \<open>Decimal numerals\<close>

definition char_digit :: "char \<Rightarrow> nat" where
  "char_digit c = of_char c - 48"

definition of_digits :: "string \<Rightarrow> nat" where
  "of_digits s = foldl (\<lambda>n c. 10 * n + char_digit c) 0 s"

lemma char_digit_digit_char: "d < 10 \<Longrightarrow> char_digit (digit_char d) = d"
  by (simp add: char_digit_def digit_char_def)

lemma of_digits_snoc: "of_digits (s @ [c]) = 10 * of_digits s + char_digit c"
  by (simp add: of_digits_def)

lemma of_digits_to_string: "of_digits (to_string n) = n"
proof (induction n rule: to_string.induct)
  case (1 n)
  show ?case
  proof (cases "n < 10")
    case True
    then show ?thesis
      by (simp add: to_string.simps [of n] char_digit_digit_char of_digits_def)
  next
    case False
    with 1 show ?thesis
      by (simp add: to_string.simps [of n] of_digits_snoc char_digit_digit_char)
  qed
qed

lemma to_string_inject: "to_string m = to_string n \<longleftrightarrow> m = n"
  by (metis of_digits_to_string)

section \<open>Properties\<close>

lemma init_sockets_names:
  assumes "unat (stm_count tm) + n \<le> unat (stm_socket_num tm)"
  shows "init_sockets n tm = Inr (tm\<lparr>stm_count := stm_count tm + of_nat n,
     stm_sockets := stm_sockets tm @
       map (\<lambda>i. stm_portName tm @ to_string i) [unat (stm_count tm)..<unat (stm_count tm) + n]\<rparr>)"
  using assms
proof (induction n arbitrary: tm)
  case (Suc n)
  let ?c = "unat (stm_count tm)"
  let ?tm = "tm\<lparr>stm_count := stm_count tm + 1,
    stm_sockets := stm_sockets tm @ [stm_portName tm @ to_string ?c]\<rparr>"
  have "unat (stm_socket_num tm) < 2 ^ 32"
    using unsigned_less [of "stm_socket_num tm"] by simp
  then have c: "unat (stm_count tm + 1) = Suc ?c"
    using Suc.prems by (simp add: unat_word_ariths)
  have step: "init_sockets (Suc n) tm = init_sockets n ?tm"
    using Suc.prems
    by (simp add: create_socket_def getNameForNewSocket_def word_less_nat_alt)
  have "init_sockets n ?tm = Inr (?tm\<lparr>stm_count := stm_count ?tm + of_nat n,
     stm_sockets := stm_sockets ?tm @
       map (\<lambda>i. stm_portName ?tm @ to_string i) [unat (stm_count ?tm)..<unat (stm_count ?tm) + n]\<rparr>)"
    using Suc.prems c by (intro Suc.IH) simp
  moreover have "[?c..<?c + Suc n] = ?c # [Suc ?c..<Suc ?c + n]"
    by (simp add: upt_conv_Cons del: upt_Suc)
  ultimately show ?case
    using step c by (simp add: add.assoc del: init_sockets.simps upt_Suc)
qed simp

text \<open>
  Constructing a transactor with a non-empty port name returns, creates exactly \<open>socket_num\<close>
  sockets named after the port and their index, and gives no two sockets the same name.
\<close>

theorem transactor_sockets:
  assumes "portName \<noteq> []"
  shows "\<exists>tm. Gem5SlaveTransactor_Multi portName n = Inr tm
     \<and> stm_sockets tm = map (\<lambda>i. portName @ to_string i) [0..<unat n]
     \<and> length (stm_sockets tm) = unat (getSocketNum tm) \<and> distinct (stm_sockets tm)"
proof -
  have "distinct (map (\<lambda>i. portName @ to_string i) [0..<unat n])"
    by (simp add: distinct_map inj_on_def to_string_inject)
  then show ?thesis
    using assms
    by (simp add: Gem5SlaveTransactor_Multi_def init_sockets_names getSocketNum_def)
qed

theorem transactor_sockets_witness:
  "\<exists>tm. Gem5SlaveTransactor_Multi ''p'' 2 = Inr tm \<and> stm_sockets tm = [''p0'', ''p1'']"
proof -
  have "map (\<lambda>i. ''p'' @ to_string i) [0..<unat (2 :: u32)] = [''p0'', ''p1'']"
    by (simp add: to_string.simps digit_char_def upt_rec char_of_def bit_0)
  then show ?thesis using transactor_sockets [of "''p''" 2] by auto
qed

end
