(* ===== verification/Slave_Port.thy ===== *)
theory Slave_Port
  imports Blocking_Helper Memory_Manager Slave_Transactor
    "HOL-Library.List_Lexorder" "HOL-Library.Char_ord"
begin

text \<open>
  \<open>SCSlavePort\<close> of \<open>sc_slave_port.{hh,cc}\<close> with the payload event of \<open>sc_peq.hh\<close>: the gem5 port that
  turns packets into TLM transactions, keeps the exclusion rule per socket, and turns responses back.

  The \<open>world\<close> holds the port, the global \<open>mm\<close> with the payload heap, the packets, the payload events
  scheduled in gem5's queue, both clocks, and the log of calls into gem5 and TLM in program order.
  What those calls do is a \<open>slave_env\<close>: each field maps the world at the call to its answer and the
  world at the return, so a callee may call back into the port; the blocking calls run through the target
  to the end and may stop the simulation there. Console output is left out.
\<close>

section \<open>The world\<close>

text \<open>The initiator socket of a call: the single transactor's, or one of the multi transactor's.\<close>

datatype sock = Single_socket | Socket_of u32

datatype call =
    Acquire ptr
  | Release ptr
  | Nb_transport_fw sock ptr tlm_phase tick
  | B_transport sock ptr tick
  | Transport_dbg sock ptr
  | Send_timing_resp ptr
  | Send_retry_req
  | Wakeup_event_queue tick
  | Schedule_event ptr tlm_phase tick
  | Register_nb_transport_bw sock

record slave_port =
  blockingRequest :: "ptr option"
  needToSendRequestRetry :: bool
  blockingResponse :: "ptr option"
  usingGem5Cache :: bool
  transactor :: "string option"
  transactor_multi :: "slave_transactor_multi ptr_field"
  blk_pkt_helper :: blocking_packet_helper
  cpu_port_map :: "(string, nat list) smap"
  socket_map :: "(u32, nat list) smap"
  cpu_vec :: "string list"

record world =
  w_port :: slave_port
  w_pool :: pool
  w_pkt :: "ptr \<Rightarrow> packet"
  w_events :: "(tick \<times> ptr \<times> tlm_phase) list"
  w_curTick :: tick
  w_now :: tick
  w_log :: "call list"

record slave_env =
  se_tlm :: tlm_lib
  se_gem5 :: gem5_lib
  se_nb_transport_fw :: "sock \<Rightarrow> ptr \<Rightarrow> tlm_phase \<Rightarrow> tick \<Rightarrow> world
     \<Rightarrow> (tlm_sync_enum \<times> tlm_phase \<times> tick) \<times> world"
  se_b_transport :: "sock \<Rightarrow> ptr \<Rightarrow> tick \<Rightarrow> world \<Rightarrow> (tick \<times> world) res"
  se_transport_dbg :: "sock \<Rightarrow> ptr \<Rightarrow> world \<Rightarrow> (u32 \<times> world) res"
  se_sendTimingResp :: "ptr \<Rightarrow> world \<Rightarrow> (bool \<times> world) res"
  se_sendRetryReq :: "world \<Rightarrow> world res"
  se_release :: "ptr \<Rightarrow> world \<Rightarrow> world"

abbreviation helper :: "world \<Rightarrow> blocking_packet_helper" where
  "helper w \<equiv> blk_pkt_helper (w_port w)"

definition gp :: "world \<Rightarrow> ptr \<Rightarrow> payload" where
  "gp w = cells (snd (w_pool w))"

definition set_gp :: "ptr \<Rightarrow> payload \<Rightarrow> world \<Rightarrow> world" where
  "set_gp t p w = w\<lparr>w_pool := (fst (w_pool w), (snd (w_pool w))\<lparr>cells := (cells (snd (w_pool w)))(t := p)\<rparr>)\<rparr>"

definition set_pkt :: "ptr \<Rightarrow> packet \<Rightarrow> world \<Rightarrow> world" where
  "set_pkt i p w = w\<lparr>w_pkt := (w_pkt w)(i := p)\<rparr>"

definition upd_port :: "(slave_port \<Rightarrow> slave_port) \<Rightarrow> world \<Rightarrow> world" where
  "upd_port f w = w\<lparr>w_port := f (w_port w)\<rparr>"

definition set_helper :: "blocking_packet_helper \<Rightarrow> world \<Rightarrow> world" where
  "set_helper h = upd_port (\<lambda>p. p\<lparr>blk_pkt_helper := h\<rparr>)"

definition note_call :: "call \<Rightarrow> world \<Rightarrow> world" where
  "note_call c w = w\<lparr>w_log := w_log w @ [c]\<rparr>"

section \<open>Calls into gem5 and TLM\<close>

definition acquire :: "ptr \<Rightarrow> world \<Rightarrow> world" where
  "acquire t = note_call (Acquire t)"

definition release :: "slave_env \<Rightarrow> ptr \<Rightarrow> world \<Rightarrow> world" where
  "release E t w = se_release E t (note_call (Release t) w)"

definition call_nb_transport_fw :: "slave_env \<Rightarrow> sock \<Rightarrow> ptr \<Rightarrow> tlm_phase \<Rightarrow> tick \<Rightarrow> world
    \<Rightarrow> (tlm_sync_enum \<times> tlm_phase \<times> tick) \<times> world" where
  "call_nb_transport_fw E s t phase delay w =
     se_nb_transport_fw E s t phase delay (note_call (Nb_transport_fw s t phase delay) w)"

definition call_b_transport :: "slave_env \<Rightarrow> sock \<Rightarrow> ptr \<Rightarrow> tick \<Rightarrow> world \<Rightarrow> (tick \<times> world) res" where
  "call_b_transport E s t delay w = se_b_transport E s t delay (note_call (B_transport s t delay) w)"

definition call_transport_dbg :: "slave_env \<Rightarrow> sock \<Rightarrow> ptr \<Rightarrow> world \<Rightarrow> (u32 \<times> world) res" where
  "call_transport_dbg E s t w = se_transport_dbg E s t (note_call (Transport_dbg s t) w)"

definition sendTimingResp :: "slave_env \<Rightarrow> ptr \<Rightarrow> world \<Rightarrow> (bool \<times> world) res" where
  "sendTimingResp E pkt w = se_sendTimingResp E pkt (note_call (Send_timing_resp pkt) w)"

definition sendRetryReq :: "slave_env \<Rightarrow> world \<Rightarrow> world res" where
  "sendRetryReq E w = se_sendRetryReq E (note_call Send_retry_req w)"

text \<open>
  \<open>PayloadEvent::notify\<close>: the event is due \<open>delay\<close> after the current SystemC time, in 64-bit
  arithmetic. The event object is new, so its \<open>assert(!scheduled())\<close> holds.
\<close>

definition PayloadEvent_notify :: "ptr \<Rightarrow> tlm_phase \<Rightarrow> tick \<Rightarrow> world \<Rightarrow> world" where
  "PayloadEvent_notify t phase delay w =
     (let nextEventTick = w_now w + delay;
          w = note_call (Wakeup_event_queue nextEventTick) w;
          w = note_call (Schedule_event t phase nextEventTick) w
      in w\<lparr>w_events := w_events w @ [(nextEventTick, t, phase)]\<rparr>)"

section \<open>Construction and binding\<close>

text \<open>The constructor does not initialise \<open>transactor_multi\<close>.\<close>

definition SCSlavePort :: slave_port where
  "SCSlavePort = \<lparr>blockingRequest = None, needToSendRequestRetry = False, blockingResponse = None,
     usingGem5Cache = False, transactor = None, transactor_multi = Indeterminate,
     blk_pkt_helper = BlockingPacketHelper, cpu_port_map = [], socket_map = [], cpu_vec = []\<rparr>"

definition updateCorePortMap :: "(string, nat list) smap \<Rightarrow> slave_port \<Rightarrow> slave_port" where
  "updateCorePortMap m p = p\<lparr>cpu_port_map := m, cpu_vec := cpu_vec p @ smap_keys m\<rparr>"

fun socket_map_default :: "u32 \<Rightarrow> (string, nat list) smap \<Rightarrow> (u32, nat list) smap
    \<Rightarrow> (u32, nat list) smap" where
  "socket_map_default count [] sm = sm"
| "socket_map_default count ((core, requestorId_list) # iter) sm =
     socket_map_default (count + 1) iter (smap_insert count requestorId_list sm)"

text \<open>
  One core of a configured socket. The comparison \<open>core_id >= cpu_vec.size()\<close> converts the \<open>int\<close> to
  \<open>size_t\<close>, so a negative core id is skipped too.
\<close>

definition socket_map_add_core :: "u32 \<Rightarrow> int \<Rightarrow> slave_port \<Rightarrow> slave_port" where
  "socket_map_add_core socket_id core_id p =
     (if length (cpu_vec p) \<le> unat (word_of_int core_id :: u64) then p
      else
        let core_name = cpu_vec p ! unat (word_of_int core_id :: u64);
            (ids, cores) = smap_index core_name [] (cpu_port_map p);
            (old, sm) = smap_index socket_id [] (socket_map p)
        in p\<lparr>cpu_port_map := cores, socket_map := smap_assign socket_id (old @ ids) sm\<rparr>)"

fun socket_map_configured :: "(u32, int list) smap \<Rightarrow> slave_port \<Rightarrow> slave_port" where
  "socket_map_configured [] p = p"
| "socket_map_configured ((socket_id, core_vec) # iter) p =
     socket_map_configured iter (fold (socket_map_add_core socket_id) core_vec p)"

definition initSocketMap :: "slave_port \<Rightarrow> slave_port res" where
  "initSocketMap p =
     (case transactor_multi p of
        Indeterminate \<Rightarrow> Inl (Undefined_behaviour ''transactor_multi'')
      | Null \<Rightarrow> Inr p
      | Obj tm \<Rightarrow>
          let config_map = getSocketCoreMap tm
          in if config_map = []
             then Inr (p\<lparr>socket_map := socket_map_default 0 (cpu_port_map p) (socket_map p)\<rparr>)
             else Inr (socket_map_configured config_map p))"

definition bindToTransactor :: "string \<Rightarrow> world \<Rightarrow> world res" where
  "bindToTransactor portName w =
     (if transactor (w_port w) \<noteq> None then Inl Sc_assert_failed
      else Inr (note_call (Register_nb_transport_bw Single_socket)
                 (upd_port (\<lambda>p. p\<lparr>transactor := Some portName\<rparr>) w)))"

definition bindToTransactor_multi :: "slave_transactor_multi \<Rightarrow> world \<Rightarrow> world res" where
  "bindToTransactor_multi tm w =
     (if transactor (w_port w) \<noteq> None then Inl Sc_assert_failed
      else
        let w = upd_port (\<lambda>p. p\<lparr>transactor_multi := Obj tm\<rparr>) w;
            w = fold (\<lambda>i. note_call (Register_nb_transport_bw (Socket_of (of_nat i))))
                  [0..<unat (getSocketNum tm)] w;
            w = upd_port (\<lambda>p. p\<lparr>usingGem5Cache := isUsingGem5Cache tm,
                  blk_pkt_helper := bph_setUsingGem5Cache (isUsingGem5Cache tm) (blk_pkt_helper p)\<rparr>) w
        in bindr (initSocketMap (w_port w)) (\<lambda>p.
           bindr (bph_init (of_nat (length (socket_map p))) (blk_pkt_helper p)) (\<lambda>h.
             Inr (w\<lparr>w_port := p\<lparr>blk_pkt_helper := h\<rparr>\<rparr>))))"

definition getSocketId :: "nat \<Rightarrow> slave_port \<Rightarrow> u32" where
  "getSocketId i p =
     (case find (\<lambda>(k, ids). i \<in> set ids) (socket_map p) of
        Some (k, ids) \<Rightarrow> (if usingGem5Cache p then k + 1 else k)
      | None \<Rightarrow> 0)"

text \<open>The socket a call goes through; an index past the vector's end is undefined behaviour.\<close>

definition select_socket :: "u32 \<Rightarrow> slave_port \<Rightarrow> sock res" where
  "select_socket socket_id p =
     (if transactor p \<noteq> None then Inr Single_socket
      else case transactor_multi p of
             Indeterminate \<Rightarrow> Inl (Undefined_behaviour ''transactor_multi'')
           | Null \<Rightarrow> Inl (Sc_report_fatal ''SCSlavePort'' ''No binded transactor, please check'')
           | Obj tm \<Rightarrow> (if unat socket_id < length (stm_sockets tm) then Inr (Socket_of socket_id)
                       else Inl (Undefined_behaviour ''sockets'')))"

section \<open>Packets to payloads\<close>

definition packet2payload :: "gem5_lib \<Rightarrow> packet \<Rightarrow> payload \<Rightarrow> payload res" where
  "packet2payload G packet txn =
     (let txn = txn\<lparr>gp_address := pkt_addr packet\<rparr>
      in if \<not> gp_has_mm txn then Inl Sc_assert_failed
         else
           let size = pkt_size packet;
               txn = txn\<lparr>gp_data_length := size, gp_streaming_width := size,
                             gp_data_ptr := pkt_data packet\<rparr>
           in if g_isRead G (pkt_cmd packet) then Inr (txn\<lparr>gp_command := TLM_READ_COMMAND\<rparr>)
              else if g_isInvalidate G (pkt_cmd packet) then Inr txn
              else if g_isWrite G (pkt_cmd packet) then Inr (txn\<lparr>gp_command := TLM_WRITE_COMMAND\<rparr>)
              else Inl (Sc_report_fatal ''SCSlavePort'' ''No R/W packet''))"

text \<open>
  The start of \<open>recvAtomic\<close>, \<open>recvFunctional\<close> and of an accepted \<open>recvTimingReq\<close>: a payload from the
  pool, acquired, filled from the packet, with the packet and the socket id attached.
\<close>

definition prepare_transaction :: "slave_env \<Rightarrow> ptr \<Rightarrow> u32 \<Rightarrow> world \<Rightarrow> (ptr \<times> world) res" where
  "prepare_transaction E packet socket_id w =
     (case allocate (se_tlm E) (w_pool w) of (txn, pool) \<Rightarrow>
        let w = acquire txn (w\<lparr>w_pool := pool\<rparr>)
        in bindr (packet2payload (se_gem5 E) (w_pkt w packet) (gp w txn)) (\<lambda>p.
             Inr (txn, set_gp txn
               (p\<lparr>gp_extension := Some (setCoreID socket_id (Gem5Extension packet))\<rparr>) w)))"

section \<open>The gem5 side: requests\<close>

abbreviation readOrWrite :: "slave_env \<Rightarrow> packet \<Rightarrow> bool" where
  "readOrWrite E p \<equiv> g_isRead (se_gem5 E) (pkt_cmd p) \<or> g_isWrite (se_gem5 E) (pkt_cmd p)"

definition respond_if_needed :: "slave_env \<Rightarrow> ptr \<Rightarrow> world \<Rightarrow> world" where
  "respond_if_needed E packet w =
     (if g_needsResponse (se_gem5 E) (pkt_cmd (w_pkt w packet))
      then set_pkt packet (g_makeResponse (se_gem5 E) (w_pkt w packet)) w else w)"

definition recvAtomic :: "slave_env \<Rightarrow> ptr \<Rightarrow> world \<Rightarrow> (tick \<times> world) res" where
  "recvAtomic E packet w =
     (let pkt = w_pkt w packet; cmd = pkt_cmd pkt
      in if w_curTick w \<noteq> w_now w then Inl Assert_failed
         else if pkt_cacheResponding pkt
         then Inl (Panic ''Should not see packets where cache is responding'')
         else if \<not> readOrWrite E pkt
         then Inl (Panic ''Should only see read and writes at TLM memory'')
         else
           let socket_id = getSocketId (pkt_requestorId pkt) (w_port w)
           in bindr (prepare_transaction E packet socket_id w) (\<lambda>(txn, w).
              bindr (if cmd = SwapReq then Inl (Sc_report_fatal ''SCSlavePort'' ''SwapReq not supported'')
                     else if g_isRead (se_gem5 E) cmd then
                       bindr (select_socket socket_id (w_port w)) (\<lambda>s. call_b_transport E s txn 0 w)
                     else if g_isInvalidate (se_gem5 E) cmd then Inr (0, w)
                     else if g_isWrite (se_gem5 E) cmd then
                       bindr (select_socket socket_id (w_port w)) (\<lambda>s. call_b_transport E s txn 0 w)
                     else Inl (Sc_report_fatal ''SCSlavePort'' ''Typo of request not supported''))
                (\<lambda>(delay, w). Inr (delay, release E txn (respond_if_needed E packet w)))))"

definition recvFunctional :: "slave_env \<Rightarrow> ptr \<Rightarrow> world \<Rightarrow> world res" where
  "recvFunctional E packet w =
     (let socket_id = getSocketId (pkt_requestorId (w_pkt w packet)) (w_port w)
      in bindr (prepare_transaction E packet socket_id w) (\<lambda>(txn, w).
         bindr (select_socket socket_id (w_port w)) (\<lambda>s.
         bindr (call_transport_dbg E s txn w) (\<lambda>(bytes, w).
           if bytes \<noteq> gp_data_length (gp w txn)
           then Inl (Sc_report_fatal ''SCSlavePort'' ''debug transport was not completed'')
           else Inr (release E txn w)))))"

definition recvTimingSnoopResp :: "ptr \<Rightarrow> world \<Rightarrow> (bool \<times> world) res" where
  "recvTimingSnoopResp packet w =
     Inl (Sc_report_fatal ''SCSlavePort'' ''unimplemented func.: recvTimingSnoopResp'')"

definition recvFunctionalSnoop :: "ptr \<Rightarrow> world \<Rightarrow> world res" where
  "recvFunctionalSnoop packet w =
     Inl (Sc_report_fatal ''SCSlavePort'' ''unimplemented func.: recvFunctionalSnoop'')"

definition target_socket_id :: "packet \<Rightarrow> slave_port \<Rightarrow> u32" where
  "target_socket_id pkt p =
     (let socket_id = getSocketId (pkt_requestorId pkt) p
      in case pkt_cpuClusterId pkt of
           Some cluster \<Rightarrow> (if cluster \<noteq> socket_id then cluster else socket_id)
         | None \<Rightarrow> socket_id)"

text \<open>The packet's delays are paid to the target and reset.\<close>

definition take_delay :: "ptr \<Rightarrow> world \<Rightarrow> tick \<times> world" where
  "take_delay packet w =
     (pkt_payloadDelay (w_pkt w packet),
      set_pkt packet ((w_pkt w packet)\<lparr>pkt_payloadDelay := 0, pkt_headerDelay := 0\<rparr>) w)"

text \<open>What \<open>recvTimingReq\<close> does with the target's answer to \<open>BEGIN_REQ\<close>.\<close>

definition after_begin_req :: "slave_env \<Rightarrow> ptr \<Rightarrow> u32 \<Rightarrow> tlm_sync_enum \<times> tlm_phase \<times> tick
    \<Rightarrow> world \<Rightarrow> (bool \<times> world) res" where
  "after_begin_req E txn socket_id = (\<lambda>(status, phase, delay) w.
     case status of
       TLM_ACCEPTED \<Rightarrow>
         if phase \<noteq> BEGIN_REQ then Inl Sc_assert_failed
         else if socket_id = 0 \<and> usingGem5Cache (w_port w)
         then Inr (True, upd_port (\<lambda>p. p\<lparr>blockingRequest := Some txn\<rparr>) w)
         else bindr (updateBlockingMap socket_id (Some txn) Request (helper w))
                (\<lambda>h. Inr (True, set_helper h w))
     | TLM_UPDATED \<Rightarrow>
         if \<not> (phase = END_REQ \<or> phase = BEGIN_RESP) then Inl Sc_assert_failed
         else Inr (True, PayloadEvent_notify txn phase delay w)
     | TLM_COMPLETED \<Rightarrow>
         if phase \<noteq> END_RESP then Inl Sc_assert_failed
         else Inr (True, release E txn w))"

definition recvTimingReq :: "slave_env \<Rightarrow> ptr \<Rightarrow> world \<Rightarrow> (bool \<times> world) res" where
  "recvTimingReq E packet w =
     (let pkt = w_pkt w packet
      in if w_curTick w \<noteq> w_now w then Inl Assert_failed
         else if pkt_cacheResponding pkt
         then Inl (Panic ''Should not see packets where cache is responding'')
         else if \<not> readOrWrite E pkt
         then Inl (Panic ''Should only see read and writes at TLM memory'')
         else if needToSendRequestRetry (w_port w) then Inl Sc_assert_failed
         else
           let socket_id = target_socket_id pkt (w_port w)
           in if blockingRequest (w_port w) \<noteq> None \<and> usingGem5Cache (w_port w)
              then Inr (False, upd_port (\<lambda>p. p\<lparr>needToSendRequestRetry := True\<rparr>) w)
              else bindr (isBlockedPort socket_id Request (helper w)) (\<lambda>blocked.
                if blocked
                then bindr (updateRetryMap socket_id True (helper w)) (\<lambda>h. Inr (False, set_helper h w))
                else bindr (prepare_transaction E packet socket_id w) (\<lambda>(txn, w).
                  case take_delay packet w of (delay, w) \<Rightarrow>
                    bindr (select_socket socket_id (w_port w)) (\<lambda>s.
                      case call_nb_transport_fw E s txn BEGIN_REQ delay w of (answer, w) \<Rightarrow>
                        after_begin_req E txn socket_id answer w))))"

section \<open>The TLM side: ends of requests, responses\<close>

definition core_of :: "ptr \<Rightarrow> world \<Rightarrow> u32 res" where
  "core_of txn w = bindr (getExtension (gp w txn)) getCoreID"

definition pec_end_req :: "slave_env \<Rightarrow> ptr \<Rightarrow> world \<Rightarrow> world res" where
  "pec_end_req E txn w =
     (if blockingRequest (w_port w) = Some txn \<and> usingGem5Cache (w_port w)
      then
        let w = upd_port (\<lambda>p. p\<lparr>blockingRequest := None\<rparr>) w
        in if needToSendRequestRetry (w_port w)
           then sendRetryReq E (upd_port (\<lambda>p. p\<lparr>needToSendRequestRetry := False\<rparr>) w)
           else Inr w
      else if \<not> isBlockingTrans (Some txn) Request (helper w) then Inl Sc_assert_failed
      else bindr (core_of txn w) (\<lambda>core_id.
           bindr (updateBlockingMap core_id None Request (helper w)) (\<lambda>h.
           bindr (bph_needToSendRequestRetry core_id h) (\<lambda>retry.
             if retry
             then bindr (updateRetryMap core_id False h) (\<lambda>h. sendRetryReq E (set_helper h w))
             else Inr (set_helper h w)))))"

text \<open>Make the packet a response if it is not one yet, and offer it to gem5: is a retry needed?\<close>

definition offer_response :: "slave_env \<Rightarrow> ptr \<Rightarrow> world \<Rightarrow> (bool \<times> world) res" where
  "offer_response E packet w =
     (let w = respond_if_needed E packet w
      in if g_isResponse (se_gem5 E) (pkt_cmd (w_pkt w packet))
         then bindr (sendTimingResp E packet w) (\<lambda>(sent, w). Inr (\<not> sent, w))
         else Inr (False, w))"

definition finish_transaction :: "slave_env \<Rightarrow> ptr \<Rightarrow> u32 \<Rightarrow> world \<Rightarrow> world res" where
  "finish_transaction E txn core_id w =
     bindr (select_socket core_id (w_port w)) (\<lambda>s.
       case call_nb_transport_fw E s txn END_RESP 0 w of (_, w) \<Rightarrow> Inr (release E txn w))"

definition hold_response :: "ptr \<Rightarrow> u32 \<Rightarrow> world \<Rightarrow> world res" where
  "hold_response txn core_id w =
     (if core_id = 0 \<and> usingGem5Cache (w_port w)
      then Inr (upd_port (\<lambda>p. p\<lparr>blockingResponse := Some txn\<rparr>) w)
      else bindr (updateBlockingMap core_id (Some txn) Response (helper w))
             (\<lambda>h. Inr (set_helper h w)))"

definition pec_begin_resp :: "slave_env \<Rightarrow> ptr \<Rightarrow> world \<Rightarrow> world res" where
  "pec_begin_resp E txn w =
     (if w_curTick w \<noteq> w_now w then Inl Assert_failed
      else bindr (getExtension (gp w txn)) (\<lambda>extension.
        let packet = getPacket extension
        in bindr (getCoreID extension) (\<lambda>core_id.
           bindr (if core_id = 0 \<and> usingGem5Cache (w_port w) then Inr (blockingResponse (w_port w))
                  else getBlockingTrans core_id Response (helper w)) (\<lambda>busy.
             if busy \<noteq> None then Inl Sc_assert_failed
             else bindr (offer_response E packet w) (\<lambda>(need_retry, w).
                    if need_retry then hold_response txn core_id w
                    else finish_transaction E txn core_id w)))))"

definition pec :: "slave_env \<Rightarrow> ptr \<Rightarrow> tlm_phase \<Rightarrow> world \<Rightarrow> world res" where
  "pec E txn phase w =
     bindr (if phase = END_REQ
              \<or> (isBlockingTrans (Some txn) Request (helper w) \<and> phase = BEGIN_RESP)
              \<or> (blockingRequest (w_port w) = Some txn \<and> phase = BEGIN_RESP)
            then pec_end_req E txn w else Inr w)
       (\<lambda>w. if phase = BEGIN_RESP then pec_begin_resp E txn w else Inr w)"

text \<open>One round of the loop of \<open>recvRespRetry\<close>; \<open>response\<close> is the local variable of that name.\<close>

definition resp_retry_round :: "slave_env \<Rightarrow> ptr option \<Rightarrow> world \<Rightarrow> world res" where
  "resp_retry_round E response w =
     bindr (case blockingResponse (w_port w) of
              Some txn \<Rightarrow>
                let w = upd_port (\<lambda>p. p\<lparr>blockingResponse := None\<rparr>) w
                in bindr (getExtension (gp w txn)) (\<lambda>e.
                   bindr (getCoreID e) (\<lambda>core_id. Inr (txn, getPacket e, core_id, w)))
            | None \<Rightarrow>
                (case response of
                   None \<Rightarrow> Inl (Undefined_behaviour ''trans'')
                 | Some txn \<Rightarrow>
                     bindr (getExtension (gp w txn)) (\<lambda>e.
                     bindr (getCoreID e) (\<lambda>core_id.
                     bindr (updateBlockingMap core_id None Response (helper w)) (\<lambda>h.
                       Inr (txn, getPacket e, core_id, set_helper h w))))))
       (\<lambda>(txn, packet, core_id, w).
         bindr (sendTimingResp E packet w) (\<lambda>(sent, w).
           if \<not> sent then Inl Sc_assert_failed
           else finish_transaction E txn core_id w))"

text \<open>The loop itself, with a bound on its rounds: running out of rounds is \<open>No_return\<close>.\<close>

fun resp_retry_loop :: "slave_env \<Rightarrow> nat \<Rightarrow> ptr option \<Rightarrow> world \<Rightarrow> world res" where
  "resp_retry_loop E rounds response w =
     (if response = None \<and> blockingResponse (w_port w) = None then Inr w
      else case rounds of
             0 \<Rightarrow> Inl No_return
           | Suc n \<Rightarrow> bindr (resp_retry_round E response w) (\<lambda>w.
                 resp_retry_loop E n (getBlockingResponse (helper w)) w))"

definition recvRespRetry :: "slave_env \<Rightarrow> nat \<Rightarrow> world \<Rightarrow> world res" where
  "recvRespRetry E rounds w =
     (if w_curTick w \<noteq> w_now w then Inl Assert_failed
      else resp_retry_loop E rounds (getBlockingResponse (helper w)) w)"

definition nb_transport_bw :: "ptr \<Rightarrow> tlm_phase \<Rightarrow> tick \<Rightarrow> world \<Rightarrow> tlm_sync_enum \<times> world" where
  "nb_transport_bw txn phase delay w = (TLM_ACCEPTED, PayloadEvent_notify txn phase delay w)"

end
