(* ===== verification/Slave_Invariant.thy ===== *)
theory Slave_Invariant
  imports Slave_Port
begin

text \<open>
  Ownership of transactions in a slave port bound to a multi-socket transactor (which never uses the
  gem5 cache mode), and the proof that every operation of the port keeps it.

  A transaction that the pool has handed out is owned either by the helper's table, while it blocks
  the request or the response channel of its socket, or by an operation or event in flight; \<open>H\<close> maps
  each transaction of the second kind to its socket. The locale \<open>slave_rely\<close> states what the port
  relies on from gem5 and TLM: a call may re-enter the port, but keeps this ownership, and releasing
  a transaction gives up the ownership its caller had.
\<close>

section \<open>Frames\<close>

lemma note_call_frame [frame_simps]:
  "w_port (note_call c w) = w_port w" "w_pool (note_call c w) = w_pool w"
  "w_pkt (note_call c w) = w_pkt w" "w_events (note_call c w) = w_events w"
  "w_curTick (note_call c w) = w_curTick w" "w_now (note_call c w) = w_now w"
  "w_log (note_call c w) = w_log w @ [c]"
  by (simp_all add: note_call_def)

lemma set_pkt_frame [frame_simps]:
  "w_port (set_pkt i p w) = w_port w" "w_pool (set_pkt i p w) = w_pool w"
  "w_events (set_pkt i p w) = w_events w" "w_log (set_pkt i p w) = w_log w"
  "w_curTick (set_pkt i p w) = w_curTick w" "w_now (set_pkt i p w) = w_now w"
  by (simp_all add: set_pkt_def)

lemma upd_port_frame [frame_simps]:
  "w_port (upd_port f w) = f (w_port w)" "w_pool (upd_port f w) = w_pool w"
  "w_events (upd_port f w) = w_events w" "w_log (upd_port f w) = w_log w"
  "w_pkt (upd_port f w) = w_pkt w"
  "w_curTick (upd_port f w) = w_curTick w" "w_now (upd_port f w) = w_now w"
  by (simp_all add: upd_port_def)

lemma set_gp_frame [frame_simps]:
  "w_port (set_gp t p w) = w_port w" "w_events (set_gp t p w) = w_events w"
  "w_log (set_gp t p w) = w_log w" "w_pkt (set_gp t p w) = w_pkt w"
  "w_curTick (set_gp t p w) = w_curTick w" "w_now (set_gp t p w) = w_now w"
  by (simp_all add: set_gp_def)

lemma gp_frame [frame_simps]:
  "gp (note_call c w) = gp w" "gp (set_pkt i p w) = gp w" "gp (upd_port f w) = gp w"
  "gp (set_gp u g w) = (gp w)(u := g)"
  by (simp_all add: gp_def frame_simps) (simp add: set_gp_def)

lemma set_helper_frame [frame_simps]:
  "w_pool (set_helper h w) = w_pool w" "w_events (set_helper h w) = w_events w"
  "w_log (set_helper h w) = w_log w" "w_pkt (set_helper h w) = w_pkt w"
  "w_curTick (set_helper h w) = w_curTick w" "w_now (set_helper h w) = w_now w"
  "w_port (set_helper h w) = (w_port w)\<lparr>blk_pkt_helper := h\<rparr>" "gp (set_helper h w) = gp w"
  by (simp_all add: set_helper_def frame_simps)

lemma PayloadEvent_notify_frame [frame_simps]:
  "w_port (PayloadEvent_notify t ph d w) = w_port w" "w_pool (PayloadEvent_notify t ph d w) = w_pool w"
  "w_pkt (PayloadEvent_notify t ph d w) = w_pkt w"
  "w_events (PayloadEvent_notify t ph d w) = w_events w @ [(w_now w + d, t, ph)]"
  "w_log (PayloadEvent_notify t ph d w) =
     w_log w @ [Wakeup_event_queue (w_now w + d), Schedule_event t ph (w_now w + d)]"
  by (simp_all add: PayloadEvent_notify_def Let_def frame_simps)

lemma respond_if_needed_frame [frame_simps]:
  "w_port (respond_if_needed E i w) = w_port w" "w_pool (respond_if_needed E i w) = w_pool w"
  "w_log (respond_if_needed E i w) = w_log w" "w_events (respond_if_needed E i w) = w_events w"
  "gp (respond_if_needed E i w) = gp w"
  by (simp_all add: respond_if_needed_def frame_simps)

lemma take_delay_frame [frame_simps]:
  "w_port (snd (take_delay i w)) = w_port w" "w_pool (snd (take_delay i w)) = w_pool w"
  "w_log (snd (take_delay i w)) = w_log w" "w_events (snd (take_delay i w)) = w_events w"
  "gp (snd (take_delay i w)) = gp w"
  by (simp_all add: take_delay_def frame_simps)

section \<open>Ownership\<close>

definition core_opt :: "payload \<Rightarrow> u32 option" where
  "core_opt p = (case gp_extension p of None \<Rightarrow> None | Some e \<Rightarrow> coreId e)"

lemma core_of_Inr: "core_of t w = Inr k \<longleftrightarrow> core_opt (gp w t) = Some k"
  by (auto simp: core_of_def core_opt_def ext_defs split: option.splits)

lemma extension_core:
  assumes "getExtension (gp w t) = Inr e" and "getCoreID e = Inr k"
  shows "core_opt (gp w t) = Some k"
  using assms by (auto simp: core_opt_def ext_defs split: option.splits)

type_synonym owners = "ptr \<Rightarrow> u32 option"

text \<open>The mode flags that never change when the cache mode is off.\<close>

definition no_cache_mode :: "slave_port \<Rightarrow> bool" where
  "no_cache_mode p \<longleftrightarrow> \<not> usingGem5Cache p \<and> \<not> bph_usingGem5Cache (blk_pkt_helper p)
     \<and> blockingRequest p = None \<and> blockingResponse p = None \<and> \<not> needToSendRequestRetry p"

text \<open>\<open>b\<close> is the table of blocking transactions, \<open>d\<close> the retry debts, \<open>g\<close> the payloads.\<close>

definition table_ok :: "u32 \<Rightarrow> owners \<Rightarrow> (ptr \<Rightarrow> payload) \<Rightarrow> (pktType \<Rightarrow> u32 \<Rightarrow> ptr option)
    \<Rightarrow> (u32 \<Rightarrow> bool) \<Rightarrow> bool" where
  "table_ok n H g b d \<longleftrightarrow>
     (\<forall>ty k t. b ty k = Some t \<longrightarrow> k < n \<and> core_opt (g t) = Some k \<and> H t = None)
   \<and> (\<forall>k t. b Request k = Some t \<longrightarrow> b Response k \<noteq> Some t)
   \<and> (\<forall>k. d k \<longrightarrow> b Request k \<noteq> None)
   \<and> (\<forall>t k. H t = Some k \<longrightarrow> core_opt (g t) = Some k)"

definition pool_owns :: "owners \<Rightarrow> (pktType \<Rightarrow> u32 \<Rightarrow> ptr option) \<Rightarrow> pool \<Rightarrow> bool" where
  "pool_owns H b s \<longleftrightarrow>
     (\<exists>live. pool_ok live s \<and> dom H \<subseteq> live \<and> (\<forall>ty k t. b ty k = Some t \<longrightarrow> t \<in> live))"

definition port_ok :: "u32 \<Rightarrow> owners \<Rightarrow> world \<Rightarrow> bool" where
  "port_ok n H w \<longleftrightarrow>
     no_cache_mode (w_port w) \<and> helper_ok n (helper w)
   \<and> table_ok n H (gp w) (blocking (helper w)) (owed (helper w))
   \<and> pool_owns H (blocking (helper w)) (w_pool w)"

section \<open>Moves of a transaction\<close>

text \<open>A channel is freed: its transaction moves from the table to the operation at hand.\<close>

lemma table_unblock:
  assumes ok: "table_ok n H g b d" and b: "b ty k = Some t" and d: "\<And>j. d' j \<Longrightarrow> d j"
    "ty = Request \<Longrightarrow> \<not> d' k"
  shows "table_ok n (H(t \<mapsto> k)) g (b(ty := (b ty)(k := None))) d'"
proof -
  have entry: "j < n \<and> core_opt (g u) = Some j \<and> H u = None" if "b x j = Some u" for x j u
    using ok that unfolding table_ok_def by blast
  have gone: "(b(ty := (b ty)(k := None))) x j \<noteq> Some t" for x j
  proof
    assume x: "(b(ty := (b ty)(k := None))) x j = Some t"
    then have "b x j = Some t" by (auto split: if_splits)
    with entry [of x j t] entry [OF b] have "j = k" by simp
    with x have "x \<noteq> ty" by auto
    with \<open>b x j = Some t\<close> \<open>j = k\<close> b ok show False
      unfolding table_ok_def by (metis pktType.exhaust)
  qed
  have old: "b x j = Some u" if "(b(ty := (b ty)(k := None))) x j = Some u" for x j u
    using that by (auto split: if_splits)
  show ?thesis
    unfolding table_ok_def
  proof (intro conjI allI impI)
    fix x j u
    assume u: "(b(ty := (b ty)(k := None))) x j = Some u"
    then show "j < n" and "core_opt (g u) = Some j" using entry [OF old] by blast+
    have "u \<noteq> t" using gone u by blast
    then show "(H(t \<mapsto> k)) u = None" using entry [OF old [OF u]] by simp
  next
    fix j u
    assume "(b(ty := (b ty)(k := None))) Request j = Some u"
    then have "b Response j \<noteq> Some u" using old ok unfolding table_ok_def by blast
    then show "(b(ty := (b ty)(k := None))) Response j \<noteq> Some u" using old by blast
  next
    fix j
    assume "d' j"
    then have "b Request j \<noteq> None" and "ty = Request \<Longrightarrow> j \<noteq> k"
      using d ok unfolding table_ok_def by blast+
    then show "(b(ty := (b ty)(k := None))) Request j \<noteq> None" by auto
  next
    fix u j
    assume "(H(t \<mapsto> k)) u = Some j"
    then show "core_opt (g u) = Some j"
      using entry [OF b] ok unfolding table_ok_def by (auto split: if_splits)
  qed
qed

lemma pool_unblock:
  assumes "pool_owns H b s" and "b ty k = Some t"
  shows "pool_owns (H(t \<mapsto> k)) (b(ty := (b ty)(k := None))) s"
proof -
  obtain live where "pool_ok live s" "dom H \<subseteq> live" "\<And>x j u. b x j = Some u \<Longrightarrow> u \<in> live"
    using assms(1) unfolding pool_owns_def by blast
  with assms(2) show ?thesis
    unfolding pool_owns_def by (intro exI [of _ live]) (auto split: if_splits)
qed

text \<open>A channel is blocked: the operation's transaction moves into the table.\<close>

lemma table_block:
  assumes ok: "table_ok n H g b d" and own: "H t = Some k" and k: "k < n"
  shows "table_ok n (H(t := None)) g (b(ty := (b ty)(k := Some t))) d"
proof -
  have entry: "j < n \<and> core_opt (g u) = Some j \<and> H u = None" if "b x j = Some u" for x j u
    using ok that unfolding table_ok_def by blast
  have fresh: "b x j \<noteq> Some t" for x j using entry own by fastforce
  have core: "core_opt (g t) = Some k" using ok own unfolding table_ok_def by blast
  have cases_new: "(x = ty \<and> j = k \<and> u = t) \<or> b x j = Some u"
    if "(b(ty := (b ty)(k := Some t))) x j = Some u" for x j u
    using that by (auto split: if_splits)
  show ?thesis
    unfolding table_ok_def
  proof (intro conjI allI impI)
    fix x j u
    assume "(b(ty := (b ty)(k := Some t))) x j = Some u"
    then consider "x = ty" "j = k" "u = t" | "b x j = Some u" using cases_new by blast
    then show "j < n" and "core_opt (g u) = Some j" and "(H(t := None)) u = None"
      using entry core k by (cases; auto)+
  next
    fix j u
    assume "(b(ty := (b ty)(k := Some t))) Request j = Some u"
    then show "(b(ty := (b ty)(k := Some t))) Response j \<noteq> Some u"
      using fresh ok unfolding table_ok_def by (auto split: if_splits)
  next
    fix j
    assume "d j"
    then show "(b(ty := (b ty)(k := Some t))) Request j \<noteq> None"
      using ok unfolding table_ok_def by auto
  next
    fix u j
    assume "(H(t := None)) u = Some j"
    then show "core_opt (g u) = Some j"
      using ok unfolding table_ok_def by (auto split: if_splits)
  qed
qed

lemma pool_block:
  assumes "pool_owns H b s" and "H t = Some k"
  shows "pool_owns (H(t := None)) (b(ty := (b ty)(k := Some t))) s"
proof -
  obtain live where "pool_ok live s" "dom H \<subseteq> live" "\<And>x j u. b x j = Some u \<Longrightarrow> u \<in> live"
    using assms(1) unfolding pool_owns_def by blast
  with assms(2) show ?thesis
    unfolding pool_owns_def by (intro exI [of _ live]) (auto split: if_splits)
qed

lemma table_debt:
  assumes "table_ok n H g b d" and "b Request k \<noteq> None"
  shows "table_ok n H g b (d(k := x))"
  using assms unfolding table_ok_def by (auto split: if_splits)

text \<open>A transaction leaves the port altogether; its payload may change.\<close>

lemma table_forget:
  assumes ok: "table_ok n H g b d" and absent: "\<And>ty j. b ty j \<noteq> Some t"
    and g: "\<And>u. u \<noteq> t \<Longrightarrow> g' u = g u"
  shows "table_ok n (H(t := None)) g' b d"
  unfolding table_ok_def
proof (intro conjI allI impI)
  fix ty k u
  assume u: "b ty k = Some u"
  then have "u \<noteq> t" using absent by blast
  then show "k < n" and "core_opt (g' u) = Some k" and "(H(t := None)) u = None"
    using ok u g unfolding table_ok_def by auto
next
  fix k u
  assume "b Request k = Some u"
  then show "b Response k \<noteq> Some u" using ok unfolding table_ok_def by blast
next
  fix k
  assume "d k"
  then show "b Request k \<noteq> None" using ok unfolding table_ok_def by blast
next
  fix u k
  assume "(H(t := None)) u = Some k"
  then show "core_opt (g' u) = Some k"
    using ok g unfolding table_ok_def by (auto split: if_splits)
qed

section \<open>Moves of the port\<close>

lemma port_ok_cong:
  assumes "w_port w' = w_port w" and "w_pool w' = w_pool w"
  shows "port_ok n H w' = port_ok n H w"
  using assms by (simp add: port_ok_def gp_def)

lemma port_ok_frame [simp]:
  "port_ok n H (note_call c w) = port_ok n H w"
  "port_ok n H (set_pkt i p w) = port_ok n H w"
  "port_ok n H (PayloadEvent_notify t ph d w) = port_ok n H w"
  "port_ok n H (respond_if_needed E i w) = port_ok n H w"
  "port_ok n H (snd (take_delay i w)) = port_ok n H w"
  by (rule port_ok_cong; simp add: frame_simps)+

lemma port_ok_not_cache:
  assumes "port_ok n H w"
  shows "\<not> usingGem5Cache (w_port w)" "blockingRequest (w_port w) = None"
    "blockingResponse (w_port w) = None" "\<not> needToSendRequestRetry (w_port w)"
    "\<not> isSystemPortBlocked (helper w)" "helper_ok n (helper w)"
  using assms by (auto simp: port_ok_def no_cache_mode_def helper_ok_def)

lemma port_ok_blocking:
  assumes "port_ok n H w" and "blocking (helper w) ty k = Some t"
  shows "k < n" "core_opt (gp w t) = Some k" "H t = None"
  using assms unfolding port_ok_def table_ok_def by blast+

lemma port_ok_owned:
  assumes "port_ok n H w" and "H t = Some k"
  shows "core_opt (gp w t) = Some k"
  using assms unfolding port_ok_def table_ok_def by blast

text \<open>What an update of the helper does to its tables, once it has returned.\<close>

lemma put_effect:
  assumes "helper_ok n h" and "k \<le> n" and "updateBlockingMap k t ty h = Inr h'"
  shows "helper_ok n h'" "blocking h' = (blocking h)(ty := (blocking h ty)(k := t))"
    "owed h' = owed h" "bph_usingGem5Cache h' = bph_usingGem5Cache h"
  using helper_ok_put [OF assms(1,2), of t ty] assms(3) by auto

lemma debt_effect:
  assumes "helper_ok n h" and "k < n" and "updateRetryMap k b h = Inr h'"
  shows "helper_ok n h'" "blocking h' = blocking h" "owed h' = (owed h)(k := b)"
    "bph_usingGem5Cache h' = bph_usingGem5Cache h"
  using helper_ok_set_debt [OF assms(1,2), of b] assms(3) by auto

lemma port_okD:
  assumes "port_ok n H w"
  shows "table_ok n H (gp w) (blocking (helper w)) (owed (helper w))"
    "pool_owns H (blocking (helper w)) (w_pool w)"
  using assms by (simp_all add: port_ok_def)

lemma port_ok_set_helper:
  assumes "port_ok n H w" and "helper_ok n h" and "bph_usingGem5Cache h = bph_usingGem5Cache (helper w)"
    and "table_ok n H' (gp w) (blocking h) (owed h)" and "pool_owns H' (blocking h) (w_pool w)"
  shows "port_ok n H' (set_helper h w)"
  using assms by (auto simp: port_ok_def no_cache_mode_def frame_simps)

lemma port_ok_end_request:
  assumes ok: "port_ok n H w" and b: "blocking (helper w) Request k = Some t"
    and h: "helper_ok n h" "bph_usingGem5Cache h = bph_usingGem5Cache (helper w)"
      "blocking h = (blocking (helper w))(Request := (blocking (helper w) Request)(k := None))"
      "owed h = (owed (helper w))(k := False)"
  shows "port_ok n (H(t \<mapsto> k)) (set_helper h w)"
proof (rule port_ok_set_helper [OF ok h(1,2)])
  show "table_ok n (H(t \<mapsto> k)) (gp w) (blocking h) (owed h)"
    unfolding h(3,4) by (rule table_unblock [OF port_okD(1) [OF ok] b]) (auto split: if_splits)
  show "pool_owns (H(t \<mapsto> k)) (blocking h) (w_pool w)"
    unfolding h(3) by (rule pool_unblock [OF port_okD(2) [OF ok] b])
qed

lemma port_ok_end_response:
  assumes ok: "port_ok n H w" and b: "blocking (helper w) Response k = Some t"
    and put: "updateBlockingMap k None Response (helper w) = Inr h"
  shows "port_ok n (H(t \<mapsto> k)) (set_helper h w)"
proof (rule port_ok_set_helper [OF ok])
  note h = put_effect [OF port_ok_not_cache(6) [OF ok] less_imp_le [OF port_ok_blocking(1) [OF ok b]] put]
  show "helper_ok n h" "bph_usingGem5Cache h = bph_usingGem5Cache (helper w)"
    using h by simp_all
  show "table_ok n (H(t \<mapsto> k)) (gp w) (blocking h) (owed h)"
    unfolding h(2,3) by (rule table_unblock [OF port_okD(1) [OF ok] b]) auto
  show "pool_owns (H(t \<mapsto> k)) (blocking h) (w_pool w)"
    unfolding h(2) by (rule pool_unblock [OF port_okD(2) [OF ok] b])
qed

lemma port_ok_block:
  assumes ok: "port_ok n H w" and own: "H t = Some k" and k: "k < n"
    and put: "updateBlockingMap k (Some t) ty (helper w) = Inr h"
  shows "port_ok n (H(t := None)) (set_helper h w)"
proof (rule port_ok_set_helper [OF ok])
  note h = put_effect [OF port_ok_not_cache(6) [OF ok] less_imp_le [OF k] put]
  show "helper_ok n h" "bph_usingGem5Cache h = bph_usingGem5Cache (helper w)"
    using h by simp_all
  show "table_ok n (H(t := None)) (gp w) (blocking h) (owed h)"
    unfolding h(2,3) by (rule table_block [OF port_okD(1) [OF ok] own k])
  show "pool_owns (H(t := None)) (blocking h) (w_pool w)"
    unfolding h(2) by (rule pool_block [OF port_okD(2) [OF ok] own])
qed

lemma port_ok_refuse:
  assumes ok: "port_ok n H w" and k: "k < n" and b: "blocking (helper w) Request k \<noteq> None"
    and upd: "updateRetryMap k True (helper w) = Inr h"
  shows "port_ok n H (set_helper h w)"
proof (rule port_ok_set_helper [OF ok])
  note h = debt_effect [OF port_ok_not_cache(6) [OF ok] k upd]
  show "helper_ok n h" "bph_usingGem5Cache h = bph_usingGem5Cache (helper w)"
    using h by simp_all
  show "table_ok n H (gp w) (blocking h) (owed h)"
    unfolding h(2,3) by (rule table_debt [OF port_okD(1) [OF ok] b])
  show "pool_owns H (blocking h) (w_pool w)"
    using ok unfolding port_ok_def h(2) by blast
qed

section \<open>Taking a transaction from the pool\<close>

lemma pool_ok_set_cell:
  assumes "pool_ok live s" and "t \<in> live" and "gp_has_mm p"
  shows "pool_ok live (fst s, (snd s)\<lparr>cells := (cells (snd s))(t := p)\<rparr>)"
  using assms by (cases s) (auto simp: pool_ok_def)

lemma allocate_cells:
  assumes "allocate L s = (t, s')" and "u \<noteq> t"
  shows "cells (snd s') u = cells (snd s) u"
  using assms by (cases s) (auto simp: allocate_def split: if_splits)

lemma packet2payload_frame:
  assumes "packet2payload G pkt p = Inr q"
  shows "gp_has_mm q" "gp_extension q = gp_extension p"
  using assms by (auto simp: packet2payload_def Let_def split: if_splits)

lemma prepare_transactionE:
  assumes "prepare_transaction E packet sid w = Inr (t, w')"
  obtains pool q where "allocate (se_tlm E) (w_pool w) = (t, pool)"
    "packet2payload (se_gem5 E) (w_pkt w packet) (cells (snd pool) t) = Inr q"
    "w' = set_gp t (q\<lparr>gp_extension := Some (setCoreID sid (Gem5Extension packet))\<rparr>)
        (acquire t (w\<lparr>w_pool := pool\<rparr>))"
  using assms by (auto simp: prepare_transaction_def Let_def acquire_def note_call_def gp_def
      res_simps split: prod.splits)

lemma prepare_transaction_pool:
  assumes lib: "tlm_lib_ok (se_tlm E)" and live: "pool_ok live (w_pool w)"
    and prep: "prepare_transaction E packet sid w = Inr (t, w')"
  shows "t \<notin> live" "pool_ok (insert t live) (w_pool w')" "w_events w' = w_events w"
proof -
  obtain pool q where a: "allocate (se_tlm E) (w_pool w) = (t, pool)"
    and q: "packet2payload (se_gem5 E) (w_pkt w packet) (cells (snd pool) t) = Inr q"
    and w': "w' = set_gp t (q\<lparr>gp_extension := Some (setCoreID sid (Gem5Extension packet))\<rparr>)
        (acquire t (w\<lparr>w_pool := pool\<rparr>))"
    by (rule prepare_transactionE [OF prep])
  note fresh = allocate_fresh_and_ok [OF lib live a]
  show "t \<notin> live" using fresh by blast
  show "pool_ok (insert t live) (w_pool w')"
    using pool_ok_set_cell [of "insert t live" pool t "q\<lparr>gp_extension := Some (setCoreID sid (Gem5Extension packet))\<rparr>"]
      fresh packet2payload_frame(1) [OF q]
    by (simp add: w' set_gp_def acquire_def note_call_def)
  show "w_events w' = w_events w" by (simp add: w' frame_simps acquire_def)
qed

lemma prepare_transaction_ok:
  assumes lib: "tlm_lib_ok (se_tlm E)" and ok: "port_ok n H w"
    and prep: "prepare_transaction E packet sid w = Inr (t, w')"
  shows "H t = None" "w_port w' = w_port w" "port_ok n (H(t \<mapsto> sid)) w'"
proof -
  obtain live where live: "pool_ok live (w_pool w)" "dom H \<subseteq> live"
      "\<And>ty k u. blocking (helper w) ty k = Some u \<Longrightarrow> u \<in> live"
    using port_okD(2) [OF ok] unfolding pool_owns_def by blast
  obtain pool q where a: "allocate (se_tlm E) (w_pool w) = (t, pool)"
    and w': "w' = set_gp t (q\<lparr>gp_extension := Some (setCoreID sid (Gem5Extension packet))\<rparr>)
        (acquire t (w\<lparr>w_pool := pool\<rparr>))"
    by (rule prepare_transactionE [OF prep])
  let ?q = "q\<lparr>gp_extension := Some (setCoreID sid (Gem5Extension packet))\<rparr>"
  note fresh = prepare_transaction_pool [OF lib live(1) prep]
  show Ht: "H t = None" using fresh live(2) by (auto simp: domIff)
  show port: "w_port w' = w_port w" by (simp add: w' frame_simps acquire_def)
  have g: "gp w' = (cells (snd pool))(t := ?q)"
    unfolding w' frame_simps acquire_def by (simp add: gp_def)
  have new: "core_opt (gp w' t) = Some sid"
    by (simp add: g core_opt_def ext_defs)
  have old: "gp w' u = gp w u" if "u \<noteq> t" for u
    using allocate_cells [OF a that] that unfolding g by (simp add: gp_def)
  have absent: "blocking (helper w) ty k \<noteq> Some t" for ty k
    using live(3) fresh by blast
  have "table_ok n (H(t \<mapsto> sid)) (gp w') (blocking (helper w)) (owed (helper w))"
    using port_okD(1) [OF ok] new old absent unfolding table_ok_def
    by (auto split: if_splits)
  moreover have "pool_owns (H(t \<mapsto> sid)) (blocking (helper w)) (w_pool w')"
    unfolding pool_owns_def using fresh(2) live(2,3) by (intro exI [of _ "insert t live"]) auto
  ultimately show "port_ok n (H(t \<mapsto> sid)) w'"
    using ok port by (simp add: port_ok_def)
qed

section \<open>What an accepted call has done\<close>

lemma getBlockingTrans_Inr:
  assumes "helper_ok n h" and "getBlockingTrans k ty h = Inr t"
  shows "k < n" "t = blocking h ty k"
proof -
  show k: "k < n"
    using assms by (auto simp: getBlockingTrans_def helper_ok_def split: if_splits)
  show "t = blocking h ty k" using helper_ok_get [OF assms(1) k] assms(2) by simp
qed

lemma recvTimingReqE:
  assumes ok: "port_ok n H w" and r: "recvTimingReq E packet w = Inr (b, w')"
    and sid: "sid = target_socket_id (w_pkt w packet) (w_port w)"
  obtains (refused) h where "\<not> b" "sid < n" "blocking (helper w) Request sid \<noteq> None"
      "updateRetryMap sid True (helper w) = Inr h" "w' = set_helper h w"
  | (sent) t w1 s ans w2 where "sid < n" "blocking (helper w) Request sid = None"
      "prepare_transaction E packet sid w = Inr (t, w1)" "select_socket sid (w_port w1) = Inr s"
      "call_nb_transport_fw E s t BEGIN_REQ (fst (take_delay packet w1)) (snd (take_delay packet w1))
         = (ans, w2)"
      "after_begin_req E t sid ans w2 = Inr (b, w')"
proof -
  note nc = port_ok_not_cache [OF ok]
  obtain x where x: "getBlockingTrans sid Request (helper w) = Inr x"
    and k: "(if x \<noteq> None
      then bindr (updateRetryMap sid True (helper w)) (\<lambda>h. Inr (False, set_helper h w))
      else bindr (prepare_transaction E packet sid w) (\<lambda>(t, w).
        case take_delay packet w of (delay, w) \<Rightarrow>
          bindr (select_socket sid (w_port w)) (\<lambda>s.
            case call_nb_transport_fw E s t BEGIN_REQ delay w of (answer, w) \<Rightarrow>
              after_begin_req E t sid answer w))) = Inr (b, w')"
    using r nc sid
    by (auto simp: recvTimingReq_def Let_def isBlockedPort_def bindr_eq_Inr split: if_splits)
  note x' = getBlockingTrans_Inr [OF nc(6) x]
  show thesis
  proof (cases "x = None")
    case False
    with k x' refused show ?thesis by (auto simp: bindr_eq_Inr)
  next
    case True
    then obtain t w1 s where p: "prepare_transaction E packet sid w = Inr (t, w1)"
        "select_socket sid (w_port w1) = Inr s"
      and c: "after_begin_req E t sid
          (fst (call_nb_transport_fw E s t BEGIN_REQ (fst (take_delay packet w1)) (snd (take_delay packet w1))))
          (snd (call_nb_transport_fw E s t BEGIN_REQ (fst (take_delay packet w1)) (snd (take_delay packet w1))))
        = Inr (b, w')"
      using k by (auto simp: bindr_eq_Inr case_prod_beta frame_simps)
    show ?thesis by (rule sent [OF _ _ p _ c]) (use x' True in auto)
  qed
qed

section \<open>Relying on gem5 and TLM\<close>

lemma map_le_fresh: "H t = None \<Longrightarrow> H \<subseteq>\<^sub>m H(t \<mapsto> k)"
  by (auto simp: map_le_def)

text \<open>Ownership by operations can be forgotten.\<close>

lemma port_ok_antimono:
  assumes ok: "port_ok n H' w" and le: "H \<subseteq>\<^sub>m H'"
  shows "port_ok n H w"
proof -
  have sub: "H' t = Some k" if "H t = Some k" for t k
    using le that by (metis domI map_le_def)
  have "H t = None" if "H' t = None" for t using sub that by (cases "H t") auto
  then have "table_ok n H (gp w) (blocking (helper w)) (owed (helper w))"
    using port_okD(1) [OF ok] sub unfolding table_ok_def by blast
  moreover have "dom H \<subseteq> dom H'" using sub by blast
  then have "pool_owns H (blocking (helper w)) (w_pool w)"
    using port_okD(2) [OF ok] unfolding pool_owns_def by (meson order.trans)
  ultimately show ?thesis using ok by (simp add: port_ok_def)
qed

locale slave_rely =
  fixes E :: slave_env and n :: u32
  assumes lib: "tlm_lib_ok (se_tlm E)"
    and fw_keeps: "port_ok n H w \<Longrightarrow> port_ok n H (snd (se_nb_transport_fw E s t ph d w))"
    and b_keeps: "port_ok n H w \<Longrightarrow> ensures (se_b_transport E s t d w) (\<lambda>(d', w'). port_ok n H w')"
    and dbg_keeps: "port_ok n H w \<Longrightarrow> ensures (se_transport_dbg E s t w) (\<lambda>(bytes, w'). port_ok n H w')"
    and resp_keeps: "port_ok n H w \<Longrightarrow> ensures (se_sendTimingResp E pkt w) (\<lambda>(sent, w'). port_ok n H w')"
    and retry_keeps: "port_ok n H w \<Longrightarrow> ensures (se_sendRetryReq E w) (port_ok n H)"
    and release_gives_up:
      "port_ok n H w \<Longrightarrow> H t = Some k \<Longrightarrow> port_ok n (H(t := None)) (se_release E t w)"
begin

lemma release_ok: "port_ok n H w \<Longrightarrow> H t = Some k \<Longrightarrow> port_ok n (H(t := None)) (release E t w)"
  by (simp add: release_def release_gives_up)

lemma call_nb_transport_fw_ok:
  "port_ok n H w \<Longrightarrow> call_nb_transport_fw E s t ph d w = (ans, w') \<Longrightarrow> port_ok n H w'"
  using fw_keeps [of H "note_call (Nb_transport_fw s t ph d) w" s t ph d]
  by (simp add: call_nb_transport_fw_def)

lemma call_b_transport_ok:
  "port_ok n H w \<Longrightarrow> call_b_transport E s t d w = Inr (d', w') \<Longrightarrow> port_ok n H w'"
  using b_keeps [of H "note_call (B_transport s t d) w" s t d] by (auto simp: call_b_transport_def dest: ensuresD)

lemma call_transport_dbg_ok:
  "port_ok n H w \<Longrightarrow> call_transport_dbg E s t w = Inr (bytes, w') \<Longrightarrow> port_ok n H w'"
  using dbg_keeps [of H "note_call (Transport_dbg s t) w" s t] by (auto simp: call_transport_dbg_def dest: ensuresD)

lemma sendTimingResp_ok: "port_ok n H w \<Longrightarrow> sendTimingResp E pkt w = Inr (b, w') \<Longrightarrow> port_ok n H w'"
  using resp_keeps [of H "note_call (Send_timing_resp pkt) w" pkt] by (auto simp: sendTimingResp_def dest: ensuresD)

lemma sendRetryReq_ok: "port_ok n H w \<Longrightarrow> sendRetryReq E w = Inr w' \<Longrightarrow> port_ok n H w'"
  using retry_keeps [of H "note_call Send_retry_req w"] by (auto simp: sendRetryReq_def dest: ensuresD)

section \<open>Every operation keeps ownership\<close>

lemma after_begin_req_keeps:
  assumes ok: "port_ok n H w" and own: "H t = Some sid" and sid: "sid < n"
    and r: "after_begin_req E t sid ans w = Inr (b, w')"
  shows "port_ok n H w' \<or> port_ok n (H(t := None)) w'"
proof -
  obtain status ph d where ans: "ans = (status, ph, d)" by (cases ans)
  show ?thesis
  proof (cases status)
    case TLM_ACCEPTED
    with r ans port_ok_not_cache(1) [OF ok] obtain h where
      "updateBlockingMap sid (Some t) Request (helper w) = Inr h" "w' = set_helper h w"
      by (auto simp: after_begin_req_def bindr_eq_Inr split: if_splits)
    then show ?thesis using port_ok_block [OF ok own sid] by simp
  next
    case TLM_UPDATED
    with r ans have "w' = PayloadEvent_notify t ph d w"
      by (auto simp: after_begin_req_def split: if_splits)
    then show ?thesis using ok by simp
  next
    case TLM_COMPLETED
    with r ans have "w' = release E t w" by (auto simp: after_begin_req_def split: if_splits)
    then show ?thesis using release_ok [OF ok own] by simp
  qed
qed

lemma recvTimingReq_keeps:
  assumes ok: "port_ok n H w" and r: "recvTimingReq E packet w = Inr (b, w')"
  shows "\<exists>H'. port_ok n H' w' \<and> H \<subseteq>\<^sub>m H'"
  using ok r refl
proof (cases rule: recvTimingReqE)
  case (refused h)
  then have "port_ok n H w'" using port_ok_refuse [OF ok refused(2-4)] by simp
  then show ?thesis using map_le_refl by blast
next
  case (sent t w1 s ans w2)
  note p = prepare_transaction_ok [OF lib ok sent(3)]
  have "port_ok n (H(t \<mapsto> target_socket_id (w_pkt w packet) (w_port w))) w2"
    using p(3) by (intro call_nb_transport_fw_ok [OF _ sent(5)]) simp
  from after_begin_req_keeps [OF this _ sent(1) sent(6)] p(1)
  show ?thesis by (auto simp: fun_upd_idem intro: map_le_fresh)
qed

lemma pec_end_req_keeps:
  assumes ok: "port_ok n H w" and r: "pec_end_req E t w = Inr w'"
  shows "\<exists>k. core_opt (gp w t) = Some k \<and> blocking (helper w) Request k = Some t \<and> H t = None
    \<and> port_ok n (H(t \<mapsto> k)) w'"
proof -
  note nc = port_ok_not_cache [OF ok]
  obtain k h b where bt: "isBlockingTrans (Some t) Request (helper w)"
    and k: "core_of t w = Inr k" and h: "updateBlockingMap k None Request (helper w) = Inr h"
    and b: "bph_needToSendRequestRetry k h = Inr b"
    and w': "(if b then bindr (updateRetryMap k False h) (\<lambda>h. sendRetryReq E (set_helper h w))
              else Inr (set_helper h w)) = Inr w'"
    using r nc by (auto simp: pec_end_req_def bindr_eq_Inr split: if_splits)
  obtain j where j: "blocking (helper w) Request j = Some t"
    using bt isBlockingTrans_Some [OF nc(6)] by blast
  have "j = k" using port_ok_blocking(2) [OF ok j] k by (simp add: core_of_Inr)
  with j have bk: "blocking (helper w) Request k = Some t" by simp
  note own = port_ok_blocking [OF ok bk]
  note he = put_effect [OF nc(6) less_imp_le [OF own(1)] h]
  have b': "b = owed (helper w) k" using helper_ok_debt [OF he(1) own(1)] b he(3) by simp
  have "port_ok n (H(t \<mapsto> k)) w'"
  proof (cases b)
    case True
    then obtain h' where h': "updateRetryMap k False h = Inr h'" "sendRetryReq E (set_helper h' w) = Inr w'"
      using w' by (auto simp: bindr_eq_Inr)
    note de = debt_effect [OF he(1) own(1) h'(1)]
    have "port_ok n (H(t \<mapsto> k)) (set_helper h' w)"
      using de he by (intro port_ok_end_request [OF ok bk]) simp_all
    then show ?thesis using h'(2) by (rule sendRetryReq_ok)
  next
    case False
    then have "owed h = (owed (helper w))(k := False)" using b' he(3) by (simp add: fun_upd_idem)
    then have "port_ok n (H(t \<mapsto> k)) (set_helper h w)"
      using he by (intro port_ok_end_request [OF ok bk]) simp_all
    then show ?thesis using w' False by simp
  qed
  then show ?thesis using bk own by blast
qed

lemma offer_response_ok:
  assumes "port_ok n H w" and "offer_response E packet w = Inr (b, w')"
  shows "port_ok n H w'"
proof -
  have ok: "port_ok n H (respond_if_needed E packet w)" using assms(1) by simp
  show ?thesis
    using assms ok by (auto simp: offer_response_def Let_def bindr_eq_Inr split: if_splits dest: sendTimingResp_ok [OF ok])
qed

lemma finish_transaction_ok:
  assumes "port_ok n H w" and own: "H t = Some k" and r: "finish_transaction E t c w = Inr w'"
  shows "port_ok n (H(t := None)) w'"
proof -
  obtain s where w': "w' = release E t (snd (call_nb_transport_fw E s t END_RESP 0 w))"
    using r by (auto simp: finish_transaction_def bindr_eq_Inr case_prod_beta)
  have "port_ok n H (snd (call_nb_transport_fw E s t END_RESP 0 w))"
    using call_nb_transport_fw_ok [OF assms(1)] by (metis prod.collapse)
  then show ?thesis unfolding w' using own by (rule release_ok)
qed

lemma hold_response_ok:
  assumes ok: "port_ok n H w" and own: "H t = Some k" and k: "k < n"
    and r: "hold_response t k w = Inr w'"
  shows "port_ok n (H(t := None)) w'"
proof -
  obtain h where "updateBlockingMap k (Some t) Response (helper w) = Inr h" "w' = set_helper h w"
    using r port_ok_not_cache(1) [OF ok]
    by (auto simp: hold_response_def bindr_eq_Inr split: if_splits)
  then show ?thesis using port_ok_block [OF ok own k] by simp
qed

lemma pec_begin_resp_keeps:
  assumes ok: "port_ok n H w" and own: "H t = Some k" and r: "pec_begin_resp E t w = Inr w'"
  shows "port_ok n (H(t := None)) w'"
proof -
  note nc = port_ok_not_cache [OF ok]
  obtain e c x retry w1 where e: "getExtension (gp w t) = Inr e" "getCoreID e = Inr c"
    and x: "getBlockingTrans c Response (helper w) = Inr x"
    and w1: "offer_response E (getPacket e) w = Inr (retry, w1)"
    and fin: "(if retry then hold_response t c w1 else finish_transaction E t c w1) = Inr w'"
    using r nc(1)
    by (auto simp: pec_begin_resp_def Let_def bindr_eq_Inr split: if_splits prod.splits)
  have c: "c = k" using extension_core [OF e] port_ok_owned [OF ok own] by simp
  have "c < n" using getBlockingTrans_Inr [OF nc(6) x] by simp
  with fin c show ?thesis
    using offer_response_ok [OF ok w1] own
    by (auto split: if_splits intro: hold_response_ok finish_transaction_ok)
qed

lemma resp_retry_round_keeps:
  assumes ok: "port_ok n H w" and resp: "blocking (helper w) Response k = Some t"
    and r: "resp_retry_round E (Some t) w = Inr w'"
  shows "port_ok n H w'"
proof -
  note nc = port_ok_not_cache [OF ok]
  note own = port_ok_blocking [OF ok resp]
  obtain e c h w1 where e: "getExtension (gp w t) = Inr e" "getCoreID e = Inr c"
    and h: "updateBlockingMap c None Response (helper w) = Inr h"
    and w1: "sendTimingResp E (getPacket e) (set_helper h w) = Inr (True, w1)"
    and fin: "finish_transaction E t c w1 = Inr w'"
    using r nc(3)
    by (auto simp: resp_retry_round_def bindr_eq_Inr split: if_splits)
  have "c = k" using extension_core [OF e] own(2) by simp
  with h have "port_ok n (H(t \<mapsto> k)) (set_helper h w)"
    using port_ok_end_response [OF ok resp] by simp
  from finish_transaction_ok [OF sendTimingResp_ok [OF this w1] _ fin] own(3) show ?thesis by (simp add: fun_upd_idem)
qed

lemma resp_retry_loop_keeps:
  assumes "port_ok n H w" and "resp_retry_loop E rounds (getBlockingResponse (helper w)) w = Inr w'"
  shows "port_ok n H w'"
  using assms
proof (induction rounds arbitrary: w)
  case 0
  then show ?case by (auto split: if_splits)
next
  case (Suc m)
  note nc = port_ok_not_cache [OF Suc.prems(1)]
  show ?case
  proof (cases "getBlockingResponse (helper w)")
    case None
    with Suc.prems nc(3) show ?thesis by simp
  next
    case (Some t)
    then obtain k where k: "blocking (helper w) Response k = Some t"
      using getBlockingResponse_Some [OF nc(6)] by blast
    obtain w1 where "resp_retry_round E (Some t) w = Inr w1"
      and "resp_retry_loop E m (getBlockingResponse (helper w1)) w1 = Inr w'"
      using Suc.prems(2) Some by (auto simp del: resp_retry_loop.simps
          simp: resp_retry_loop.simps [of E "Suc m"] bindr_eq_Inr)
    with Suc.IH resp_retry_round_keeps [OF Suc.prems(1) k] show ?thesis by blast
  qed
qed

lemma recvAtomic_keeps:
  assumes ok: "port_ok n H w" and r: "recvAtomic E packet w = Inr (d, w')"
  shows "port_ok n H w'"
proof -
  define sid where "sid = getSocketId (pkt_requestorId (w_pkt w packet)) (w_port w)"
  obtain t w1 w2 where p: "prepare_transaction E packet sid w = Inr (t, w1)"
    and w2: "w2 = w1 \<or> (\<exists>s. call_b_transport E s t 0 w1 = Inr (d, w2))"
    and w': "w' = release E t (respond_if_needed E packet w2)"
    using r unfolding sid_def
    by (auto simp: recvAtomic_def Let_def bindr_eq_Inr split: if_splits)
  note f = prepare_transaction_ok [OF lib ok p]
  have "port_ok n (H(t \<mapsto> sid)) w2"
    using w2 f(3) call_b_transport_ok [OF f(3)] by blast
  then have "port_ok n (H(t \<mapsto> sid)) (respond_if_needed E packet w2)" by simp
  then have "port_ok n ((H(t \<mapsto> sid))(t := None)) w'"
    unfolding w' by (rule release_ok) simp
  then show ?thesis using f(1) by (simp add: fun_upd_idem)
qed

lemma recvFunctional_keeps:
  assumes ok: "port_ok n H w" and r: "recvFunctional E packet w = Inr w'"
  shows "port_ok n H w'"
proof -
  define sid where "sid = getSocketId (pkt_requestorId (w_pkt w packet)) (w_port w)"
  obtain t w1 s bytes w2 where p: "prepare_transaction E packet sid w = Inr (t, w1)"
    and w2: "call_transport_dbg E s t w1 = Inr (bytes, w2)" and w': "w' = release E t w2"
    using r unfolding sid_def
    by (auto simp: recvFunctional_def Let_def bindr_eq_Inr split: if_splits)
  note f = prepare_transaction_ok [OF lib ok p]
  have "port_ok n (H(t \<mapsto> sid)) w2" by (rule call_transport_dbg_ok [OF f(3) w2])
  then have "port_ok n ((H(t \<mapsto> sid))(t := None)) w'"
    unfolding w' by (rule release_ok) simp
  then show ?thesis using f(1) by (simp add: fun_upd_idem)
qed

end

section \<open>Environments\<close>

text \<open>The reliance as a condition on an environment, written out.\<close>

definition env_rely :: "u32 \<Rightarrow> slave_env \<Rightarrow> bool" where
  "env_rely n E \<longleftrightarrow> tlm_lib_ok (se_tlm E)
   \<and> (\<forall>H w. port_ok n H w \<longrightarrow>
        (\<forall>s t ph d. port_ok n H (snd (se_nb_transport_fw E s t ph d w)))
      \<and> (\<forall>s t d. ensures (se_b_transport E s t d w) (\<lambda>(d', w'). port_ok n H w'))
      \<and> (\<forall>s t. ensures (se_transport_dbg E s t w) (\<lambda>(bytes, w'). port_ok n H w'))
      \<and> (\<forall>pkt. ensures (se_sendTimingResp E pkt w) (\<lambda>(sent, w'). port_ok n H w'))
      \<and> ensures (se_sendRetryReq E w) (port_ok n H)
      \<and> (\<forall>t k. H t = Some k \<longrightarrow> port_ok n (H(t := None)) (se_release E t w)))"

lemma env_rely_iff: "env_rely n E \<longleftrightarrow> slave_rely E n"
proof
  show "env_rely n E \<Longrightarrow> slave_rely E n"
    by unfold_locales (auto simp: env_rely_def)
  assume "slave_rely E n"
  then show "env_rely n E" by (auto simp: env_rely_def slave_rely_def)
qed

text \<open>
  The environments whose calls return without re-entering the port, with any answers: a released
  transaction goes back to the pool.
\<close>

record answers =
  a_nb_transport_fw :: "sock \<Rightarrow> ptr \<Rightarrow> tlm_phase \<Rightarrow> tick \<Rightarrow> world \<Rightarrow> tlm_sync_enum \<times> tlm_phase \<times> tick"
  a_b_transport :: "sock \<Rightarrow> ptr \<Rightarrow> tick \<Rightarrow> world \<Rightarrow> tick"
  a_transport_dbg :: "sock \<Rightarrow> ptr \<Rightarrow> world \<Rightarrow> u32"
  a_sendTimingResp :: "ptr \<Rightarrow> world \<Rightarrow> bool"

definition passive_env :: "tlm_lib \<Rightarrow> gem5_lib \<Rightarrow> answers \<Rightarrow> slave_env" where
  "passive_env L G a = \<lparr>se_tlm = L, se_gem5 = G,
     se_nb_transport_fw = (\<lambda>s t ph d w. (a_nb_transport_fw a s t ph d w, w)),
     se_b_transport = (\<lambda>s t d w. Inr (a_b_transport a s t d w, w)),
     se_transport_dbg = (\<lambda>s t w. Inr (a_transport_dbg a s t w, w)),
     se_sendTimingResp = (\<lambda>pkt w. Inr (a_sendTimingResp a pkt w, w)),
     se_sendRetryReq = Inr,
     se_release = (\<lambda>t w. w\<lparr>w_pool := mm_free L t (w_pool w)\<rparr>)\<rparr>"

lemma passive_retry [simp]: "sendRetryReq (passive_env L G a) w = Inr (note_call Send_retry_req w)"
  by (simp add: sendRetryReq_def passive_env_def)

lemma port_ok_free:
  assumes lib: "tlm_lib_ok L" and ok: "port_ok n H w" and own: "H t = Some k"
  shows "port_ok n (H(t := None)) (w\<lparr>w_pool := mm_free L t (w_pool w)\<rparr>)"
proof -
  let ?w = "w\<lparr>w_pool := mm_free L t (w_pool w)\<rparr>"
  obtain live where live: "pool_ok live (w_pool w)" "dom H \<subseteq> live"
      "\<And>ty k u. blocking (helper w) ty k = Some u \<Longrightarrow> u \<in> live"
    using port_okD(2) [OF ok] unfolding pool_owns_def by blast
  have absent: "blocking (helper w) ty j \<noteq> Some t" for ty j
    using port_ok_blocking(3) [OF ok] own by fastforce
  have g: "gp ?w u = gp w u" if "u \<noteq> t" for u
    using that by (cases "w_pool w") (simp add: gp_def mm_free_def)
  have "t \<in> live" using live(2) own by blast
  then have "pool_ok (live - {t}) (w_pool ?w)" using mm_free_ok [OF lib live(1)] by simp
  then have "pool_owns (H(t := None)) (blocking (helper w)) (w_pool ?w)"
    unfolding pool_owns_def using live absent by (intro exI [of _ "live - {t}"]) auto
  moreover have "table_ok n (H(t := None)) (gp ?w) (blocking (helper w)) (owed (helper w))"
    by (rule table_forget [OF port_okD(1) [OF ok] absent g])
  ultimately show ?thesis using ok by (simp add: port_ok_def)
qed

locale tlm_library =
  fixes L :: tlm_lib
  assumes documented: "tlm_lib_ok L"
begin

lemma returning_calls_rely: "slave_rely (passive_env L G a) n"
  by unfold_locales (auto simp: passive_env_def documented port_ok_free [OF documented])

end

sublocale tlm_library \<subseteq> calm: slave_rely "passive_env L G a" n for G a n
  by (rule returning_calls_rely)

interpretation demo_library: tlm_library demo_tlm
  by unfold_locales (rule demo_tlm_ok)

lemma passive_env_rely:
  assumes "tlm_lib_ok L"
  shows "env_rely n (passive_env L G a)"
  unfolding env_rely_iff using tlm_library.returning_calls_rely [OF tlm_library.intro [OF assms]] .

lemma env_rely_retry:
  assumes "env_rely n E" and "\<And>H w. port_ok n H w \<Longrightarrow> ensures (f w) (port_ok n H)"
  shows "env_rely n (E\<lparr>se_sendRetryReq := f\<rparr>)"
  using assms by (auto simp: env_rely_def)

text \<open>
  gem5 answers a retry by sending the refused packet again, inside the call: the environment that
  re-enters \<open>recvTimingReq\<close> from \<open>sendRetryReq\<close>. When the nested call ends the simulation, so does the
  retry.
\<close>

definition resending_env :: "slave_env \<Rightarrow> (world \<Rightarrow> ptr) \<Rightarrow> slave_env" where
  "resending_env E resend = E\<lparr>se_sendRetryReq :=
     (\<lambda>w. bindr (recvTimingReq E (resend w) w) (\<lambda>(accepted, w'). Inr w'))\<rparr>"

lemma resending_env_rely:
  assumes "env_rely n E"
  shows "env_rely n (resending_env E resend)"
proof -
  have "ensures (bindr (recvTimingReq E (resend w) w) (\<lambda>(accepted, w'). Inr w')) (port_ok n H)"
    if ok: "port_ok n H w" for H w
  proof (rule ensuresI)
    fix w'
    assume "bindr (recvTimingReq E (resend w) w) (\<lambda>(accepted, w'). Inr w') = Inr w'"
    then obtain b where "recvTimingReq E (resend w) w = Inr (b, w')" by (auto simp: bindr_eq_Inr)
    then obtain H' where "port_ok n H' w'" "H \<subseteq>\<^sub>m H'"
      using slave_rely.recvTimingReq_keeps [OF assms [unfolded env_rely_iff] ok] by blast
    then show "port_ok n H w'" by (rule port_ok_antimono)
  qed
  then show ?thesis unfolding resending_env_def by (rule env_rely_retry [OF assms])
qed

text \<open>gem5 sends a packet from inside \<open>sendTimingResp\<close>, before it answers.\<close>

definition asking_env :: "slave_env \<Rightarrow> ptr \<Rightarrow> slave_env" where
  "asking_env E packet = E\<lparr>se_sendTimingResp := (\<lambda>i w. bindr (se_sendTimingResp E i w) (\<lambda>(sent, w).
     bindr (recvTimingReq E packet w) (\<lambda>(_, w'). Inr (sent, w'))))\<rparr>"

lemma asking_env_rely:
  assumes "env_rely n E"
  shows "env_rely n (asking_env E packet)"
proof -
  have "ensures (se_sendTimingResp (asking_env E packet) i w) (\<lambda>(sent, w'). port_ok n H w')" if ok: "port_ok n H w" for H w i
  proof (rule ensuresI)
    fix r
    assume "se_sendTimingResp (asking_env E packet) i w = Inr r"
    then obtain sent w1 accepted w2 where w1: "se_sendTimingResp E i w = Inr (sent, w1)"
        and w2: "recvTimingReq E packet w1 = Inr (accepted, w2)" "r = (sent, w2)"
      by (auto simp: asking_env_def res_simps)
    have "ensures (se_sendTimingResp E i w) (\<lambda>(sent, w'). port_ok n H w')" using assms ok by (simp add: env_rely_def)
    then have "port_ok n H w1" using w1 by (auto dest: ensuresD)
    then obtain H' where "port_ok n H' w2" "H \<subseteq>\<^sub>m H'"
      using slave_rely.recvTimingReq_keeps [OF assms [unfolded env_rely_iff] _ w2(1)] by blast
    then show "case r of (sent, w') \<Rightarrow> port_ok n H w'" using w2(2) port_ok_antimono by auto
  qed
  then show ?thesis using assms by (simp add: env_rely_def asking_env_def)
qed

end
