(* ===== verification/Slave_Binding.thy ===== *)
theory Slave_Binding
  imports Slave_Invariant
begin

text \<open>
  Binding a slave port to a multi-socket transactor: the socket map that \<open>initSocketMap\<close> builds, the
  state in which the port starts to serve requests, and where requests are routed.
\<close>

section \<open>The default socket map\<close>

lemma smap_insert_last:
  assumes "\<forall>k' \<in> set (smap_keys sm). k' < k"
  shows "smap_insert k v sm = sm @ [(k, v)]"
proof -
  have "smap_find k sm = None" using assms by (auto simp: smap_find_None_iff)
  moreover have "smap_assign k v sm = sm @ [(k, v)]"
    using assms by (induction k v sm rule: smap_assign.induct) auto
  ultimately show ?thesis by (simp add: smap_insert_def)
qed

text \<open>One entry per core, numbered from \<open>0\<close> in the order of the core names.\<close>

definition numbered :: "nat \<Rightarrow> (string, nat list) smap \<Rightarrow> (u32, nat list) smap" where
  "numbered c m = zip (map of_nat [c..<c + length m]) (map snd m)"

lemma numbered_Cons: "numbered c ((core, ids) # m) = (of_nat c, ids) # numbered (Suc c) m"
  by (simp add: numbered_def upt_rec del: upt_Suc)

lemma socket_map_default_numbered:
  assumes "\<forall>k \<in> set (smap_keys sm). unat k < c" and "c + length m \<le> 2 ^ 32"
  shows "socket_map_default (of_nat c) m sm = sm @ numbered c m"
  using assms
proof (induction m arbitrary: c sm)
  case (Cons e m)
  obtain core ids where e: "e = (core, ids)" by (cases e)
  have c: "unat (of_nat c :: u32) = c" using Cons.prems(2) by (intro word_less_of_nat_u32) simp
  have "smap_insert (of_nat c) ids sm = sm @ [(of_nat c, ids)]"
    using Cons.prems(1) c by (intro smap_insert_last) (auto simp: word_less_nat_alt)
  then have "socket_map_default (of_nat c) (e # m) sm
      = socket_map_default (of_nat (Suc c)) m (sm @ [(of_nat c, ids)])"
    by (simp add: e add.commute)
  also have "\<dots> = (sm @ [(of_nat c, ids)]) @ numbered (Suc c) m"
    using Cons.prems c by (intro Cons.IH) (auto simp: smap_keys_def less_Suc_eq)
  finally show ?case by (simp add: e numbered_Cons)
qed (simp add: numbered_def)

text \<open>The position of the first core, in name order, that owns a requestor id.\<close>

definition core_index :: "nat \<Rightarrow> (string, nat list) smap \<Rightarrow> nat option" where
  "core_index r m = (let i = length (takeWhile (\<lambda>(core, ids). r \<notin> set ids) m)
                     in if i < length m then Some i else None)"

lemma core_index_Cons:
  "core_index r ((core, ids) # m) =
     (if r \<in> set ids then Some 0 else map_option Suc (core_index r m))"
  by (simp add: core_index_def Let_def)

lemma find_numbered:
  "find (\<lambda>(k, ids). r \<in> set ids) (numbered c m) =
     map_option (\<lambda>i. (of_nat (c + i), snd (m ! i))) (core_index r m)"
proof (induction m arbitrary: c)
  case (Cons e m)
  obtain core ids where "e = (core, ids)" by (cases e)
  then show ?case
    by (cases "core_index r m") (simp_all add: numbered_Cons core_index_Cons Cons.IH)
qed (simp add: numbered_def core_index_def)

lemma core_index_known:
  assumes "m \<noteq> []" and "length m < 2 ^ 32"
  shows "(case core_index r m of Some i \<Rightarrow> of_nat i | None \<Rightarrow> 0) < (of_nat (length m) :: u32)"
proof -
  have n: "unat (of_nat (length m) :: u32) = length m" using assms(2) by (rule word_less_of_nat_u32)
  show ?thesis
  proof (cases "core_index r m")
    case None
    then show ?thesis using n assms(1) by (simp add: word_less_nat_alt)
  next
    case (Some i)
    then have "i < length m" by (auto simp: core_index_def Let_def split: if_splits)
    moreover from this have "unat (of_nat i :: u32) = i" using assms(2) by (intro word_less_of_nat_u32) simp
    ultimately show ?thesis using Some n by (simp add: word_less_nat_alt)
  qed
qed

lemma length_numbered [simp]: "length (numbered c m) = length m"
  by (simp add: numbered_def)

section \<open>The state after binding\<close>

text \<open>A port as the constructor leaves it, with the cores that the control has told it of.\<close>

definition fresh_port :: "(string, nat list) smap \<Rightarrow> slave_port" where
  "fresh_port m = updateCorePortMap m SCSlavePort"

lemma fold_note_call:
  "w_port (fold (\<lambda>i. note_call (f i)) is w) = w_port w"
  "w_pool (fold (\<lambda>i. note_call (f i)) is w) = w_pool w"
  "w_log (fold (\<lambda>i. note_call (f i)) is w) = w_log w @ map f is"
  "w_pkt (fold (\<lambda>i. note_call (f i)) is w) = w_pkt w"
  "w_curTick (fold (\<lambda>i. note_call (f i)) is w) = w_curTick w"
  "w_now (fold (\<lambda>i. note_call (f i)) is w) = w_now w"
  "w_events (fold (\<lambda>i. note_call (f i)) is w) = w_events w"
  by (induction "is" arbitrary: w) (simp_all add: frame_simps)

lemma port_ok_start:
  assumes "no_cache_mode (w_port w)" and "helper_ok n (helper w)"
    and "\<And>ty k. blocking (helper w) ty k = None" and "\<And>k. \<not> owed (helper w) k"
    and "pool_ok {} (w_pool w)"
  shows "port_ok n Map.empty w"
  using assms by (auto simp: port_ok_def table_ok_def pool_owns_def)

lemma init_fresh_helper:
  assumes "num \<noteq> - 1"
  obtains h where "bph_init num (bph_setUsingGem5Cache c BlockingPacketHelper) = Inr h"
    and "helper_ok num h" and "\<And>ty k. blocking h ty k = None" and "\<And>k. \<not> owed h k"
    and "bph_usingGem5Cache h = c"
proof -
  obtain h where h: "bph_init num (bph_setUsingGem5Cache c BlockingPacketHelper) = Inr h"
      "helper_ok num h" "\<forall>ty k. blocking h ty k = None" "\<forall>k. \<not> owed h k"
    using bph_init_fresh [OF assms] by blast
  moreover have "bph_usingGem5Cache h = c"
    using h(1) assms by (auto simp: bph_init_def fold_init_entry_frame bph_setUsingGem5Cache_def simp del: upt_Suc)
  ultimately show thesis using that by blast
qed

text \<open>Building the socket map changes that map and, through \<open>operator[]\<close>, the map of the cores only.\<close>

definition only_maps :: "slave_port \<Rightarrow> slave_port \<Rightarrow> bool" where
  "only_maps p q \<longleftrightarrow> q = p\<lparr>cpu_port_map := cpu_port_map q, socket_map := socket_map q\<rparr>"

lemma only_maps_refl [simp]: "only_maps p p"
  by (simp add: only_maps_def)

lemma only_maps_trans: "only_maps p q \<Longrightarrow> only_maps q r \<Longrightarrow> only_maps p r"
  by (cases p; cases q; cases r) (simp add: only_maps_def)

lemma only_maps_add_core: "only_maps p (socket_map_add_core socket_id core_id p)"
  by (simp add: only_maps_def socket_map_add_core_def Let_def case_prod_beta)

lemma only_maps_fold: "only_maps p (fold (socket_map_add_core socket_id) cores p)"
  by (induction cores arbitrary: p) (auto intro: only_maps_trans only_maps_add_core)

lemma only_maps_configured: "only_maps p (socket_map_configured cm p)"
  by (induction cm p rule: socket_map_configured.induct) (auto intro: only_maps_trans only_maps_fold)

lemma only_maps_initSocketMap: "initSocketMap p = Inr q \<Longrightarrow> only_maps p q"
  by (auto simp: initSocketMap_def Let_def only_maps_configured split: ptr_field.splits if_splits)
    (simp add: only_maps_def)

lemma bind_fresh:
  assumes w: "w_port w = fresh_port m" and pool: "pool_ok {} (w_pool w)"
    and init: "initSocketMap ((fresh_port m)\<lparr>transactor_multi := Obj tm\<rparr>) = Inr p"
    and n: "n = of_nat (length (socket_map p))" "n \<noteq> - 1"
  obtains w' where "bindToTransactor_multi tm w = Inr w'" and "port_ok n Map.empty w'"
    and "w_port w' = p\<lparr>blk_pkt_helper := helper w'\<rparr>"
    and "w_log w' = w_log w @ map (\<lambda>i. Register_nb_transport_bw (Socket_of (of_nat i)))
         [0..<unat (getSocketNum tm)]"
    and "w_pkt w' = w_pkt w" "w_curTick w' = w_curTick w" "w_now w' = w_now w" "w_events w' = w_events w"
    and "\<forall>ty k. blocking (helper w') ty k = None"
proof -
  let ?p0 = "(fresh_port m)\<lparr>transactor_multi := Obj tm\<rparr>"
  define w1 where "w1 = fold (\<lambda>i. note_call (Register_nb_transport_bw (Socket_of (of_nat i))))
      [0..<unat (getSocketNum tm)] (upd_port (\<lambda>p. p\<lparr>transactor_multi := Obj tm\<rparr>) w)"
  define w2 where "w2 = upd_port (\<lambda>p. p\<lparr>usingGem5Cache := isUsingGem5Cache tm,
      blk_pkt_helper := bph_setUsingGem5Cache (isUsingGem5Cache tm) (blk_pkt_helper p)\<rparr>) w1"
  have h0: "bph_setUsingGem5Cache False BlockingPacketHelper = BlockingPacketHelper"
    by (simp add: bph_setUsingGem5Cache_def BlockingPacketHelper_def)
  have w2: "w_port w2 = ?p0"
    by (simp add: w2_def w1_def frame_simps fold_note_call isUsingGem5Cache_def w fresh_port_def
        updateCorePortMap_def SCSlavePort_def h0)
  have q: "p = ?p0\<lparr>cpu_port_map := cpu_port_map p, socket_map := socket_map p\<rparr>"
    using only_maps_initSocketMap [OF init] unfolding only_maps_def .
  have "blk_pkt_helper p = BlockingPacketHelper"
    by (subst q) (simp add: fresh_port_def updateCorePortMap_def SCSlavePort_def)
  then obtain h where h: "bph_init n (blk_pkt_helper p) = Inr h"
      "helper_ok n h" "\<And>ty k. blocking h ty k = None" "\<And>k. \<not> owed h k" "\<not> bph_usingGem5Cache h"
    using init_fresh_helper [OF n(2), of False] h0 by metis
  have bind: "bindToTransactor_multi tm w = Inr (w2\<lparr>w_port := p\<lparr>blk_pkt_helper := h\<rparr>\<rparr>)"
    using w init h(1) w2 n(1)
    by (simp add: bindToTransactor_multi_def w1_def [symmetric] w2_def [symmetric] Let_def
        fresh_port_def updateCorePortMap_def SCSlavePort_def)
  have "no_cache_mode (p\<lparr>blk_pkt_helper := h\<rparr>)"
    by (subst q) (use h(5) in \<open>simp add: no_cache_mode_def fresh_port_def updateCorePortMap_def SCSlavePort_def\<close>)
  moreover have "w_pool w2 = w_pool w" by (simp add: w2_def w1_def frame_simps fold_note_call)
  ultimately have "port_ok n Map.empty (w2\<lparr>w_port := p\<lparr>blk_pkt_helper := h\<rparr>\<rparr>)"
    using h pool by (intro port_ok_start) simp_all
  then show thesis
    by (rule that [OF bind]) (use h(3) in \<open>simp_all add: w2_def w1_def frame_simps fold_note_call\<close>)
qed

lemma init_default:
  assumes "socket_core_map tm = []" and "length m < 2 ^ 32"
  shows "initSocketMap ((fresh_port m)\<lparr>transactor_multi := Obj tm\<rparr>) =
    Inr ((fresh_port m)\<lparr>transactor_multi := Obj tm, socket_map := numbered 0 m\<rparr>)"
proof -
  have "socket_map_default 0 m [] = numbered 0 m"
    using socket_map_default_numbered [of "[]" 0 m] assms(2) by simp
  then show ?thesis
    using assms(1) by (simp add: initSocketMap_def getSocketCoreMap_def fresh_port_def updateCorePortMap_def SCSlavePort_def)
qed

text \<open>
  Binding a fresh port to a transactor without a socket configuration returns. The port then
  satisfies the ownership invariant with one socket number per core and nothing in flight, every
  socket's backward path is registered in order, and a requestor is routed to the number of the
  first core, in name order, that owns its id (to socket 0 when none does) - always a number the
  blocking helper accepts, as long as there is a core.
\<close>

lemma bind_default_fresh:
  assumes "w_port w = fresh_port m" and "pool_ok {} (w_pool w)" and "socket_core_map tm = []"
    and "m \<noteq> []" and "length m < 2 ^ 32 - 1"
  shows "\<exists>w'. bindToTransactor_multi tm w = Inr w' \<and> port_ok (of_nat (length m)) Map.empty w'
     \<and> (\<forall>r. getSocketId r (w_port w') =
           (case core_index r m of Some i \<Rightarrow> of_nat i | None \<Rightarrow> 0))
     \<and> (\<forall>r. getSocketId r (w_port w') < of_nat (length m))
     \<and> w_log w' = w_log w @ map (\<lambda>i. Register_nb_transport_bw (Socket_of (of_nat i)))
         [0..<unat (getSocketNum tm)]"
proof -
  let ?n = "of_nat (length m) :: u32"
  have n1: "?n \<noteq> - 1" using assms(5) by (rule of_nat_u32_not_max)
  define p where "p = (fresh_port m)\<lparr>transactor_multi := Obj tm, socket_map := numbered 0 m\<rparr>"
  have init: "initSocketMap ((fresh_port m)\<lparr>transactor_multi := Obj tm\<rparr>) = Inr p"
    unfolding p_def using assms(3,5) by (intro init_default) simp_all
  obtain w' where w': "bindToTransactor_multi tm w = Inr w'" "port_ok ?n Map.empty w'"
      "w_port w' = p\<lparr>blk_pkt_helper := helper w'\<rparr>"
      "w_log w' = w_log w @ map (\<lambda>i. Register_nb_transport_bw (Socket_of (of_nat i)))
         [0..<unat (getSocketNum tm)]"
    by (rule bind_fresh [OF assms(1,2) init _ n1]) (simp_all add: p_def)
  have id: "getSocketId r (w_port w') = (case core_index r m of Some i \<Rightarrow> of_nat i | None \<Rightarrow> 0)" for r
    unfolding getSocketId_def by (subst (1 2) w'(3), cases "core_index r m")
      (simp_all add: p_def find_numbered fresh_port_def updateCorePortMap_def SCSlavePort_def)
  have "getSocketId r (w_port w') < ?n" for r using id core_index_known [OF assms(4)] assms(5) by simp
  then show ?thesis using w'(1,2,4) id by blast
qed

definition demo_packet :: packet where
  "demo_packet = \<lparr>pkt_addr = 64, pkt_size = 8, pkt_data = 0, pkt_cmd = ReadReq,
     pkt_cacheResponding = False, pkt_requestorId = 4, pkt_cpuClusterId = None, pkt_payloadDelay = 3,
     pkt_headerDelay = 1, pkt_senderStates = []\<rparr>"

definition demo_cores :: "(string, nat list) smap" where
  "demo_cores = [(''cpu0'', [1, 2]), (''cpu1'', [4])]"

definition demo_tm :: slave_transactor_multi where
  "demo_tm = \<lparr>stm_sockets = [''p0'', ''p1''], socket_core_map = [], stm_portName = ''p'',
     stm_socket_num = 2, stm_count = 2\<rparr>"

definition demo_start :: world where
  "demo_start = \<lparr>w_port = fresh_port demo_cores, w_pool = empty_pool (tl_new demo_tlm),
     w_pkt = (\<lambda>_. demo_packet), w_events = [], w_curTick = 0, w_now = 0, w_log = []\<rparr>"

end
