(* ===== verification/Slave_Exact.thy ===== *)
theory Slave_Exact
  imports Slave_Invariant
begin

text \<open>
  Exact ownership: nothing is leaked. \<open>port_ok\<close> says that what the port uses is alive; here what is alive is
  also owned, so the payloads that the pool has handed out are exactly those that block a channel and
  those in flight. An operation may bring a transaction in flight only by scheduling its event; every
  other one it takes from the pool or from the table has to be recorded or given back.

  The locale \<open>slave_exact\<close> adds to \<open>slave_rely\<close> that gem5's re-entrant calls keep this too, that a target
  takes and frees no payload, and that a released payload goes back to the pool.
\<close>

section \<open>Exact ownership\<close>

definition blocked_in :: "(pktType \<Rightarrow> u32 \<Rightarrow> ptr option) \<Rightarrow> ptr set" where
  "blocked_in b = {t. \<exists>ty k. b ty k = Some t}"

definition no_leak :: "owners \<Rightarrow> world \<Rightarrow> bool" where
  "no_leak H w \<longleftrightarrow> pool_ok (dom H \<union> blocked_in (blocking (helper w))) (w_pool w)"

definition port_exact :: "u32 \<Rightarrow> owners \<Rightarrow> world \<Rightarrow> bool" where
  "port_exact n H w \<longleftrightarrow> port_ok n H w \<and> no_leak H w"

definition scheduled :: "world \<Rightarrow> ptr set" where
  "scheduled w = (\<lambda>e. fst (snd e)) ` set (w_events w)"

text \<open>From \<open>w\<close> to \<open>w'\<close> events and responses in the table stay on their side: none is lost, none is added.\<close>

definition onward :: "world \<Rightarrow> world \<Rightarrow> bool" where
  "onward w w' \<longleftrightarrow> set (w_events w) \<subseteq> set (w_events w')
   \<and> (\<forall>k u. blocking (helper w') Response k = Some u \<longrightarrow> blocking (helper w) Response k = Some u)"

text \<open>What was in flight still is; what is new in flight is the business of a scheduled event.\<close>

definition adds_scheduled :: "owners \<Rightarrow> owners \<Rightarrow> world \<Rightarrow> bool" where
  "adds_scheduled H H' w \<longleftrightarrow> H \<subseteq>\<^sub>m H' \<and> (\<forall>t. H' t \<noteq> None \<longrightarrow> H t \<noteq> None \<or> t \<in> scheduled w)"

definition carried :: "u32 \<Rightarrow> owners \<Rightarrow> world \<Rightarrow> world \<Rightarrow> bool" where
  "carried n H w w' \<longleftrightarrow> (\<exists>H'. port_exact n H' w' \<and> adds_scheduled H H' w' \<and> onward w w')"

section \<open>Moves\<close>

lemma adds_at: "adds_scheduled H H' w \<Longrightarrow> H t = Some k \<Longrightarrow> H' t = Some k"
  unfolding adds_scheduled_def by (metis domI map_le_def)

lemma port_exactD: "port_exact n H w \<Longrightarrow> port_ok n H w" "port_exact n H w \<Longrightarrow> no_leak H w"
  by (simp_all add: port_exact_def)

lemma port_exact_cong:
  assumes "w_port w' = w_port w" and "w_pool w' = w_pool w"
  shows "port_exact n H w' = port_exact n H w"
  using assms by (simp add: port_exact_def no_leak_def port_ok_cong [OF assms])

lemma port_exact_frame [simp]:
  "port_exact n H (note_call c w) = port_exact n H w"
  "port_exact n H (set_pkt i p w) = port_exact n H w"
  "port_exact n H (PayloadEvent_notify t ph d w) = port_exact n H w"
  "port_exact n H (respond_if_needed E i w) = port_exact n H w"
  "port_exact n H (snd (take_delay i w)) = port_exact n H w"
  by (rule port_exact_cong; simp add: frame_simps)+

lemma exact_block:
  assumes ex: "port_exact n H w" and own: "H t = Some k" and k: "k < n" and free: "blocking (helper w) ty k = None"
    and put: "updateBlockingMap k (Some t) ty (helper w) = Inr h"
  shows "port_exact n (H(t := None)) (set_helper h w)"
proof -
  note ok = port_exactD(1) [OF ex]
  have "blocking h = (blocking (helper w))(ty := (blocking (helper w) ty)(k := Some t))"
    by (rule put_effect(2) [OF port_ok_not_cache(6) [OF ok] less_imp_le [OF k] put])
  then have "blocked_in (blocking h) = insert t (blocked_in (blocking (helper w)))"
    using free by (auto simp: blocked_in_def fun_upd_def split: if_splits) (metis option.distinct(1))
  then have "dom (H(t := None)) \<union> blocked_in (blocking h) = dom H \<union> blocked_in (blocking (helper w))"
    using own by auto
  then show ?thesis
    using port_ok_block [OF ok own k put] port_exactD(2) [OF ex] by (simp add: port_exact_def no_leak_def frame_simps)
qed

lemma exact_unblock:
  assumes ex: "port_exact n H w" and b: "blocking (helper w) ty k = Some t"
    and h: "blocking h = (blocking (helper w))(ty := (blocking (helper w) ty)(k := None))"
    and ok: "port_ok n (H(t \<mapsto> k)) (set_helper h w)"
  shows "port_exact n (H(t \<mapsto> k)) (set_helper h w)"
proof -
  have "blocked_in (blocking h) \<subseteq> blocked_in (blocking (helper w))" "blocked_in (blocking (helper w)) \<subseteq> insert t (blocked_in (blocking h))"
    using b by (auto simp: h blocked_in_def split: if_splits) (metis option.inject)
  moreover have "t \<in> blocked_in (blocking (helper w))" using b by (auto simp: blocked_in_def)
  ultimately have "dom (H(t \<mapsto> k)) \<union> blocked_in (blocking h) = dom H \<union> blocked_in (blocking (helper w))" by auto
  then show ?thesis using ok port_exactD(2) [OF ex] by (simp add: port_exact_def no_leak_def frame_simps)
qed

lemma exact_refuse:
  assumes ex: "port_exact n H w" and k: "k < n" and b: "blocking (helper w) Request k \<noteq> None"
    and upd: "updateRetryMap k True (helper w) = Inr h"
  shows "port_exact n H (set_helper h w)" "blocking h = blocking (helper w)"
proof -
  note ok = port_exactD(1) [OF ex]
  show h: "blocking h = blocking (helper w)" by (rule debt_effect(2) [OF port_ok_not_cache(6) [OF ok] k upd])
  show "port_exact n H (set_helper h w)"
    using port_ok_refuse [OF ok k b upd] port_exactD(2) [OF ex] by (simp add: port_exact_def no_leak_def frame_simps h)
qed

lemma exact_prepare:
  assumes lib: "tlm_lib_ok (se_tlm E)" and ex: "port_exact n H w"
    and prep: "prepare_transaction E packet sid w = Inr (t, w')"
  shows "H t = None" "w_port w' = w_port w" "w_events w' = w_events w" "port_exact n (H(t \<mapsto> sid)) w'"
proof -
  note p = prepare_transaction_ok [OF lib port_exactD(1) [OF ex] prep]
  note q = prepare_transaction_pool [OF lib port_exactD(2) [OF ex, unfolded no_leak_def] prep]
  show "H t = None" "w_port w' = w_port w" "w_events w' = w_events w" by (rule p q)+
  show "port_exact n (H(t \<mapsto> sid)) w'" using p q by (simp add: port_exact_def no_leak_def)
qed

lemma onward_refl [simp]: "onward w w"
  by (simp add: onward_def)

lemma onward_trans: "onward w w1 \<Longrightarrow> onward w1 w2 \<Longrightarrow> onward w w2"
  by (auto simp: onward_def)

lemma onward_frame [simp]:
  "onward w (note_call c w') = onward w w'" "onward w (set_pkt i p w') = onward w w'"
  "onward (note_call c w) w' = onward w w'"
  "onward w (respond_if_needed E i w') = onward w w'" "onward w (snd (take_delay i w')) = onward w w'"
  by (simp_all add: onward_def frame_simps)

lemma onward_same: "w_events w' = w_events w \<Longrightarrow> w_port w' = w_port w \<Longrightarrow> onward w w'"
  by (simp add: onward_def)

lemma onward_scheduled: "onward w w' \<Longrightarrow> scheduled w \<subseteq> scheduled w'"
  by (auto simp: onward_def scheduled_def)

lemma adds_refl [simp]: "adds_scheduled H H w"
  by (simp add: adds_scheduled_def)

lemma adds_trans:
  assumes "adds_scheduled H H1 w1" and "adds_scheduled H1 H2 w2" and "onward w1 w2"
  shows "adds_scheduled H H2 w2"
  using assms onward_scheduled [OF assms(3)] unfolding adds_scheduled_def by (blast intro: map_le_trans)

lemma carried_same: "port_exact n H w' \<Longrightarrow> onward w w' \<Longrightarrow> carried n H w w'"
  unfolding carried_def using adds_refl by blast

lemma carried_trans:
  assumes "port_exact n H1 w1" "adds_scheduled H H1 w1" "onward w w1" and "carried n H1 w1 w2"
  shows "carried n H w w2"
  using assms unfolding carried_def by (meson adds_trans onward_trans)

text \<open>An operation's own transaction \<open>t\<close>, no longer in flight at its end.\<close>

lemma adds_without:
  assumes "adds_scheduled (H(t \<mapsto> k)) H1 w1" and "H t = None" and "onward w1 w2"
  shows "adds_scheduled H (H1(t := None)) w2"
proof -
  have H1: "H1 u = H u" if some: "H u \<noteq> None" for u
  proof -
    obtain y where y: "H u = Some y" using some by blast
    then have "(H(t \<mapsto> k)) u = Some y" using assms(2) by auto
    then show ?thesis using adds_at [OF assms(1)] y by simp
  qed
  then have "H \<subseteq>\<^sub>m H1(t := None)" using assms(2) by (auto simp: map_le_def domIff)
  then show ?thesis using assms(1) onward_scheduled [OF assms(3)] by (auto simp: adds_scheduled_def split: if_splits)
qed

lemma adds_with:
  assumes "adds_scheduled (H(t \<mapsto> k)) H1 w1" and "H t = None" and "onward w1 w2" and "t \<in> scheduled w2"
  shows "adds_scheduled H H1 w2"
proof -
  have "H \<subseteq>\<^sub>m H(t \<mapsto> k)" using assms(2) by (rule map_le_fresh)
  then show ?thesis
    using assms(1,4) onward_scheduled [OF assms(3)] unfolding adds_scheduled_def
    by (auto intro: map_le_trans split: if_splits)
qed

section \<open>Relying on gem5 and TLM\<close>

text \<open>A call of the target: it may schedule events, but neither enters the port nor changes the pool.\<close>

definition target_call :: "world \<Rightarrow> world \<Rightarrow> bool" where
  "target_call w w' \<longleftrightarrow> w_port w' = w_port w \<and> set (w_events w) \<subseteq> set (w_events w')
   \<and> (\<forall>live. pool_ok live (w_pool w) \<longrightarrow> pool_ok live (w_pool w'))"

text \<open>The last reference to \<open>t\<close> is dropped.\<close>

definition gives_back :: "ptr \<Rightarrow> world \<Rightarrow> world \<Rightarrow> bool" where
  "gives_back t w w' \<longleftrightarrow> w_port w' = w_port w \<and> w_events w' = w_events w
   \<and> (\<forall>live. pool_ok live (w_pool w) \<longrightarrow> t \<in> live \<longrightarrow> pool_ok (live - {t}) (w_pool w'))
   \<and> t \<in> set (freePayloads (fst (w_pool w')))"

locale slave_exact = slave_rely E n for E :: slave_env and n :: u32 +
  assumes fw_exact: "port_exact n H w \<Longrightarrow> target_call w (snd (se_nb_transport_fw E s t ph d w))"
    and b_exact: "port_exact n H w \<Longrightarrow> ensures (se_b_transport E s t d w) (\<lambda>(d', w'). target_call w w')"
    and dbg_exact: "port_exact n H w \<Longrightarrow> ensures (se_transport_dbg E s t w) (\<lambda>(bytes, w'). target_call w w')"
    and resp_exact: "port_exact n H w \<Longrightarrow> ensures (se_sendTimingResp E pkt w) (\<lambda>(sent, w'). carried n H w w')"
    and retry_exact: "port_exact n H w \<Longrightarrow> ensures (se_sendRetryReq E w) (carried n H w)"
    and release_exact: "port_exact n H w \<Longrightarrow> H t = Some k \<Longrightarrow> gives_back t w (se_release E t w)"
begin

lemma target_exact:
  assumes "port_exact n H w" and "target_call w w'" and "port_ok n H w'"
  shows "port_exact n H w'" "onward w w'"
  using assms by (simp_all add: port_exact_def no_leak_def target_call_def onward_def)

lemma call_fw_exact:
  assumes "port_exact n H w" and "call_nb_transport_fw E s t ph d w = (ans, w')"
  shows "port_exact n H w'" "onward w w'" "w_port w' = w_port w"
proof -
  let ?w = "note_call (Nb_transport_fw s t ph d) w"
  have ex: "port_exact n H ?w" using assms(1) by simp
  have c: "target_call ?w w'" using fw_exact [OF ex, of s t ph d] assms(2) by (simp add: call_nb_transport_fw_def)
  note target = target_exact [OF ex c call_nb_transport_fw_ok [OF port_exactD(1) [OF assms(1)] assms(2)]]
  show "port_exact n H w'" "onward w w'" using target by simp_all
  show "w_port w' = w_port w" using c by (simp add: target_call_def frame_simps)
qed

lemma call_b_exact:
  assumes "port_exact n H w" and "call_b_transport E s t d w = Inr (d', w')"
  shows "port_exact n H w'" "onward w w'"
proof -
  let ?w = "note_call (B_transport s t d) w"
  have ex: "port_exact n H ?w" using assms(1) by simp
  have "target_call ?w w'" using b_exact [OF ex, of s t d] assms(2) by (auto simp: call_b_transport_def dest: ensuresD)
  note target = target_exact [OF ex this call_b_transport_ok [OF port_exactD(1) [OF assms(1)] assms(2)]]
  show "port_exact n H w'" "onward w w'" using target by simp_all
qed

lemma call_dbg_exact:
  assumes "port_exact n H w" and "call_transport_dbg E s t w = Inr (bytes, w')"
  shows "port_exact n H w'" "onward w w'"
proof -
  let ?w = "note_call (Transport_dbg s t) w"
  have ex: "port_exact n H ?w" using assms(1) by simp
  have "target_call ?w w'" using dbg_exact [OF ex, of s t] assms(2) by (auto simp: call_transport_dbg_def dest: ensuresD)
  note target = target_exact [OF ex this call_transport_dbg_ok [OF port_exactD(1) [OF assms(1)] assms(2)]]
  show "port_exact n H w'" "onward w w'" using target by simp_all
qed

lemma sendTimingResp_exact:
  assumes "port_exact n H w" and "sendTimingResp E pkt w = Inr (b, w')"
  shows "carried n H w w'"
  using ensuresD [OF resp_exact [of H "note_call (Send_timing_resp pkt) w" pkt]] assms
  by (auto simp: sendTimingResp_def carried_def)

lemma sendRetryReq_exact:
  assumes "port_exact n H w" and "sendRetryReq E w = Inr w'"
  shows "carried n H w w'"
  using ensuresD [OF retry_exact [of H "note_call Send_retry_req w"]] assms
  by (auto simp: sendRetryReq_def carried_def)

lemma releases_exact:
  assumes ex: "port_exact n H w" and own: "H t = Some k"
  shows "port_exact n (H(t := None)) (release E t w)" "onward w (release E t w)" "w_port (release E t w) = w_port w"
    "t \<in> set (freePayloads (fst (w_pool (release E t w))))"
proof -
  let ?w = "note_call (Release t) w"
  have ex1: "port_exact n H ?w" using ex by simp
  have g: "gives_back t ?w (release E t w)" unfolding release_def by (rule release_exact [OF ex1 own])
  have "t \<notin> blocked_in (blocking (helper w))"
    using port_ok_blocking(3) [OF port_exactD(1) [OF ex]] own by (fastforce simp: blocked_in_def)
  then have "dom H \<union> blocked_in (blocking (helper w)) - {t} = dom (H(t := None)) \<union> blocked_in (blocking (helper w))" by auto
  moreover have "t \<in> dom H \<union> blocked_in (blocking (helper w))" using own by auto
  moreover have "pool_ok (dom H \<union> blocked_in (blocking (helper w))) (w_pool ?w)"
    using port_exactD(2) [OF ex1] by (simp add: no_leak_def frame_simps)
  ultimately have "pool_ok (dom (H(t := None)) \<union> blocked_in (blocking (helper w))) (w_pool (release E t w))"
    using g unfolding gives_back_def by metis
  then show "port_exact n (H(t := None)) (release E t w)"
    using g release_ok [OF port_exactD(1) [OF ex] own] by (simp add: port_exact_def no_leak_def gives_back_def frame_simps)
  show "onward w (release E t w)" "w_port (release E t w) = w_port w"
    "t \<in> set (freePayloads (fst (w_pool (release E t w))))"
    using g by (simp_all add: onward_def gives_back_def frame_simps)
qed

section \<open>Requests\<close>

lemma after_begin_req_exact:
  assumes ex: "port_exact n H w" and own: "H t = Some sid" and sid: "sid < n"
    and free: "blocking (helper w) Request sid = None" and r: "after_begin_req E t sid ans w = Inr (b, w')"
  obtains "port_exact n H w'" "t \<in> scheduled w'" "onward w w'"
  | "port_exact n (H(t := None)) w'" "onward w w'"
proof -
  obtain status ph d where ans: "ans = (status, ph, d)" by (cases ans)
  note ok = port_exactD(1) [OF ex]
  show thesis
  proof (cases status)
    case TLM_ACCEPTED
    with r ans port_ok_not_cache(1) [OF ok] obtain h where
      h: "updateBlockingMap sid (Some t) Request (helper w) = Inr h" "w' = set_helper h w"
      by (auto simp: after_begin_req_def bindr_eq_Inr split: if_splits)
    have "blocking h Response = blocking (helper w) Response"
      using put_effect(2) [OF port_ok_not_cache(6) [OF ok] less_imp_le [OF sid] h(1)] by simp
    then show ?thesis using that(2) exact_block [OF ex own sid free h(1)] h(2) by (simp add: onward_def frame_simps)
  next
    case TLM_UPDATED
    with r ans have "w' = PayloadEvent_notify t ph d w"
      by (auto simp: after_begin_req_def split: if_splits)
    then show ?thesis using that(1) ex by (simp add: scheduled_def onward_def frame_simps) blast
  next
    case TLM_COMPLETED
    with r ans have "w' = release E t w" by (auto simp: after_begin_req_def split: if_splits)
    then show ?thesis using that(2) releases_exact [OF ex own] by simp
  qed
qed

lemma recvTimingReq_exact:
  assumes ex: "port_exact n H w" and r: "recvTimingReq E packet w = Inr (b, w')"
  shows "carried n H w w'"
  using port_exactD(1) [OF ex] r refl
proof (cases rule: recvTimingReqE)
  case (refused h)
  note e = exact_refuse [OF ex refused(2-4)]
  show ?thesis unfolding refused(5) by (rule carried_same [OF e(1)]) (simp add: onward_def frame_simps e(2))
next
  case (sent t w1 s ans w2)
  let ?sid = "target_socket_id (w_pkt w packet) (w_port w)"
  note p = exact_prepare [OF lib ex sent(3)]
  have "port_exact n (H(t \<mapsto> ?sid)) (snd (take_delay packet w1))" using p(4) by simp
  note c = call_fw_exact [OF this sent(5)]
  have on: "onward w w2" using onward_same [OF p(3,2)] c(2) by (auto intro: onward_trans [of w "snd (take_delay packet w1)"])
  have free: "blocking (helper w2) Request ?sid = None" using sent(2) p(2) c(3) by (simp add: frame_simps)
  show ?thesis
  proof (rule after_begin_req_exact [OF c(1) _ sent(1) free sent(6)])
    assume a: "port_exact n (H(t \<mapsto> ?sid)) w'" "t \<in> scheduled w'" "onward w2 w'"
    with adds_with [where H = H and t = t and k = ?sid, OF adds_refl p(1) a(3,2)] onward_trans [OF on a(3)] show ?thesis unfolding carried_def by blast
  next
    assume a: "port_exact n ((H(t \<mapsto> ?sid))(t := None)) w'" "onward w2 w'"
    with adds_without [where H = H and t = t and k = ?sid, OF adds_refl p(1) a(2)] onward_trans [OF on a(2)] show ?thesis unfolding carried_def by blast
  qed simp
qed

section \<open>Payload events\<close>

lemma pec_end_req_exact:
  assumes ex: "port_exact n H w" and r: "pec_end_req E t w = Inr w'"
  obtains k where "blocking (helper w) Request k = Some t" "H t = None" "carried n (H(t \<mapsto> k)) w w'"
proof -
  note ok = port_exactD(1) [OF ex]
  note nc = port_ok_not_cache [OF ok]
  obtain k where bk: "blocking (helper w) Request k = Some t" and own: "H t = None"
    using pec_end_req_keeps [OF ok r] by blast
  note own = port_ok_blocking [OF ok bk]
  have core: "core_of t w = Inr k" using own(2) by (simp add: core_of_Inr)
  obtain h b where h: "updateBlockingMap k None Request (helper w) = Inr h"
    and b: "bph_needToSendRequestRetry k h = Inr b"
    and w': "(if b then bindr (updateRetryMap k False h) (\<lambda>h. sendRetryReq E (set_helper h w))
              else Inr (set_helper h w)) = Inr w'"
    using r nc core by (auto simp: pec_end_req_def bindr_eq_Inr split: if_splits)
  note he = put_effect [OF nc(6) less_imp_le [OF own(1)] h]
  have b': "b = owed (helper w) k" using helper_ok_debt [OF he(1) own(1)] b he(3) by simp
  have "carried n (H(t \<mapsto> k)) w w'"
  proof (cases b)
    case True
    then obtain h' where h': "updateRetryMap k False h = Inr h'" "sendRetryReq E (set_helper h' w) = Inr w'"
      using w' by (auto simp: bindr_eq_Inr)
    note de = debt_effect [OF he(1) own(1) h'(1)]
    have "port_ok n (H(t \<mapsto> k)) (set_helper h' w)"
      using de he by (intro port_ok_end_request [OF ok bk]) simp_all
    then have "port_exact n (H(t \<mapsto> k)) (set_helper h' w)"
      using de(2) he(2) by (intro exact_unblock [OF ex bk]) simp_all
    from carried_trans [OF this adds_refl _ sendRetryReq_exact [OF this h'(2)], of w] show ?thesis
      using de(2) he(2) by (simp add: onward_def frame_simps)
  next
    case False
    then have "owed h = (owed (helper w))(k := False)" using b' he(3) by (simp add: fun_upd_idem)
    then have "port_ok n (H(t \<mapsto> k)) (set_helper h w)"
      using he by (intro port_ok_end_request [OF ok bk]) simp_all
    then have "port_exact n (H(t \<mapsto> k)) (set_helper h w)"
      using he(2) by (intro exact_unblock [OF ex bk]) simp_all
    then show ?thesis using w' False he(2) by (auto intro!: carried_same simp: onward_def frame_simps)
  qed
  with bk own show thesis by (intro that)
qed

lemma offer_response_exact:
  assumes "port_exact n H w" and "offer_response E packet w = Inr (b, w')"
  shows "carried n H w w'"
proof -
  have ex: "port_exact n H (respond_if_needed E packet w)" using assms(1) by simp
  show ?thesis
  proof (cases "w' = respond_if_needed E packet w")
    case True
    then show ?thesis using carried_same [OF ex] by simp
  next
    case False
    then obtain sent where "sendTimingResp E packet (respond_if_needed E packet w) = Inr (sent, w')"
      using assms(2) by (auto simp: offer_response_def Let_def bindr_eq_Inr split: if_splits)
    then show ?thesis by (intro carried_trans [OF ex adds_refl _ sendTimingResp_exact [OF ex]]) simp_all
  qed
qed

lemma finish_transaction_exact:
  assumes ex: "port_exact n H w" and own: "H t = Some k" and r: "finish_transaction E t c w = Inr w'"
  shows "port_exact n (H(t := None)) w'" "onward w w'" "t \<in> set (freePayloads (fst (w_pool w')))"
proof -
  obtain s where w': "w' = release E t (snd (call_nb_transport_fw E s t END_RESP 0 w))"
    using r by (auto simp: finish_transaction_def bindr_eq_Inr case_prod_beta)
  note c = call_fw_exact [OF ex surjective_pairing, of s t END_RESP 0]
  note g = releases_exact [OF c(1) own]
  show "port_exact n (H(t := None)) w'" "t \<in> set (freePayloads (fst (w_pool w')))" unfolding w' by (rule g)+
  show "onward w w'" unfolding w' by (rule onward_trans [OF c(2) g(2)])
qed

lemma pec_begin_resp_exact:
  assumes ex: "port_exact n H w" and own: "H t = Some k" and r: "pec_begin_resp E t w = Inr w'"
  obtains H' where "port_exact n H' w'" "H' t = None" "adds_scheduled (H(t := None)) H' w'"
    "set (w_events w) \<subseteq> set (w_events w')"
    "blocking (helper w') Response k = Some t \<or> t \<in> set (freePayloads (fst (w_pool w')))"
proof -
  note ok = port_exactD(1) [OF ex]
  note nc = port_ok_not_cache [OF ok]
  obtain e c x retry w1 where e: "getExtension (gp w t) = Inr e" "getCoreID e = Inr c"
    and x: "getBlockingTrans c Response (helper w) = Inr x" "x = None"
    and w1: "offer_response E (getPacket e) w = Inr (retry, w1)"
    and fin: "(if retry then hold_response t c w1 else finish_transaction E t c w1) = Inr w'"
    using r nc(1)
    by (auto simp: pec_begin_resp_def Let_def bindr_eq_Inr split: if_splits prod.splits)
  have c: "c = k" using extension_core [OF e] port_ok_owned [OF ok own] by simp
  have k: "k < n" "blocking (helper w) Response k = None" using getBlockingTrans_Inr [OF nc(6) x(1)] x(2) c by simp_all
  obtain H1 where H1: "port_exact n H1 w1" "adds_scheduled H H1 w1" "onward w w1"
    using offer_response_exact [OF ex w1] by (auto simp: carried_def)
  have own1: "H1 t = Some k" by (rule adds_at [OF H1(2) own])
  have adds: "adds_scheduled ((H(t := None))(t \<mapsto> k)) H1 w1" using H1(2) own by (simp add: fun_upd_idem)
  have free1: "blocking (helper w1) Response k = None"
    using H1(3) k(2) by (cases "blocking (helper w1) Response k") (auto simp: onward_def)
  show thesis
  proof (cases retry)
    case False
    then have "finish_transaction E t k w1 = Inr w'" using fin c by simp
    note f = finish_transaction_exact [OF H1(1) own1 this]
    show thesis
      by (rule that [OF f(1) _ adds_without [OF adds _ f(2)] _ disjI2 [OF f(3)]])
        (use H1(3) f(2) in \<open>auto simp: onward_def\<close>)
  next
    case True
    note nc1 = port_ok_not_cache [OF port_exactD(1) [OF H1(1)]]
    obtain h where h: "updateBlockingMap k (Some t) Response (helper w1) = Inr h" "w' = set_helper h w1"
      using True fin c nc1(1) by (auto simp: hold_response_def bindr_eq_Inr split: if_splits)
    have b: "blocking h Response k = Some t" using put_effect(2) [OF nc1(6) less_imp_le [OF k(1)] h(1)] by simp
    have "adds_scheduled (H(t := None)) (H1(t := None)) w1" by (rule adds_without [OF adds]) simp_all
    then have "adds_scheduled (H(t := None)) (H1(t := None)) w'"
      by (simp add: adds_scheduled_def scheduled_def h(2) frame_simps)
    then show thesis
      using exact_block [OF H1(1) own1 k(1) free1 h(1)] h(2) b H1(3)
      by (intro that [of "H1(t := None)"]) (auto simp: onward_def frame_simps)
  qed
qed

text \<open>
  The event of \<open>t\<close>: all else in flight stays, \<open>t\<close> itself is in flight after the end of its request, and after
  the start of its response it is held or back in the pool.
\<close>

lemma pec_exact:
  assumes ex: "port_exact n H w" and r: "pec E t ph w = Inr w'"
    and own: "H t \<noteq> None \<or> (\<exists>k. blocking (helper w) Request k = Some t)"
  shows "\<exists>H'. port_exact n H' w' \<and> adds_scheduled (H(t := None)) (H'(t := None)) w' \<and> set (w_events w) \<subseteq> set (w_events w')
    \<and> (ph = END_REQ \<longrightarrow> H' t \<noteq> None)
    \<and> (ph = BEGIN_RESP \<longrightarrow> H' t = None
         \<and> ((\<exists>k. blocking (helper w') Response k = Some t) \<or> t \<in> set (freePayloads (fst (w_pool w')))))"
proof -
  note nc = port_ok_not_cache [OF port_exactD(1) [OF ex]]
  let ?ends = "ph = END_REQ \<or> isBlockingTrans (Some t) Request (helper w) \<and> ph = BEGIN_RESP"
  obtain w1 where w1: "(if ?ends then pec_end_req E t w else Inr w) = Inr w1"
    and w': "(if ph = BEGIN_RESP then pec_begin_resp E t w1 else Inr w1) = Inr w'"
    using r nc(2) by (auto simp: pec_def bindr_eq_Inr split: if_splits)
  obtain H1 where H1: "port_exact n H1 w1" "adds_scheduled (H(t := None)) (H1(t := None)) w1"
      "set (w_events w) \<subseteq> set (w_events w1)" "?ends \<or> ph = BEGIN_RESP \<Longrightarrow> H1 t \<noteq> None"
  proof (cases ?ends)
    case True
    with w1 have e: "pec_end_req E t w = Inr w1" by simp
    obtain k where k: "H t = None" "carried n (H(t \<mapsto> k)) w w1" by (rule pec_end_req_exact [OF ex e])
    then obtain H1 where H1: "port_exact n H1 w1" "adds_scheduled (H(t \<mapsto> k)) H1 w1" "onward w w1"
      by (auto simp: carried_def)
    have "adds_scheduled H (H1(t := None)) w1" by (rule adds_without [OF H1(2) k(1) onward_refl])
    then have "adds_scheduled (H(t := None)) (H1(t := None)) w1" using k(1) by (simp add: fun_upd_idem)
    moreover have "H1 t = Some k" by (rule adds_at [OF H1(2)]) simp
    ultimately show thesis using that [of H1] H1(1,3) by (simp add: onward_def)
  next
    case False
    with w1 own isBlockingTrans_Some [OF nc(6)] ex show thesis by (intro that [of H]) auto
  qed
  show ?thesis
  proof (cases "ph = BEGIN_RESP")
    case True
    with H1(4) obtain k where "H1 t = Some k" by blast
    with True w' obtain H' where H': "port_exact n H' w'" "H' t = None" "adds_scheduled (H1(t := None)) H' w'"
        "set (w_events w1) \<subseteq> set (w_events w')"
        "blocking (helper w') Response k = Some t \<or> t \<in> set (freePayloads (fst (w_pool w')))"
      using pec_begin_resp_exact [OF H1(1)] by metis
    have "adds_scheduled (H(t := None)) H' w'"
      using H1(2) H'(3,4) unfolding adds_scheduled_def scheduled_def by (blast intro: map_le_trans)
    then have "adds_scheduled (H(t := None)) (H'(t := None)) w'" using H'(2) by (simp add: fun_upd_idem)
    then show ?thesis using H' H1(3) True by (intro exI [of _ H']) auto
  next
    case False
    with w' H1 show ?thesis by auto
  qed
qed

section \<open>Retries of held responses, blocking and debug accesses\<close>

lemma resp_retry_round_exact:
  assumes ex: "port_exact n H w" and resp: "blocking (helper w) Response k = Some t"
    and r: "resp_retry_round E (Some t) w = Inr w'"
  shows "carried n H w w'"
proof -
  note ok = port_exactD(1) [OF ex]
  note nc = port_ok_not_cache [OF ok]
  note own = port_ok_blocking [OF ok resp]
  obtain e c h w1 where e: "getExtension (gp w t) = Inr e" "getCoreID e = Inr c"
    and h: "updateBlockingMap c None Response (helper w) = Inr h"
    and w1: "sendTimingResp E (getPacket e) (set_helper h w) = Inr (True, w1)"
    and fin: "finish_transaction E t c w1 = Inr w'"
    using r nc(3)
    by (auto simp: resp_retry_round_def bindr_eq_Inr split: if_splits)
  have "c = k" using extension_core [OF e] own(2) by simp
  with h have h: "updateBlockingMap k None Response (helper w) = Inr h" by simp
  have b: "blocking h = (blocking (helper w))(Response := (blocking (helper w) Response)(k := None))"
    using put_effect(2) [OF nc(6) less_imp_le [OF own(1)] h] .
  have ex1: "port_exact n (H(t \<mapsto> k)) (set_helper h w)"
    by (rule exact_unblock [OF ex resp b port_ok_end_response [OF ok resp h]])
  obtain H1 where H1: "port_exact n H1 w1" "adds_scheduled (H(t \<mapsto> k)) H1 w1" "onward (set_helper h w) w1"
    using sendTimingResp_exact [OF ex1 w1] by (auto simp: carried_def)
  have "H1 t = Some k" by (rule adds_at [OF H1(2)]) simp
  note f = finish_transaction_exact [OF H1(1) this fin]
  have "onward w (set_helper h w)" by (simp add: onward_def frame_simps b)
  from onward_trans [OF this onward_trans [OF H1(3) f(2)]] adds_without [OF H1(2) own(3) f(2)] f(1) show ?thesis
    unfolding carried_def by blast
qed

lemma resp_retry_loop_exact:
  assumes "port_exact n H w" and "resp_retry_loop E rounds (getBlockingResponse (helper w)) w = Inr w'"
  shows "carried n H w w'"
  using assms
proof (induction rounds arbitrary: H w)
  case 0
  then show ?case by (auto intro: carried_same split: if_splits)
next
  case (Suc m)
  note nc = port_ok_not_cache [OF port_exactD(1) [OF Suc.prems(1)]]
  show ?case
  proof (cases "getBlockingResponse (helper w)")
    case None
    with Suc.prems nc(3) show ?thesis by (auto intro: carried_same)
  next
    case (Some t)
    then obtain k where k: "blocking (helper w) Response k = Some t"
      using getBlockingResponse_Some [OF nc(6)] by blast
    obtain w1 where w1: "resp_retry_round E (Some t) w = Inr w1"
      and rest: "resp_retry_loop E m (getBlockingResponse (helper w1)) w1 = Inr w'"
      using Suc.prems(2) Some by (auto simp del: resp_retry_loop.simps
          simp: resp_retry_loop.simps [of E "Suc m"] bindr_eq_Inr)
    obtain H1 where H1: "port_exact n H1 w1" "adds_scheduled H H1 w1" "onward w w1"
      using resp_retry_round_exact [OF Suc.prems(1) k w1] by (auto simp: carried_def)
    show ?thesis by (rule carried_trans [OF H1 Suc.IH [OF H1(1) rest]])
  qed
qed

lemma recvAtomic_exact:
  assumes ex: "port_exact n H w" and r: "recvAtomic E packet w = Inr (d, w')"
  shows "port_exact n H w'"
proof -
  define sid where "sid = getSocketId (pkt_requestorId (w_pkt w packet)) (w_port w)"
  obtain t w1 w2 where p: "prepare_transaction E packet sid w = Inr (t, w1)"
    and w2: "w2 = w1 \<or> (\<exists>s. call_b_transport E s t 0 w1 = Inr (d, w2))"
    and w': "w' = release E t (respond_if_needed E packet w2)"
    using r unfolding sid_def
    by (auto simp: recvAtomic_def Let_def bindr_eq_Inr split: if_splits)
  note f = exact_prepare [OF lib ex p]
  have c: "port_exact n (H(t \<mapsto> sid)) w2" "onward w1 w2"
    using w2 f(4) call_b_exact [OF f(4)] by auto
  have "port_exact n (H(t \<mapsto> sid)) (respond_if_needed E packet w2)" using c(1) by simp
  note g = releases_exact [OF this, of t sid]
  show ?thesis using f(1) g(1) by (simp add: w' fun_upd_idem)
qed

lemma recvFunctional_exact:
  assumes ex: "port_exact n H w" and r: "recvFunctional E packet w = Inr w'"
  shows "port_exact n H w'"
proof -
  define sid where "sid = getSocketId (pkt_requestorId (w_pkt w packet)) (w_port w)"
  obtain t w1 s bytes w2 where p: "prepare_transaction E packet sid w = Inr (t, w1)"
    and w2: "call_transport_dbg E s t w1 = Inr (bytes, w2)" and w': "w' = release E t w2"
    using r unfolding sid_def
    by (auto simp: recvFunctional_def Let_def bindr_eq_Inr split: if_splits)
  note f = exact_prepare [OF lib ex p]
  note c = call_dbg_exact [OF f(4) w2]
  note g = releases_exact [OF c(1), of t sid]
  show ?thesis using f(1) g(1) by (simp add: w' fun_upd_idem)
qed

end

section \<open>Environments\<close>

text \<open>The reliance as a condition on an environment, written out.\<close>

definition env_exact :: "u32 \<Rightarrow> slave_env \<Rightarrow> bool" where
  "env_exact n E \<longleftrightarrow> env_rely n E
   \<and> (\<forall>H w. port_exact n H w \<longrightarrow>
        (\<forall>s t ph d. target_call w (snd (se_nb_transport_fw E s t ph d w)))
      \<and> (\<forall>s t d. ensures (se_b_transport E s t d w) (\<lambda>(d', w'). target_call w w'))
      \<and> (\<forall>s t. ensures (se_transport_dbg E s t w) (\<lambda>(bytes, w'). target_call w w'))
      \<and> (\<forall>pkt. ensures (se_sendTimingResp E pkt w) (\<lambda>(sent, w'). carried n H w w'))
      \<and> ensures (se_sendRetryReq E w) (carried n H w)
      \<and> (\<forall>t k. H t = Some k \<longrightarrow> gives_back t w (se_release E t w)))"

lemma env_exact_iff: "env_exact n E \<longleftrightarrow> slave_exact E n"
  by (auto simp: env_exact_def env_rely_iff slave_exact_def slave_exact_axioms_def)

text \<open>The environments whose calls return without re-entering the port.\<close>

lemma target_call_refl [simp]: "target_call w w"
  by (simp add: target_call_def)

lemma gives_back_free: "tlm_lib_ok L \<Longrightarrow> gives_back t w (w\<lparr>w_pool := mm_free L t (w_pool w)\<rparr>)"
  by (cases "w_pool w") (simp add: gives_back_def mm_free_ok, simp add: mm_free_def)

context tlm_library begin

lemma returning_calls_exact: "slave_exact (passive_env L G a) n"
  by (intro slave_exact.intro returning_calls_rely slave_exact_axioms.intro)
    (simp_all add: passive_env_def carried_same gives_back_free [OF documented])

end

sublocale tlm_library \<subseteq> calm_exact: slave_exact "passive_env L G a" n for G a n
  by (rule returning_calls_exact)

lemma passive_env_exact: "tlm_lib_ok L \<Longrightarrow> env_exact n (passive_env L G a)"
  unfolding env_exact_iff by (rule tlm_library.returning_calls_exact [OF tlm_library.intro])

text \<open>
  gem5 sends a packet from inside \<open>sendRetryReq\<close>, or from inside \<open>sendTimingResp\<close>; when the nested request
  ends the simulation, so does the call.
\<close>

lemma carried_request:
  assumes "env_exact n E" and "port_exact n H w"
  shows "ensures (recvTimingReq E packet w) (\<lambda>(accepted, w'). carried n H w w')"
  using slave_exact.recvTimingReq_exact [OF assms(1) [unfolded env_exact_iff] assms(2)] by (auto simp: ensures_def)

lemma resending_env_exact:
  assumes "env_exact n E"
  shows "env_exact n (resending_env E resend)"
proof -
  have "ensures (bindr (recvTimingReq E (resend w) w) (\<lambda>(accepted, w'). Inr w')) (carried n H w)" if "port_exact n H w" for H w
    unfolding ensures_bindr_eq by (rule ensures_mono [OF carried_request [OF assms that]]) auto
  then show ?thesis
    using assms resending_env_rely [of n E resend] by (simp add: env_exact_def resending_env_def)
qed

lemma asking_env_exact:
  assumes "env_exact n E"
  shows "env_exact n (asking_env E packet)"
proof -
  have "ensures (se_sendTimingResp (asking_env E packet) i w) (\<lambda>(sent, w'). carried n H w w')" if ex: "port_exact n H w" for H w i
  proof (rule ensuresI)
    fix r
    assume "se_sendTimingResp (asking_env E packet) i w = Inr r"
    then obtain sent w1 accepted w2 where w1: "se_sendTimingResp E i w = Inr (sent, w1)"
        and w2: "recvTimingReq E packet w1 = Inr (accepted, w2)" "r = (sent, w2)"
      by (auto simp: asking_env_def res_simps)
    have "ensures (se_sendTimingResp E i w) (\<lambda>(sent, w'). carried n H w w')" using assms ex by (simp add: env_exact_def)
    then have "carried n H w w1" using w1 by (auto dest: ensuresD)
    then obtain H1 where H1: "port_exact n H1 w1" "adds_scheduled H H1 w1" "onward w w1" by (auto simp: carried_def)
    have "carried n H1 w1 w2" using ensuresD [OF carried_request [OF assms H1(1)] w2(1)] by simp
    then show "case r of (sent, w') \<Rightarrow> carried n H w w'" using carried_trans [OF H1] w2(2) by simp
  qed
  then show ?thesis
    using assms asking_env_rely [of n E packet] by (simp add: env_exact_def asking_env_def)
qed

end
