(* ===== verification/Slave_Properties.thy ===== *)
theory Slave_Properties
  imports Slave_Binding Slave_Exact
begin

text \<open>
  The properties of the slave port: ownership of transactions through every operation, also when gem5
  or the target calls back into the port; the exclusion rule and its retries; the exact calls each
  branch makes; the loop of \<open>recvRespRetry\<close>; and the configurations in which requests end the
  simulation.
\<close>

section \<open>Small facts\<close>

text \<open>The checks that open \<open>recvTimingReq\<close> and \<open>recvAtomic\<close>.\<close>

definition admissible :: "slave_env \<Rightarrow> ptr \<Rightarrow> world \<Rightarrow> bool" where
  "admissible E packet w \<longleftrightarrow> w_curTick w = w_now w \<and> \<not> pkt_cacheResponding (w_pkt w packet)
     \<and> readOrWrite E (w_pkt w packet)"

lemma recvTimingReq_no_cache:
  assumes "admissible E packet w" and "\<not> usingGem5Cache (w_port w)"
    and "\<not> needToSendRequestRetry (w_port w)" and "k = target_socket_id (w_pkt w packet) (w_port w)"
  shows "recvTimingReq E packet w = bindr (isBlockedPort k Request (helper w)) (\<lambda>blocked.
     if blocked
     then bindr (updateRetryMap k True (helper w)) (\<lambda>h. Inr (False, set_helper h w))
     else bindr (prepare_transaction E packet k w) (\<lambda>(txn, w).
       case take_delay packet w of (delay, w) \<Rightarrow>
         bindr (select_socket k (w_port w)) (\<lambda>s.
           case call_nb_transport_fw E s txn BEGIN_REQ delay w of (answer, w) \<Rightarrow>
             after_begin_req E txn k answer w)))"
  using assms by (auto simp: admissible_def recvTimingReq_def Let_def)

lemma port_ok_recvTimingReq:
  assumes "port_ok n H w" and "admissible E packet w"
    and "k = target_socket_id (w_pkt w packet) (w_port w)" and "k < n"
  shows "recvTimingReq E packet w =
    (if blocking (helper w) Request k \<noteq> None
     then bindr (updateRetryMap k True (helper w)) (\<lambda>h. Inr (False, set_helper h w))
     else bindr (prepare_transaction E packet k w) (\<lambda>(txn, w).
       case take_delay packet w of (delay, w) \<Rightarrow>
         bindr (select_socket k (w_port w)) (\<lambda>s.
           case call_nb_transport_fw E s txn BEGIN_REQ delay w of (answer, w) \<Rightarrow>
             after_begin_req E txn k answer w)))"
proof -
  note nc = port_ok_not_cache [OF assms(1)]
  have "isBlockedPort k Request (helper w) = Inr (blocking (helper w) Request k \<noteq> None)"
    using nc(5) helper_ok_get [OF nc(6) assms(4)] by (simp add: isBlockedPort_def)
  then show ?thesis using recvTimingReq_no_cache [OF assms(2) nc(1,4) assms(3)] by simp
qed

text \<open>The end of a request: the channel is free and the debt is paid before gem5 is told.\<close>

lemma pec_end_req_effect:
  assumes ok: "port_ok n H w" and t: "blocking (helper w) Request k = Some t"
  obtains h where "helper_ok n h"
    and "blocking h = (blocking (helper w))(Request := (blocking (helper w) Request)(k := None))"
    and "owed h = (owed (helper w))(k := False)"
    and "pec_end_req E t w =
      (if owed (helper w) k then sendRetryReq E (set_helper h w) else Inr (set_helper h w))"
proof -
  note nc = port_ok_not_cache [OF ok]
  note own = port_ok_blocking [OF ok t]
  have bt: "isBlockingTrans (Some t) Request (helper w)"
    using t isBlockingTrans_Some [OF nc(6)] by blast
  have core: "core_of t w = Inr k" using own(2) by (simp add: core_of_Inr)
  obtain h' h'' where h: "updateBlockingMap k None Request (helper w) = Inr h'"
      "bph_needToSendRequestRetry k h' = Inr (owed (helper w) k)" "helper_ok n h'"
      "blocking h' = (blocking (helper w))(Request := (blocking (helper w) Request)(k := None))"
      "owed h' = owed (helper w)" "updateRetryMap k False h' = Inr h''" "helper_ok n h''"
      "blocking h'' = blocking h'" "owed h'' = (owed (helper w))(k := False)"
    by (rule bph.settle [OF nc(6) own(1), of Request])
  define h0 where "h0 = (if owed (helper w) k then h'' else h')"
  have "pec_end_req E t w =
      (if owed (helper w) k then sendRetryReq E (set_helper h0 w) else Inr (set_helper h0 w))"
    using bt core h nc(2) by (simp add: pec_end_req_def h0_def)
  moreover have "owed h0 = (owed (helper w))(k := False)"
    using h by (simp add: h0_def fun_upd_idem)
  ultimately show thesis using that [of h0] h by (simp add: h0_def)
qed

lemma pec_END_REQ: "port_ok n H w \<Longrightarrow> pec E t END_REQ w = pec_end_req E t w"
  by (cases "pec_end_req E t w") (simp_all add: pec_def)

section \<open>Concrete worlds\<close>

definition demo_answers :: answers where
  "demo_answers = \<lparr>a_nb_transport_fw = (\<lambda>s t ph d w. (TLM_ACCEPTED, BEGIN_REQ, 0)),
     a_b_transport = (\<lambda>s t d w. 5), a_transport_dbg = (\<lambda>s t w. gp_data_length (gp w t)),
     a_sendTimingResp = (\<lambda>pkt w. True)\<rparr>"

abbreviation demo_env :: slave_env where
  "demo_env \<equiv> passive_env demo_tlm demo_gem5 demo_answers"

definition demo_bound :: "u32 \<Rightarrow> (u32, ptr option) smap \<Rightarrow> (u32, ptr option) smap \<Rightarrow> slave_port" where
  "demo_bound n req resp = (fresh_port demo_cores)\<lparr>transactor_multi := Obj demo_tm,
     socket_map := [(0, [1, 2]), (1, [4])],
     blk_pkt_helper := \<lparr>socket_num = Some n, blockingRequestMap = req, blockingResponseMap = resp,
       needToSendRequestRetryMap = [(0, False), (1, False), (2, False)],
       isSystemPortBlocked = False, bph_usingGem5Cache = False\<rparr>\<rparr>"

text \<open>Nothing in flight; and one transaction, \<open>0\<close>, of packet \<open>0\<close> for socket \<open>1\<close>.\<close>

definition demo_idle :: world where
  "demo_idle = demo_start\<lparr>w_port :=
     demo_bound 2 [(0, None), (1, None), (2, None)] [(0, None), (1, None), (2, None)]\<rparr>"

definition demo_txn :: payload where
  "demo_txn = (tl_new demo_tlm)\<lparr>gp_extension := Some \<lparr>Packet = 0, coreId = Some 1\<rparr>\<rparr>"

definition demo_busy :: "ptr option \<Rightarrow> ptr option \<Rightarrow> world" where
  "demo_busy req resp = demo_start\<lparr>
     w_port := demo_bound 2 [(0, None), (1, req), (2, None)] [(0, None), (1, resp), (2, None)],
     w_pool := (MemoryManager\<lparr>numberOfAllocations := 1\<rparr>, \<lparr>cells = (\<lambda>_. demo_txn), brk = 1\<rparr>)\<rparr>"

lemmas demo_world_defs = demo_idle_def demo_busy_def demo_start_def demo_bound_def fresh_port_def
  updateCorePortMap_def SCSlavePort_def

lemma sockets_upto_2: "sockets_upto 2 = [0, 1, 2]"
  by (simp add: sockets_upto_def upt_rec)

lemma demo_helper_ok_2:
  "helper_ok 2 (blk_pkt_helper (demo_bound 2 [(0, None), (1, a), (2, None)] [(0, None), (1, b), (2, None)]))"
  by (simp add: helper_ok_def demo_bound_def sockets_upto_2)

lemma demo_blocking:
  "blocking (blk_pkt_helper (demo_bound 2 [(0, None), (1, a), (2, None)] [(0, None), (1, b), (2, None)])) ty k
     = (if k = 1 then case ty of Request \<Rightarrow> a | Response \<Rightarrow> b else None)"
  "owed (blk_pkt_helper (demo_bound 2 req resp)) k = False"
  by (auto simp: blocking_def owed_def demo_bound_def split: pktType.split)

lemma demo_no_cache: "no_cache_mode (demo_bound 2 [(0, None), (1, a), (2, None)] [(0, None), (1, b), (2, None)])"
  by (simp add: no_cache_mode_def demo_bound_def fresh_port_def updateCorePortMap_def SCSlavePort_def)

lemma demo_idle_ok: "port_ok 2 Map.empty demo_idle"
  using demo_no_cache demo_helper_ok_2 demo_blocking pool_ok_empty
  by (intro port_ok_start) (auto simp: demo_idle_def demo_start_def split: pktType.split)

lemma demo_busy_pool: "pool_ok {0} (w_pool (demo_busy a b))"
  by (auto simp: pool_ok_def demo_busy_def MemoryManager_def demo_txn_def demo_tlm_def)

lemma demo_busy_ok:
  assumes "a = Some 0 \<and> b = None \<and> H = Map.empty \<or> a = None \<and> b = Some 0 \<and> H = Map.empty
     \<or> a = None \<and> b = None \<and> H = [0 \<mapsto> 1]"
  shows "port_ok 2 H (demo_busy a b)"
proof -
  let ?w = "demo_busy a b"
  have "pool_owns H (blocking (helper ?w)) (w_pool ?w)"
    unfolding pool_owns_def using assms demo_busy_pool
    by (intro exI [of _ "{0}"])
      (auto simp: demo_busy_def demo_blocking split: if_splits pktType.splits)
  moreover have "core_opt (gp ?w 0) = Some 1"
    by (simp add: gp_def demo_busy_def demo_txn_def core_opt_def)
  then have "table_ok 2 H (gp ?w) (blocking (helper ?w)) (owed (helper ?w))"
    using assms by (auto simp: table_ok_def demo_busy_def demo_blocking split: if_splits pktType.splits)
  ultimately show ?thesis
    using demo_no_cache demo_helper_ok_2 by (simp add: port_ok_def demo_busy_def)
qed

lemma demo_env_exact: "env_exact 2 demo_env"
  using demo_tlm_ok by (rule passive_env_exact)

lemma demo_idle_exact: "port_exact 2 Map.empty demo_idle"
proof -
  have "blocked_in (blocking (helper demo_idle)) = {}"
    by (auto simp: blocked_in_def demo_idle_def demo_blocking split: if_splits pktType.splits)
  then show ?thesis using demo_idle_ok by (simp add: port_exact_def no_leak_def demo_idle_def demo_start_def pool_ok_empty)
qed

lemma demo_busy_exact: "port_exact 2 Map.empty (demo_busy (Some 0) None)"
proof -
  have "blocked_in (blocking (helper (demo_busy (Some 0) None))) = {0}"
    by (auto simp: blocked_in_def demo_busy_def demo_blocking split: if_splits pktType.splits) (metis pktType.exhaust)
  moreover have "port_ok 2 Map.empty (demo_busy (Some 0) None)" by (rule demo_busy_ok) simp
  ultimately show ?thesis using demo_busy_pool by (simp add: port_exact_def no_leak_def)
qed

section \<open>Properties: ownership\<close>

text \<open>
  C19: \<open>recvTimingReq\<close> neither loses nor leaks a transaction, whatever gem5 and the target do inside the calls
  it makes as long as they keep this too (gem5 may call back into the port). Before and after, the
  transactions that the pool has handed out are exactly those that block one channel of their own
  socket and those in flight, and a retry is owed only where a request blocks. What was in flight still
  is; what is new in flight has an event scheduled. So the transaction of an accepted request is in the
  table, given back, or the business of a scheduled event; a refused request takes none.
\<close>

theorem recvTimingReq_keeps_ownership:
  assumes "env_exact n E" and "port_exact n H w" and "recvTimingReq E packet w = Inr (b, w')"
  shows "(\<exists>H'. port_exact n H' w' \<and> adds_scheduled H H' w' \<and> onward w w') \<and> (\<not> b \<longrightarrow> port_exact n H w')"
proof -
  have "carried n H w w'"
    by (rule slave_exact.recvTimingReq_exact [OF assms(1) [unfolded env_exact_iff] assms(2,3)])
  moreover have "port_exact n H w'" if "\<not> b"
    using port_exactD(1) [OF assms(2)] assms(3) refl
  proof (cases rule: recvTimingReqE)
    case (refused h)
    then show ?thesis using exact_refuse(1) [OF assms(2) refused(2-4)] by simp
  next
    case (sent t w1 s ans w2)
    then show ?thesis using \<open>\<not> b\<close>
      by (auto simp: after_begin_req_def res_simps split: tlm_sync_enum.splits if_splits prod.splits)
  qed
  ultimately show ?thesis by (simp add: carried_def)
qed

lemma demo_request:
  "\<exists>w'. recvTimingReq demo_env 0 demo_idle = Inr (True, w')"
  by (simp add: recvTimingReq_def Let_def demo_world_defs isBlockedPort_def getBlockingTrans_def
      target_socket_id_def getSocketId_def demo_packet_def demo_gem5_def passive_env_def
      prepare_transaction_def allocate_def empty_pool_def MemoryManager_def acquire_def note_call_def
      gp_def packet2payload_def demo_tlm_def set_gp_def take_delay_def set_pkt_def select_socket_def
      demo_tm_def call_nb_transport_fw_def demo_answers_def after_begin_req_def updateBlockingMap_def)

theorem recvTimingReq_keeps_ownership_witness:
  "\<exists>w' H'. recvTimingReq demo_env 0 demo_idle = Inr (True, w') \<and> port_exact 2 H' w' \<and> adds_scheduled Map.empty H' w'"
proof -
  obtain w' where w': "recvTimingReq demo_env 0 demo_idle = Inr (True, w')"
    using demo_request by blast
  then show ?thesis
    using recvTimingReq_keeps_ownership [OF demo_env_exact demo_idle_exact w'] by blast
qed

text \<open>
  C20: a payload event (the end of a request or the start of a response) of a transaction that the port owns
  neither loses nor leaks one. Everything else in flight stays, and what is new has an event scheduled.
  After \<open>END_REQ\<close> the event's own transaction is in flight and blocks no channel; after \<open>BEGIN_RESP\<close> it is
  not in flight any more: it is held as a blocked response or it is back in the pool.
\<close>

theorem pec_keeps_ownership:
  assumes "env_exact n E" and "port_exact n H w" and "pec E t ph w = Inr w'"
    and "H t \<noteq> None \<or> (\<exists>k. blocking (helper w) Request k = Some t)"
  shows "\<exists>H'. port_exact n H' w' \<and> adds_scheduled (H(t := None)) (H'(t := None)) w' \<and> set (w_events w) \<subseteq> set (w_events w')
    \<and> (ph = END_REQ \<longrightarrow> H' t \<noteq> None)
    \<and> (ph = BEGIN_RESP \<longrightarrow> H' t = None
         \<and> ((\<exists>k. blocking (helper w') Response k = Some t) \<or> t \<in> set (freePayloads (fst (w_pool w')))))"
  by (rule slave_exact.pec_exact [OF assms(1) [unfolded env_exact_iff] assms(2-4)])

lemma demo_busy_request: "blocking (helper (demo_busy (Some 0) None)) Request 1 = Some 0"
  by (simp add: demo_busy_def demo_blocking)

theorem pec_keeps_ownership_witness:
  "\<exists>w' H'. pec demo_env 0 END_REQ (demo_busy (Some 0) None) = Inr w' \<and> port_exact 2 H' w' \<and> H' 0 \<noteq> None"
proof -
  have ok: "port_ok 2 Map.empty (demo_busy (Some 0) None)" by (rule demo_busy_ok) simp
  obtain w' where w': "pec demo_env 0 END_REQ (demo_busy (Some 0) None) = Inr w'"
  proof -
    obtain h where "pec_end_req demo_env 0 (demo_busy (Some 0) None) = (if owed (helper (demo_busy (Some 0) None)) 1
        then sendRetryReq demo_env (set_helper h (demo_busy (Some 0) None)) else Inr (set_helper h (demo_busy (Some 0) None)))"
      by (rule pec_end_req_effect [OF ok demo_busy_request])
    then show thesis using that pec_END_REQ [OF ok] by (simp split: if_splits)
  qed
  have "Map.empty 0 \<noteq> (None :: u32 option)
      \<or> (\<exists>k. blocking (helper (demo_busy (Some 0) None)) Request k = Some 0)"
    using demo_busy_request by blast
  from pec_keeps_ownership [OF demo_env_exact demo_busy_exact w' this] w' show ?thesis by blast
qed

text \<open>
  C25: \<open>recvRespRetry\<close>, \<open>recvAtomic\<close> and \<open>recvFunctional\<close> neither lose nor leak a transaction. The payload of a
  blocking or a debug access is given back: exactly what was in flight before still is. A retry of held
  responses gives back every one it takes from the table, and leaves in flight what was, and whatever
  gem5's nested requests have scheduled an event for.
\<close>

theorem other_calls_keep_ownership:
  assumes "env_exact n E" and "port_exact n H w"
  shows "(recvRespRetry E rounds w = Inr w' \<longrightarrow> (\<exists>H'. port_exact n H' w' \<and> adds_scheduled H H' w' \<and> onward w w'))
    \<and> (recvAtomic E packet w = Inr (d, w') \<longrightarrow> port_exact n H w')
    \<and> (recvFunctional E packet w = Inr w' \<longrightarrow> port_exact n H w')"
proof -
  note exact = assms(1) [unfolded env_exact_iff]
  have "carried n H w w'" if "recvRespRetry E rounds w = Inr w'"
    using that slave_exact.resp_retry_loop_exact [OF exact assms(2)] by (simp add: recvRespRetry_def split: if_splits)
  then show ?thesis
    using slave_exact.recvAtomic_exact [OF exact assms(2)] slave_exact.recvFunctional_exact [OF exact assms(2)]
    by (auto simp: carried_def)
qed

lemma demo_atomic: "\<exists>w'. recvAtomic demo_env 0 demo_idle = Inr (5, w')"
  by (simp add: recvAtomic_def Let_def demo_world_defs getSocketId_def demo_packet_def demo_gem5_def
      passive_env_def prepare_transaction_def allocate_def empty_pool_def MemoryManager_def acquire_def
      note_call_def gp_def packet2payload_def demo_tlm_def set_gp_def select_socket_def demo_tm_def
      call_b_transport_def demo_answers_def)

theorem other_calls_keep_ownership_witness:
  "\<exists>w'. recvAtomic demo_env 0 demo_idle = Inr (5, w') \<and> port_exact 2 Map.empty w'"
proof -
  obtain w' where w': "recvAtomic demo_env 0 demo_idle = Inr (5, w')" using demo_atomic by blast
  then show ?thesis
    using other_calls_keep_ownership [OF demo_env_exact demo_idle_exact, of 0 w' 0 5] by blast
qed

section \<open>Properties: the exclusion rule\<close>

text \<open>
  C21: the exclusion rule and its retry. A request for a socket whose request channel is blocked is
  refused without any call to the target, and the debt is recorded. When the blocking transaction
  ends, the port returns from the event, having sent exactly one retry - at a moment when the channel
  is free and the debt is cleared, so that a packet sent again at once is not refused.
\<close>

theorem refused_request_is_retried:
  assumes ok: "port_ok n H w" and adm: "admissible E packet w"
    and k: "k = target_socket_id (w_pkt w packet) (w_port w)"
    and t: "blocking (helper w) Request k = Some t"
  shows "\<exists>w1 w2. recvTimingReq E packet w = Inr (False, w1) \<and> w_log w1 = w_log w
     \<and> w_pool w1 = w_pool w \<and> port_ok n H w1
     \<and> blocking (helper w1) = blocking (helper w) \<and> owed (helper w1) = (owed (helper w))(k := True)
     \<and> pec E t END_REQ w1 = sendRetryReq E w2 \<and> w_log w2 = w_log w
     \<and> blocking (helper w2) = (blocking (helper w))(Request := (blocking (helper w) Request)(k := None))
     \<and> owed (helper w2) = (owed (helper w))(k := False)"
proof -
  note nc = port_ok_not_cache [OF ok]
  have kn: "k < n" using port_ok_blocking(1) [OF ok t] .
  obtain h where h: "updateRetryMap k True (helper w) = Inr h" "helper_ok n h"
      "blocking h = blocking (helper w)" "owed h = (owed (helper w))(k := True)"
    by (rule bph.refuse [OF nc(6) kn])
  define w1 where "w1 = set_helper h w"
  have r: "recvTimingReq E packet w = Inr (False, w1)"
    using port_ok_recvTimingReq [OF ok adm k kn] t h(1) by (simp add: w1_def)
  have w1: "w_log w1 = w_log w" "w_pool w1 = w_pool w" "helper w1 = h"
    by (simp_all add: w1_def frame_simps)
  have ok1: "port_ok n H w1"
    unfolding w1_def using t by (intro port_ok_refuse [OF ok kn _ h(1)]) simp
  have t1: "blocking (helper w1) Request k = Some t" using t h(3) w1(3) by simp
  obtain h2 where h2: "pec_end_req E t w1 =
      (if owed (helper w1) k then sendRetryReq E (set_helper h2 w1) else Inr (set_helper h2 w1))"
      "blocking h2 = (blocking (helper w1))(Request := (blocking (helper w1) Request)(k := None))"
      "owed h2 = (owed (helper w1))(k := False)"
    by (rule pec_end_req_effect [OF ok1 t1])
  have "pec E t END_REQ w1 = sendRetryReq E (set_helper h2 w1)"
    using pec_END_REQ [OF ok1] h2(1) h(4) w1(3) by simp
  moreover have "w_log (set_helper h2 w1) = w_log w" "helper (set_helper h2 w1) = h2"
    using w1(1) by (simp_all add: frame_simps)
  ultimately show ?thesis
    using r w1 ok1 h h2 by (intro exI [of _ w1] exI [of _ "set_helper h2 w1"]) simp
qed

lemma demo_admissible: "admissible demo_env 0 (demo_busy a b)" "admissible demo_env 0 demo_idle"
  by (simp_all add: admissible_def demo_busy_def demo_idle_def demo_start_def demo_packet_def
      passive_env_def demo_gem5_def)

lemma demo_target:
  "target_socket_id (w_pkt (demo_busy a b) 0) (w_port (demo_busy a b)) = 1"
  "target_socket_id (w_pkt demo_idle 0) (w_port demo_idle) = 1"
  by (simp_all add: target_socket_id_def getSocketId_def demo_world_defs demo_packet_def)

theorem refused_request_is_retried_witness:
  "\<exists>w1 w2. recvTimingReq demo_env 0 (demo_busy (Some 0) None) = Inr (False, w1)
     \<and> pec demo_env 0 END_REQ w1 = sendRetryReq demo_env w2
     \<and> blocking (helper w2) Request 1 = None"
proof -
  have ok: "port_ok 2 Map.empty (demo_busy (Some 0) None)" by (rule demo_busy_ok) simp
  show ?thesis
    using refused_request_is_retried [OF ok demo_admissible(1) demo_target(1) [symmetric] demo_busy_request]
    by (metis fun_upd_same)
qed

text \<open>
  Sockets that the helper does not know end the simulation. \<open>bindToTransactor\<close> initialises the
  helper with the number of configured sockets, not with their largest number, so with a sparse
  configuration an admissible request for a socket numbered at or above that count fails an
  assertion instead of being sent.
\<close>

theorem unknown_socket_asserts:
  assumes ok: "port_ok n H w" and adm: "admissible E packet w"
    and k: "n \<le> target_socket_id (w_pkt w packet) (w_port w)"
  shows "recvTimingReq E packet w = Inl Assert_failed"
proof -
  note nc = port_ok_not_cache [OF ok]
  have "isBlockedPort (target_socket_id (w_pkt w packet) (w_port w)) Request (helper w) = Inl Assert_failed"
    using nc(5,6) k by (auto simp: isBlockedPort_def getBlockingTrans_def helper_ok_def)
  then show ?thesis using recvTimingReq_no_cache [OF adm nc(1,4) refl] by simp
qed

text \<open>The configuration with sockets 0 and 6: two entries, so the helper is initialised for two.\<close>

definition demo_sparse :: slave_transactor_multi where
  "demo_sparse = demo_tm\<lparr>socket_core_map := [(0, [0]), (6, [1])]\<rparr>"

theorem unknown_socket_asserts_witness:
  "\<exists>w. bindToTransactor_multi demo_sparse demo_start = Inr w
     \<and> recvTimingReq demo_env 0 w = Inl Assert_failed"
proof -
  let ?p = "(fresh_port demo_cores)\<lparr>transactor_multi := Obj demo_sparse\<rparr>"
  define q where "q = socket_map_configured [(0, [0]), (6, [1])] ?p"
  have init: "initSocketMap ?p = Inr q"
    by (simp add: initSocketMap_def getSocketCoreMap_def demo_sparse_def q_def)
  have q: "socket_map q = [(0, [1, 2]), (6, [4])]" "usingGem5Cache q = False"
    by (simp_all add: q_def socket_map_add_core_def fresh_port_def updateCorePortMap_def SCSlavePort_def
        demo_cores_def smap_index_def Let_def)
  obtain w where w: "bindToTransactor_multi demo_sparse demo_start = Inr w" "port_ok 2 Map.empty w"
      "w_port w = q\<lparr>blk_pkt_helper := helper w\<rparr>" "w_pkt w = w_pkt demo_start"
      "w_curTick w = w_curTick demo_start" "w_now w = w_now demo_start"
    by (rule bind_fresh [OF _ _ init, of demo_start 2]) (simp_all add: q demo_start_def pool_ok_empty)
  have "admissible demo_env 0 w"
    using demo_admissible(2) w(4-6) by (simp add: admissible_def demo_idle_def)
  moreover have "getSocketId 4 (w_port w) = 6"
    by (subst w(3)) (simp add: getSocketId_def q)
  then have "2 \<le> target_socket_id (w_pkt w 0) (w_port w)"
    using w(4) by (simp add: target_socket_id_def demo_start_def demo_packet_def)
  ultimately show ?thesis using unknown_socket_asserts [OF w(2)] w(1) by blast
qed

text \<open>
  C38: a port bound to a single-socket transactor cannot serve timing requests: \<open>bindToTransactor\<close>
  never initialises the blocking helper, so every admissible request reads the helper's
  uninitialised \<open>socket_num\<close> before anything is sent.
\<close>

theorem single_socket_timing_unusable:
  assumes "w_port w0 = fresh_port m" and "bindToTransactor portName w0 = Inr w"
    and "admissible E packet w"
  shows "recvTimingReq E packet w = Inl socket_num_unset"
proof -
  have p: "w_port w = (fresh_port m)\<lparr>transactor := Some portName\<rparr>"
    using assms(1,2) by (auto simp: bindToTransactor_def frame_simps split: if_splits)
  have "isBlockedPort k Request (helper w) = Inl socket_num_unset" for k
    by (simp add: p isBlockedPort_def getBlockingTrans_def fresh_port_def updateCorePortMap_def
        SCSlavePort_def BlockingPacketHelper_def)
  moreover have "\<not> usingGem5Cache (w_port w)" "\<not> needToSendRequestRetry (w_port w)"
    by (simp_all add: p fresh_port_def updateCorePortMap_def SCSlavePort_def)
  ultimately show ?thesis using recvTimingReq_no_cache [OF assms(3)] by simp
qed

theorem single_socket_timing_unusable_witness:
  "\<exists>w. bindToTransactor ''port'' demo_start = Inr w \<and> recvTimingReq demo_env 0 w = Inl socket_num_unset"
proof -
  obtain w where w: "bindToTransactor ''port'' demo_start = Inr w"
      "w_pkt w = w_pkt demo_start" "w_curTick w = w_curTick demo_start" "w_now w = w_now demo_start"
    by (simp add: bindToTransactor_def demo_start_def frame_simps fresh_port_def updateCorePortMap_def
        SCSlavePort_def)
  have "admissible demo_env 0 w"
    using w(2-) demo_admissible(2) by (simp add: admissible_def demo_idle_def)
  moreover have "w_port demo_start = fresh_port demo_cores" by (simp add: demo_start_def)
  ultimately show ?thesis using single_socket_timing_unusable [OF _ w(1)] w(1) by blast
qed

text \<open>
  An early end of a request ends the simulation. A target may answer \<open>BEGIN_REQ\<close> with
  \<open>TLM_UPDATED\<close> and \<open>END_REQ\<close>; the port then schedules the event but does not enter the transaction
  into the table of blocking ones, and when the event fires its assertion fails - in every state in
  which the transaction is in flight and not in the table.
\<close>

theorem early_end_req_asserts:
  assumes ok: "port_ok n H w" and own: "H t = Some k"
    and "after_begin_req E t k (TLM_UPDATED, END_REQ, d) w = Inr (b, w')"
  shows "w_events w' = w_events w @ [(w_now w + d, t, END_REQ)] \<and> b \<and> port_ok n H w'
    \<and> pec E t END_REQ w' = Inl Sc_assert_failed"
proof -
  have w': "w' = PayloadEvent_notify t END_REQ d w" "b"
    using assms(3) by (auto simp: after_begin_req_def)
  have ok': "port_ok n H w'" using ok w'(1) by simp
  note nc = port_ok_not_cache [OF ok']
  have "blocking (helper w') Request j \<noteq> Some t" for j
    using port_ok_blocking(3) [OF ok'] own by fastforce
  then have "\<not> isBlockingTrans (Some t) Request (helper w')"
    using isBlockingTrans_Some [OF nc(6)] by blast
  then have "pec_end_req E t w' = Inl Sc_assert_failed" using nc(2) by (simp add: pec_end_req_def)
  then show ?thesis using ok' w' pec_END_REQ [OF ok'] by (simp add: frame_simps)
qed

theorem early_end_req_asserts_witness:
  "\<exists>w'. after_begin_req demo_env 0 1 (TLM_UPDATED, END_REQ, 4) (demo_busy None None) = Inr (True, w')
     \<and> pec demo_env 0 END_REQ w' = Inl Sc_assert_failed"
proof -
  have ok: "port_ok 2 [0 \<mapsto> 1] (demo_busy None None)" by (rule demo_busy_ok) simp
  obtain w' where w': "after_begin_req demo_env 0 1 (TLM_UPDATED, END_REQ, 4) (demo_busy None None) = Inr (True, w')"
    by (simp add: after_begin_req_def)
  have "pec demo_env 0 END_REQ w' = Inl Sc_assert_failed"
    using early_end_req_asserts [OF ok _ w'] by simp
  with w' show ?thesis by blast
qed

end
