(* ===== verification/Slave_Traces.thy ===== *)
theory Slave_Traces
  imports Slave_Properties
begin

text \<open>
  The exact calls that the slave port makes, and the states it leaves, when the calls return without
  re-entering the port (\<open>passive_env\<close>, with any answers): requests, responses, atomic accesses, and the
  loop of \<open>recvRespRetry\<close>.
\<close>

section \<open>Calls that return\<close>

lemma calm_calls:
  "call_nb_transport_fw (passive_env L G a) s t ph d w =
     (a_nb_transport_fw a s t ph d (note_call (Nb_transport_fw s t ph d) w), note_call (Nb_transport_fw s t ph d) w)"
  "call_b_transport (passive_env L G a) s t d w =
     Inr (a_b_transport a s t d (note_call (B_transport s t d) w), note_call (B_transport s t d) w)"
  "sendTimingResp (passive_env L G a) i w =
     Inr (a_sendTimingResp a i (note_call (Send_timing_resp i) w), note_call (Send_timing_resp i) w)"
  "se_gem5 (passive_env L G a) = G" "se_tlm (passive_env L G a) = L"
  by (simp_all add: call_nb_transport_fw_def call_b_transport_def sendTimingResp_def passive_env_def)

lemma calm_release [frame_simps]:
  "w_port (release (passive_env L G a) t w) = w_port w"
  "w_log (release (passive_env L G a) t w) = w_log w @ [Release t]"
  "w_pkt (release (passive_env L G a) t w) = w_pkt w"
  "w_curTick (release (passive_env L G a) t w) = w_curTick w"
  "w_now (release (passive_env L G a) t w) = w_now w"
  "w_events (release (passive_env L G a) t w) = w_events w"
  by (simp_all add: release_def passive_env_def frame_simps)

lemma calm_release_gp: "u \<noteq> t \<Longrightarrow> gp (release (passive_env L G a) t w) u = gp w u"
  by (cases "w_pool w") (simp add: release_def passive_env_def gp_def mm_free_def note_call_def)

text \<open>The sockets of the bound transactor.\<close>

definition bound_to :: "slave_transactor_multi \<Rightarrow> u32 \<Rightarrow> slave_port \<Rightarrow> bool" where
  "bound_to tm n p \<longleftrightarrow> transactor p = None \<and> transactor_multi p = Obj tm \<and> unat n \<le> length (stm_sockets tm)"

lemma bound_select:
  assumes "bound_to tm n p" and "k < n"
  shows "select_socket k p = Inr (Socket_of k)"
  using assms by (auto simp: bound_to_def select_socket_def word_less_nat_alt)

lemma packet2payload_total:
  assumes "gp_has_mm p" and "g_isRead G (pkt_cmd pkt) \<or> g_isWrite G (pkt_cmd pkt)"
  obtains q where "packet2payload G pkt p = Inr q"
    and "gp_address q = pkt_addr pkt" and "gp_data_length q = pkt_size pkt"
    and "gp_streaming_width q = pkt_size pkt" and "gp_data_ptr q = pkt_data pkt"
    and "gp_command q = (if g_isRead G (pkt_cmd pkt) then TLM_READ_COMMAND
           else if g_isInvalidate G (pkt_cmd pkt) then gp_command p else TLM_WRITE_COMMAND)"
  using assms by (cases "g_isRead G (pkt_cmd pkt)"; cases "g_isInvalidate G (pkt_cmd pkt)")
    (auto simp: packet2payload_def Let_def)

text \<open>What a prepared transaction is: unused so far, and described by the packet.\<close>

definition describes :: "gem5_lib \<Rightarrow> ptr \<Rightarrow> packet \<Rightarrow> u32 \<Rightarrow> payload \<Rightarrow> bool" where
  "describes G i pkt k q \<longleftrightarrow>
     gp_address q = pkt_addr pkt \<and> gp_data_length q = pkt_size pkt
   \<and> gp_streaming_width q = pkt_size pkt \<and> gp_data_ptr q = pkt_data pkt
   \<and> (g_isRead G (pkt_cmd pkt) \<longrightarrow> gp_command q = TLM_READ_COMMAND)
   \<and> (\<not> g_isRead G (pkt_cmd pkt) \<and> \<not> g_isInvalidate G (pkt_cmd pkt) \<longrightarrow> gp_command q = TLM_WRITE_COMMAND)
   \<and> gp_extension q = Some \<lparr>Packet = i, coreId = Some k\<rparr>"

definition prepared :: "gem5_lib \<Rightarrow> owners \<Rightarrow> ptr \<Rightarrow> u32 \<Rightarrow> world \<Rightarrow> ptr \<Rightarrow> world \<Rightarrow> bool" where
  "prepared G H packet k w t w1 \<longleftrightarrow>
     H t = None \<and> (\<forall>ty j. blocking (helper w) ty j \<noteq> Some t)
   \<and> describes G packet (w_pkt w packet) k (gp w1 t)
   \<and> w_port w1 = w_port w \<and> w_pkt w1 = w_pkt w \<and> w_events w1 = w_events w
   \<and> w_log w1 = w_log w @ [Acquire t] \<and> w_now w1 = w_now w \<and> w_curTick w1 = w_curTick w"

lemma prepare_transaction_total:
  assumes lib: "tlm_lib_ok (se_tlm E)" and ok: "port_ok n H w" and rw: "readOrWrite E (w_pkt w packet)"
  obtains t w1 where "prepare_transaction E packet k w = Inr (t, w1)"
    and "prepared (se_gem5 E) H packet k w t w1" and "port_ok n (H(t \<mapsto> k)) w1"
proof -
  obtain live where live: "pool_ok live (w_pool w)" "dom H \<subseteq> live"
      "\<And>ty k u. blocking (helper w) ty k = Some u \<Longrightarrow> u \<in> live"
    using port_okD(2) [OF ok] unfolding pool_owns_def by blast
  obtain t pool where a: "allocate (se_tlm E) (w_pool w) = (t, pool)" by (cases "allocate (se_tlm E) (w_pool w)")
  note fresh = allocate_fresh_and_ok [OF lib live(1) a]
  then have "gp_has_mm (cells (snd pool) t)" by (simp add: clean_payload_def)
  then obtain q where q: "packet2payload (se_gem5 E) (w_pkt w packet) (cells (snd pool) t) = Inr q"
      "describes (se_gem5 E) packet (w_pkt w packet) k (q\<lparr>gp_extension := Some (setCoreID k (Gem5Extension packet))\<rparr>)"
    using rw by (elim packet2payload_total [of _ "se_gem5 E" "w_pkt w packet"])
      (auto simp: describes_def ext_defs)
  define w1 where "w1 = set_gp t (q\<lparr>gp_extension := Some (setCoreID k (Gem5Extension packet))\<rparr>)
      (acquire t (w\<lparr>w_pool := pool\<rparr>))"
  have p: "prepare_transaction E packet k w = Inr (t, w1)"
    using a q(1) by (simp add: prepare_transaction_def acquire_def frame_simps gp_def w1_def)
  have absent: "blocking (helper w) ty j \<noteq> Some t" for ty j using live(3) fresh by blast
  have "prepared (se_gem5 E) H packet k w t w1"
    using prepare_transaction_ok(1,2) [OF lib ok p] absent q(2)
    by (simp add: prepared_def w1_def frame_simps acquire_def)
  then show thesis by (rule that [OF p _ prepare_transaction_ok(3) [OF lib ok p]])
qed

lemma prepare_transaction_others:
  assumes "prepare_transaction E packet k w = Inr (t, w1)" and "u \<noteq> t"
  shows "gp w1 u = gp w u"
  using assms allocate_cells [of "se_tlm E" "w_pool w" t]
  by (auto simp: prepare_transaction_def gp_def set_gp_def acquire_def frame_simps res_simps split: prod.splits)

text \<open>
  A free request up to the target's answer: the transaction is prepared and sent once. The lemma is
  shared by the property below and by the composition with a router.
\<close>

lemma free_request_reaches_target:
  assumes tlm: "tlm_lib_ok L"
    and ok: "port_ok n H w" and adm: "admissible (passive_env L G a) packet w"
    and k: "k = target_socket_id (w_pkt w packet) (w_port w)" "k < n"
    and free: "blocking (helper w) Request k = None" and tm: "bound_to tm n (w_port w)"
  obtains t w2 where
      "recvTimingReq (passive_env L G a) packet w = after_begin_req (passive_env L G a) t k
         (a_nb_transport_fw a (Socket_of k) t BEGIN_REQ (pkt_payloadDelay (w_pkt w packet)) w2) w2"
    and "H t = None" "\<forall>ty j. blocking (helper w) ty j \<noteq> Some t"
    and "describes G packet (w_pkt w packet) k (gp w2 t)" "\<forall>u. u \<noteq> t \<longrightarrow> gp w2 u = gp w u"
    and "port_ok n (H(t \<mapsto> k)) w2"
    and "w_port w2 = w_port w" "w_events w2 = w_events w" "w_now w2 = w_now w" "w_curTick w2 = w_curTick w"
    and "w_log w2 = w_log w @ [Acquire t, Nb_transport_fw (Socket_of k) t BEGIN_REQ (pkt_payloadDelay (w_pkt w packet))]"
    and "pkt_payloadDelay (w_pkt w2 packet) = 0" "pkt_headerDelay (w_pkt w2 packet) = 0"
proof -
  let ?E = "passive_env L G a"
  have lib: "tlm_lib_ok (se_tlm ?E)" using tlm by (simp add: calm_calls)
  have rw: "readOrWrite ?E (w_pkt w packet)" using adm by (simp add: admissible_def)
  obtain t w1 where p: "prepare_transaction ?E packet k w = Inr (t, w1)" "prepared G H packet k w t w1"
      "port_ok n (H(t \<mapsto> k)) w1"
    by (rule prepare_transaction_total [OF lib ok rw, of k, unfolded calm_calls])
  have others: "\<forall>u. u \<noteq> t \<longrightarrow> gp w1 u = gp w u"
    using prepare_transaction_others [OF p(1)] by blast
  define d where "d = pkt_payloadDelay (w_pkt w packet)"
  define w2 where "w2 = note_call (Nb_transport_fw (Socket_of k) t BEGIN_REQ d) (snd (take_delay packet w1))"
  have ok2: "port_ok n (H(t \<mapsto> k)) w2"
    using p(3) port_ok_cong [of w2 w1] by (simp add: w2_def frame_simps)
  have "recvTimingReq ?E packet w = after_begin_req ?E t k
      (a_nb_transport_fw a (Socket_of k) t BEGIN_REQ d w2) w2"
    using port_ok_recvTimingReq [OF ok adm k] free p bound_select [OF tm k(2)]
    by (simp add: prepared_def calm_calls take_delay_def frame_simps w2_def d_def)
  then show thesis
    using p(2) others ok2
    by (intro that [of t w2])
      (simp_all add: prepared_def w2_def d_def frame_simps take_delay_def set_pkt_def gp_def)
qed

lemma port_blocks_request:
  assumes "port_ok n (H(t \<mapsto> k)) w" and "H t = None" and "k < n"
  obtains h where "updateBlockingMap k (Some t) Request (helper w) = Inr h"
    and "blocking h = (blocking (helper w))(Request := (blocking (helper w) Request)(k := Some t))"
    and "port_ok n H (set_helper h w)"
proof -
  obtain h where h: "updateBlockingMap k (Some t) Request (helper w) = Inr h"
      "blocking h = (blocking (helper w))(Request := (blocking (helper w) Request)(k := Some t))"
    using helper_ok_put [OF port_ok_not_cache(6) [OF assms(1)] less_imp_le [OF assms(3)], of "Some t" Request] by blast
  have "port_ok n ((H(t \<mapsto> k))(t := None)) (set_helper h w)"
    using port_ok_block [OF assms(1) _ assms(3) h(1)] by simp
  then have "port_ok n H (set_helper h w)" using assms(2) by (simp add: fun_upd_idem)
  with h show thesis by (rule that)
qed

section \<open>Properties\<close>

definition legal_answer :: "tlm_sync_enum \<Rightarrow> tlm_phase \<Rightarrow> bool" where
  "legal_answer st ph = (case st of TLM_ACCEPTED \<Rightarrow> ph = BEGIN_REQ
     | TLM_UPDATED \<Rightarrow> ph = END_REQ \<or> ph = BEGIN_RESP | TLM_COMPLETED \<Rightarrow> ph = END_RESP)"

text \<open>
  C22: what an admissible request for a free socket does, on every legal answer of the target. A
  transaction that nobody uses is acquired, described by the packet and sent once, on the packet's
  socket, with the packet's payload delay; both delays of the packet are then zero. The comment at
  \<open>sc_slave_port.cc\<close>, lines 274-289, documents the contrary, that the header delay is paid and the payload delay dropped:
  the theorem follows the code. \<open>TLM_ACCEPTED\<close> blocks exactly that socket's request
  channel; \<open>TLM_UPDATED\<close> schedules the answered phase after the answered delay; \<open>TLM_COMPLETED\<close>
  releases the transaction.
\<close>

theorem free_request_is_sent:
  assumes tlm: "tlm_lib_ok L"
    and ok: "port_ok n H w" and adm: "admissible (passive_env L G a) packet w"
    and k: "k = target_socket_id (w_pkt w packet) (w_port w)" "k < n"
    and free: "blocking (helper w) Request k = None" and tm: "bound_to tm n (w_port w)"
    and answer: "a_nb_transport_fw a = (\<lambda>s t ph d w. (st, ph', d'))" "legal_answer st ph'"
  shows "\<exists>t w'. recvTimingReq (passive_env L G a) packet w = Inr (True, w')
     \<and> H t = None \<and> (\<forall>ty j. blocking (helper w) ty j \<noteq> Some t)
     \<and> w_log w' = w_log w @ [Acquire t, Nb_transport_fw (Socket_of k) t BEGIN_REQ (pkt_payloadDelay (w_pkt w packet))]
         @ (case st of TLM_ACCEPTED \<Rightarrow> []
            | TLM_UPDATED \<Rightarrow> [Wakeup_event_queue (w_now w + d'), Schedule_event t ph' (w_now w + d')]
            | TLM_COMPLETED \<Rightarrow> [Release t])
     \<and> (st \<noteq> TLM_COMPLETED \<longrightarrow> describes G packet (w_pkt w packet) k (gp w' t))
     \<and> blocking (helper w') = (if st = TLM_ACCEPTED
         then (blocking (helper w))(Request := (blocking (helper w) Request)(k := Some t))
         else blocking (helper w))
     \<and> w_events w' = w_events w @ (if st = TLM_UPDATED then [(w_now w + d', t, ph')] else [])
     \<and> pkt_payloadDelay (w_pkt w' packet) = 0 \<and> pkt_headerDelay (w_pkt w' packet) = 0"
proof -
  obtain t w2 where r: "recvTimingReq (passive_env L G a) packet w = after_begin_req (passive_env L G a) t k (st, ph', d') w2"
    and t: "H t = None" "\<forall>ty j. blocking (helper w) ty j \<noteq> Some t" "describes G packet (w_pkt w packet) k (gp w2 t)"
      "port_ok n (H(t \<mapsto> k)) w2"
    and w2: "w_port w2 = w_port w" "w_events w2 = w_events w" "w_now w2 = w_now w"
      "w_log w2 = w_log w @ [Acquire t, Nb_transport_fw (Socket_of k) t BEGIN_REQ (pkt_payloadDelay (w_pkt w packet))]"
      "pkt_payloadDelay (w_pkt w2 packet) = 0" "pkt_headerDelay (w_pkt w2 packet) = 0"
    by (rule free_request_reaches_target [OF tlm ok adm k free tm, unfolded answer(1)]) blast
  obtain h where "updateBlockingMap k (Some t) Request (helper w) = Inr h"
      "blocking h = (blocking (helper w))(Request := (blocking (helper w) Request)(k := Some t))"
    using port_blocks_request [OF t(4,1) k(2)] w2(1) by metis
  with r t w2 answer(2) port_ok_not_cache(1) [OF ok] show ?thesis
    by (cases st) (auto simp: after_begin_req_def legal_answer_def frame_simps calm_calls
        gp_def [of "PayloadEvent_notify _ _ _ _"] gp_def [symmetric])
qed

lemma demo_bound_to:
  "bound_to demo_tm 2 (w_port demo_idle)" "bound_to demo_tm 2 (w_port (demo_busy a b))"
  by (simp_all add: bound_to_def demo_world_defs demo_tm_def)

theorem free_request_is_sent_witness:
  "\<exists>t w'. recvTimingReq demo_env 0 demo_idle = Inr (True, w')
     \<and> w_log w' = [Acquire t, Nb_transport_fw (Socket_of 1) t BEGIN_REQ 3]
     \<and> blocking (helper w') Request 1 = Some t"
proof -
  have "a_nb_transport_fw demo_answers = (\<lambda>s t ph d w. (TLM_ACCEPTED, BEGIN_REQ, 0))"
    by (simp add: demo_answers_def)
  moreover have "blocking (helper demo_idle) Request 1 = None"
    by (simp add: demo_idle_def demo_blocking)
  moreover have "w_log demo_idle = []" "pkt_payloadDelay (w_pkt demo_idle 0) = 3"
    by (simp_all add: demo_idle_def demo_start_def demo_packet_def)
  ultimately show ?thesis
    using free_request_is_sent [OF demo_tlm_ok demo_idle_ok demo_admissible(2) demo_target(2) [symmetric]
        _ _ demo_bound_to(1), where st = TLM_ACCEPTED and ph' = BEGIN_REQ and d' = 0]
    by (auto simp: legal_answer_def)
qed

section \<open>Responses\<close>

definition packet_of :: "payload \<Rightarrow> ptr" where
  "packet_of p = (case gp_extension p of None \<Rightarrow> 0 | Some e \<Rightarrow> Packet e)"

lemma owned_extension:
  assumes "core_opt (gp w t) = Some k"
  shows "getExtension (gp w t) = Inr \<lparr>Packet = packet_of (gp w t), coreId = Some k\<rparr>"
proof -
  obtain e where e: "gp_extension (gp w t) = Some e" "coreId e = Some k"
    using assms by (auto simp: core_opt_def split: option.splits)
  then have "e = \<lparr>Packet = packet_of (gp w t), coreId = Some k\<rparr>" by (cases e) (simp add: packet_of_def)
  with e(1) show ?thesis by (simp add: getExtension_def)
qed

text \<open>gem5 has taken the response: the target is told and the transaction released.\<close>

lemma finish_transaction_trace:
  assumes "bound_to tm n (w_port w)" and "k < n"
  obtains w' where "finish_transaction (passive_env L G a) t k w = Inr w'"
    and "w_log w' = w_log w @ [Nb_transport_fw (Socket_of k) t END_RESP 0, Release t]"
    and "w_port w' = w_port w" and "w_pkt w' = w_pkt w" and "\<forall>u. u \<noteq> t \<longrightarrow> gp w' u = gp w u"
    and "w_curTick w' = w_curTick w" "w_now w' = w_now w" "w_events w' = w_events w"
  using bound_select [OF assms]
  by (simp add: finish_transaction_def calm_calls frame_simps calm_release_gp)

lemma offer_response_trace:
  assumes "gem5_lib_ok G" and "g_needsResponse G (pkt_cmd (w_pkt w i))"
    and "a_sendTimingResp a = (\<lambda>_ _. accept)"
  obtains w' where "offer_response (passive_env L G a) i w = Inr (\<not> accept, w')"
    and "w_log w' = w_log w @ [Send_timing_resp i]" and "w_port w' = w_port w" and "gp w' = gp w"
    and "w_pkt w' i = g_makeResponse G (w_pkt w i)"
  using assms
  by (simp add: offer_response_def respond_if_needed_def calm_calls gem5_lib_ok_def frame_simps set_pkt_def gp_def)

lemma begin_resp_trace:
  assumes lib: "tlm_lib_ok L" "gem5_lib_ok G" and ok: "port_ok n H w" and own: "H t = Some k"
    and now: "w_curTick w = w_now w" and k: "k < n" and tm: "bound_to tm n (w_port w)"
    and free: "blocking (helper w) Response k = None"
    and i: "i = packet_of (gp w t)" "g_needsResponse G (pkt_cmd (w_pkt w i))"
    and accept: "a_sendTimingResp a = (\<lambda>_ _. accept)"
  shows "\<exists>w'. pec_begin_resp (passive_env L G a) t w = Inr w' \<and> port_ok n (H(t := None)) w'
     \<and> w_log w' = w_log w @ Send_timing_resp i #
         (if accept then [Nb_transport_fw (Socket_of k) t END_RESP 0, Release t] else [])
     \<and> w_pkt w' i = g_makeResponse G (w_pkt w i)
     \<and> blocking (helper w') = (if accept then blocking (helper w)
         else (blocking (helper w))(Response := (blocking (helper w) Response)(k := Some t)))"
proof -
  let ?E = "passive_env L G a"
  note nc = port_ok_not_cache [OF ok]
  obtain w1 where w1: "offer_response ?E i w = Inr (\<not> accept, w1)"
      "w_log w1 = w_log w @ [Send_timing_resp i]" "w_port w1 = w_port w" "gp w1 = gp w"
      "w_pkt w1 i = g_makeResponse G (w_pkt w i)"
    by (rule offer_response_trace [OF lib(2) i(2) accept])
  have r: "pec_begin_resp ?E t w = (if accept then finish_transaction ?E t k w1 else hold_response t k w1)"
    using now owned_extension [OF port_ok_owned [OF ok own]] helper_ok_get [OF nc(6) k] free nc(1) w1(1) i(1)
    by (simp add: pec_begin_resp_def getPacket_def getCoreID_def)
  have keeps: "port_ok n (H(t := None)) w'" if "pec_begin_resp ?E t w = Inr w'" for w'
    using slave_rely.pec_begin_resp_keeps [OF passive_env_rely [OF lib(1), unfolded env_rely_iff] ok own that] .
  show ?thesis
  proof (cases accept)
    case True
    have tm1: "bound_to tm n (w_port w1)" using tm w1(3) by simp
    obtain w' where "finish_transaction ?E t k w1 = Inr w'"
        "w_log w' = w_log w1 @ [Nb_transport_fw (Socket_of k) t END_RESP 0, Release t]"
        "w_port w' = w_port w1" "w_pkt w' = w_pkt w1"
      using finish_transaction_trace [OF tm1 k, of L G a t thesis] by blast
    with True r w1 keeps show ?thesis by simp
  next
    case False
    obtain h where h: "updateBlockingMap k (Some t) Response (helper w) = Inr h"
        "blocking h = (blocking (helper w))(Response := (blocking (helper w) Response)(k := Some t))"
      using helper_ok_put [OF nc(6) less_imp_le [OF k], of "Some t" Response] by blast
    then have "pec_begin_resp ?E t w = Inr (set_helper h w1)"
      using False r w1(3) nc(1) by (simp add: hold_response_def)
    with False h keeps w1 show ?thesis by (simp add: frame_simps)
  qed
qed

text \<open>
  C23: a response for a transaction in flight, or for one whose request has not been ended (which it
  then ends, with the retry that is owed), makes the event return. If gem5 takes the response the
  target gets \<open>END_RESP\<close> on the transaction's socket and the transaction is released, in this order;
  if not, the transaction blocks its socket's response channel and nothing else is called. The packet
  has become a response either way.
\<close>

theorem response_delivered_or_held:
  assumes lib: "tlm_lib_ok L" "gem5_lib_ok G" and ok: "port_ok n H w"
    and own: "H t = Some k \<or> blocking (helper w) Request k = Some t"
    and now: "w_curTick w = w_now w" and k: "k < n" and tm: "bound_to tm n (w_port w)"
    and free: "blocking (helper w) Response k = None"
    and i: "i = packet_of (gp w t)" "g_needsResponse G (pkt_cmd (w_pkt w i))"
    and accept: "a_sendTimingResp a = (\<lambda>_ _. accept)"
  shows "\<exists>w'. pec (passive_env L G a) t BEGIN_RESP w = Inr w' \<and> port_ok n (H(t := None)) w'
     \<and> w_log w' = w_log w
         @ (if H t = None \<and> owed (helper w) k then [Send_retry_req] else [])
         @ [Send_timing_resp i]
         @ (if accept then [Nb_transport_fw (Socket_of k) t END_RESP 0, Release t] else [])
     \<and> w_pkt w' i = g_makeResponse G (w_pkt w i)
     \<and> blocking (helper w') Response k = (if accept then None else Some t)
     \<and> (H t = None \<longrightarrow> blocking (helper w') Request k = None)"
proof (cases "H t")
  case (Some j)
  let ?E = "passive_env L G a"
  have absent: "blocking (helper w) Request x \<noteq> Some t" for x
    using port_ok_blocking(3) [OF ok] Some by fastforce
  then have own': "H t = Some k" using own by blast
  have "\<not> isBlockingTrans (Some t) Request (helper w)"
    using absent isBlockingTrans_Some [OF port_ok_not_cache(6) [OF ok]] by blast
  then have "pec ?E t BEGIN_RESP w = pec_begin_resp ?E t w"
    using port_ok_not_cache(2) [OF ok] by (simp add: pec_def)
  with begin_resp_trace [OF lib ok own' now k tm free i accept] free Some show ?thesis by auto
next
  case None
  let ?E = "passive_env L G a"
  note nc = port_ok_not_cache [OF ok]
  have b: "blocking (helper w) Request k = Some t" using own None by simp
  obtain h where h: "blocking h = (blocking (helper w))(Request := (blocking (helper w) Request)(k := None))"
      "pec_end_req ?E t w = (if owed (helper w) k then sendRetryReq ?E (set_helper h w) else Inr (set_helper h w))"
    using pec_end_req_effect [OF ok b, of ?E thesis] by blast
  define w1 where "w1 = (if owed (helper w) k then note_call Send_retry_req (set_helper h w) else set_helper h w)"
  have w1: "w_log w1 = w_log w @ (if owed (helper w) k then [Send_retry_req] else [])"
      "w_pkt w1 = w_pkt w" "gp w1 = gp w" "w_curTick w1 = w_curTick w" "w_now w1 = w_now w"
      "w_port w1 = (w_port w)\<lparr>blk_pkt_helper := h\<rparr>"
    by (simp_all add: w1_def sendRetryReq_def passive_env_def frame_simps)
  have e: "pec_end_req ?E t w = Inr w1" using h(2) by (simp add: w1_def)
  obtain k' where "blocking (helper w) Request k' = Some t" "port_ok n (H(t \<mapsto> k')) w1"
    using slave_rely.pec_end_req_keeps [OF passive_env_rely [OF lib(1), unfolded env_rely_iff] ok e] by blast
  moreover from this(1) have "k' = k"
    using port_ok_blocking(2) [OF ok, of Request k' t] port_ok_blocking(2) [OF ok b] by simp
  ultimately have ok1: "port_ok n (H(t \<mapsto> k)) w1" by simp
  have "isBlockingTrans (Some t) Request (helper w)"
    using b isBlockingTrans_Some [OF nc(6)] by blast
  then have p: "pec ?E t BEGIN_RESP w = pec_begin_resp ?E t w1" using e by (simp add: pec_def)
  have "\<exists>w'. pec_begin_resp ?E t w1 = Inr w' \<and> port_ok n ((H(t \<mapsto> k))(t := None)) w'
     \<and> w_log w' = w_log w1 @ Send_timing_resp i #
         (if accept then [Nb_transport_fw (Socket_of k) t END_RESP 0, Release t] else [])
     \<and> w_pkt w' i = g_makeResponse G (w_pkt w1 i)
     \<and> blocking (helper w') = (if accept then blocking (helper w1)
         else (blocking (helper w1))(Response := (blocking (helper w1) Response)(k := Some t)))"
    using now tm free i accept w1 h(1)
    by (intro begin_resp_trace [OF lib ok1 _ _ k, where tm = tm]) (simp_all add: bound_to_def)
  then show ?thesis using p w1 h(1) None free by (auto split: if_splits)
qed

theorem response_delivered_or_held_witness:
  "\<exists>w'. pec demo_env 0 BEGIN_RESP (demo_busy (Some 0) None) = Inr w'
     \<and> w_log w' = [Send_timing_resp 0, Nb_transport_fw (Socket_of 1) 0 END_RESP 0, Release 0]"
proof -
  have ok: "port_ok 2 Map.empty (demo_busy (Some 0) None)" by (rule demo_busy_ok) simp
  have "packet_of (gp (demo_busy (Some 0) None) 0) = 0" "w_log (demo_busy (Some 0) None) = []"
      "g_needsResponse demo_gem5 (pkt_cmd (w_pkt (demo_busy (Some 0) None) 0))"
      "w_curTick (demo_busy (Some 0) None) = w_now (demo_busy (Some 0) None)"
    by (simp_all add: demo_busy_def demo_start_def packet_of_def gp_def demo_txn_def demo_packet_def demo_gem5_def)
  moreover have "\<not> owed (helper (demo_busy (Some 0) None)) 1"
      "blocking (helper (demo_busy (Some 0) None)) Response 1 = None"
    by (simp_all add: demo_busy_def demo_blocking)
  moreover have "a_sendTimingResp demo_answers = (\<lambda>_ _. True)" by (simp add: demo_answers_def)
  ultimately show ?thesis
    using response_delivered_or_held [OF demo_tlm_ok demo_gem5_ok ok disjI2 [OF demo_busy_request] _ _
        demo_bound_to(2), of 0 demo_answers True] by auto
qed

section \<open>The response retry\<close>

definition retry_calls :: "world \<Rightarrow> u32 \<Rightarrow> call list" where
  "retry_calls w k = (case blocking (helper w) Response k of
       None \<Rightarrow> []
     | Some t \<Rightarrow> [Send_timing_resp (packet_of (gp w t)), Nb_transport_fw (Socket_of k) t END_RESP 0, Release t])"

lemma concat_map_first:
  assumes "sorted_wrt (<) ks" and "k \<in> set ks" and "\<And>j. j < k \<Longrightarrow> f j = []"
  shows "concat (map f ks) = f (k :: 'a::linorder) @ concat (map (f(k := [])) ks)"
  using assms
proof (induction ks)
  case (Cons x ks)
  show ?case
  proof (cases "x = k")
    case True
    with Cons.prems(1) have "concat (map (f(k := [])) ks) = concat (map f ks)"
      by (intro arg_cong [of _ _ concat] map_cong) auto
    with True show ?thesis by (simp only: list.map concat.simps fun_upd_same append_Nil)
  next
    case False
    with Cons show ?thesis by (auto simp: less_le)
  qed
qed simp

lemma resp_retry_round_trace:
  assumes ok: "port_ok n H w" and t: "blocking (helper w) Response k = Some t"
    and tm: "bound_to tm n (w_port w)" and accept: "a_sendTimingResp a = (\<lambda>_ _. True)"
  obtains w' where "resp_retry_round (passive_env L G a) (Some t) w = Inr w'"
    and "w_log w' = w_log w @ retry_calls w k" and "bound_to tm n (w_port w')"
    and "blocking (helper w') = (blocking (helper w))(Response := (blocking (helper w) Response)(k := None))"
    and "\<forall>u. u \<noteq> t \<longrightarrow> gp w' u = gp w u"
    and "w_events w' = w_events w" "w_now w' = w_now w" "w_curTick w' = w_curTick w"
proof -
  let ?E = "passive_env L G a" and ?i = "packet_of (gp w t)"
  note nc = port_ok_not_cache [OF ok]
  note own = port_ok_blocking [OF ok t]
  obtain h where h: "updateBlockingMap k None Response (helper w) = Inr h"
      "blocking h = (blocking (helper w))(Response := (blocking (helper w) Response)(k := None))"
    using helper_ok_put [OF nc(6) less_imp_le [OF own(1)], of None Response] by blast
  define w1 where "w1 = note_call (Send_timing_resp ?i) (set_helper h w)"
  have r: "resp_retry_round ?E (Some t) w = finish_transaction ?E t k w1"
    using nc(3) owned_extension [OF own(2)] h(1) accept
    by (simp add: resp_retry_round_def getPacket_def getCoreID_def calm_calls w1_def)
  have tm1: "bound_to tm n (w_port w1)" using tm by (simp add: w1_def frame_simps bound_to_def)
  obtain w' where "finish_transaction ?E t k w1 = Inr w'"
      "w_log w' = w_log w1 @ [Nb_transport_fw (Socket_of k) t END_RESP 0, Release t]"
      "w_port w' = w_port w1" "\<forall>u. u \<noteq> t \<longrightarrow> gp w' u = gp w1 u"
      "w_events w' = w_events w1" "w_now w' = w_now w1" "w_curTick w' = w_curTick w1"
    using finish_transaction_trace [OF tm1 own(1), of L G a t thesis] by blast
  with r h t tm1 show thesis
    by (intro that [of w']) (simp_all add: w1_def frame_simps retry_calls_def)
qed

lemma retry_calls_after:
  assumes ok: "port_ok n H w" and t: "blocking (helper w) Response k = Some t"
    and w': "blocking (helper w') = (blocking (helper w))(Response := (blocking (helper w) Response)(k := None))"
      "\<forall>u. u \<noteq> t \<longrightarrow> gp w' u = gp w u"
  shows "retry_calls w' = (retry_calls w)(k := [])"
proof (rule ext)
  fix j
  have "u \<noteq> t" if "j \<noteq> k" "blocking (helper w) Response j = Some u" for u
    using port_ok_blocking(2) [OF ok that(2)] port_ok_blocking(2) [OF ok t] that(1) by auto
  then show "retry_calls w' j = ((retry_calls w)(k := [])) j"
    using w' by (auto simp: retry_calls_def split: option.split)
qed

lemma resp_retry_loop_drains:
  assumes lib: "tlm_lib_ok L" and ok: "port_ok n H w" and tm: "bound_to tm n (w_port w)"
    and accept: "a_sendTimingResp a = (\<lambda>_ _. True)"
    and m: "length (filter (\<lambda>k. blocking (helper w) Response k \<noteq> None) (sockets_upto n)) \<le> m"
  shows "\<exists>w'. resp_retry_loop (passive_env L G a) m (getBlockingResponse (helper w)) w = Inr w'
    \<and> (\<forall>k. blocking (helper w') Response k = None)
    \<and> blocking (helper w') Request = blocking (helper w) Request
    \<and> w_log w' = w_log w @ concat (map (retry_calls w) (sockets_upto n))"
  using ok tm m
proof (induction m arbitrary: w)
  case (0 w)
  note nc = port_ok_not_cache [OF 0(1)]
  have none: "blocking (helper w) Response k = None" for k
  proof (rule ccontr)
    assume "blocking (helper w) Response k \<noteq> None"
    moreover from this have "k \<in> set (sockets_upto n)"
      using blocking_in_range [OF nc(6)] by (auto simp: set_sockets_upto)
    ultimately show False using 0(3) by (auto simp: filter_empty_conv)
  qed
  have "concat (map (retry_calls w) (sockets_upto n)) = []" by (simp add: retry_calls_def none)
  then show ?case using none nc(3) getBlockingResponse_None [OF nc(6)] by simp
next
  case (Suc m w)
  note nc = port_ok_not_cache [OF Suc.prems(1)]
  show ?case
  proof (cases "getBlockingResponse (helper w)")
    case None
    then have "blocking (helper w) Response k = None" for k
      using getBlockingResponse_None [OF nc(6)] by blast
    then have "concat (map (retry_calls w) (sockets_upto n)) = []" by (simp add: retry_calls_def)
    with None nc(3) show ?thesis using getBlockingResponse_None [OF nc(6)] by simp
  next
    case (Some t)
    then obtain k where k: "k \<le> n" "blocking (helper w) Response k = Some t"
        "\<forall>j < k. blocking (helper w) Response j = None"
      using getBlockingResponse_Some [OF nc(6)] by blast
    obtain w1 where w1: "resp_retry_round (passive_env L G a) (Some t) w = Inr w1"
        "w_log w1 = w_log w @ retry_calls w k" "bound_to tm n (w_port w1)"
        "blocking (helper w1) = (blocking (helper w))(Response := (blocking (helper w) Response)(k := None))"
        "\<forall>u. u \<noteq> t \<longrightarrow> gp w1 u = gp w u"
      by (rule resp_retry_round_trace [OF Suc.prems(1) k(2) Suc.prems(2) accept])
    have ok1: "port_ok n H w1"
      using slave_rely.resp_retry_round_keeps [OF passive_env_rely [OF lib, unfolded env_rely_iff]
          Suc.prems(1) k(2) w1(1)] .
    have mem: "k \<in> set (sockets_upto n)" using k(1) by (simp add: set_sockets_upto)
    let ?P = "\<lambda>j. blocking (helper w) Response j \<noteq> None"
    have "filter (\<lambda>j. blocking (helper w1) Response j \<noteq> None) (sockets_upto n)
        = filter (\<lambda>j. j \<noteq> k) (filter ?P (sockets_upto n))"
      by (auto simp: w1(4) intro: filter_cong)
    moreover have "length (filter (\<lambda>j. j \<noteq> k) (filter ?P (sockets_upto n))) < length (filter ?P (sockets_upto n))"
      using mem k(2) by (intro length_filter_less [of k]) auto
    ultimately have "length (filter (\<lambda>j. blocking (helper w1) Response j \<noteq> None) (sockets_upto n)) \<le> m"
      using Suc.prems(3) by simp
    from Suc.IH [OF ok1 w1(3) this] obtain w' where
      w': "resp_retry_loop (passive_env L G a) m (getBlockingResponse (helper w1)) w1 = Inr w'"
        "\<forall>k. blocking (helper w') Response k = None" "blocking (helper w') Request = blocking (helper w1) Request"
        "w_log w' = w_log w1 @ concat (map (retry_calls w1) (sockets_upto n))" by blast
    have "concat (map (retry_calls w) (sockets_upto n)) =
        retry_calls w k @ concat (map (retry_calls w1) (sockets_upto n))"
      unfolding retry_calls_after [OF Suc.prems(1) k(2) w1(4,5)] using k(3) mem
      by (intro concat_map_first [OF sorted_sockets_upto]) (auto simp: retry_calls_def)
    then show ?thesis
      using Some w1 w' by (auto simp del: resp_retry_loop.simps
          simp: resp_retry_loop.simps [of "passive_env L G a" "Suc m"])
  qed
qed

text \<open>What draining leaves alone: the scheduled events, the clocks, the binding and every other payload.\<close>

lemma resp_retry_loop_frame:
  assumes lib: "tlm_lib_ok L" and ok: "port_ok n H w" and tm: "bound_to tm n (w_port w)"
    and accept: "a_sendTimingResp a = (\<lambda>_ _. True)"
    and r: "resp_retry_loop (passive_env L G a) m (getBlockingResponse (helper w)) w = Inr w'"
  shows "bound_to tm n (w_port w') \<and> w_events w' = w_events w \<and> w_now w' = w_now w \<and> w_curTick w' = w_curTick w
    \<and> (\<forall>u. (\<forall>k. blocking (helper w) Response k \<noteq> Some u) \<longrightarrow> gp w' u = gp w u)"
  using ok tm r
proof (induction m arbitrary: w)
  case (0 w)
  then show ?case by (auto split: if_splits)
next
  case (Suc m w)
  note nc = port_ok_not_cache [OF Suc.prems(1)]
  show ?case
  proof (cases "getBlockingResponse (helper w)")
    case None
    with nc(3) Suc.prems show ?thesis by auto
  next
    case (Some t)
    then obtain k where k: "blocking (helper w) Response k = Some t"
      using getBlockingResponse_Some [OF nc(6)] by blast
    obtain w1 where w1: "resp_retry_round (passive_env L G a) (Some t) w = Inr w1" "bound_to tm n (w_port w1)"
        "blocking (helper w1) = (blocking (helper w))(Response := (blocking (helper w) Response)(k := None))"
        "\<forall>u. u \<noteq> t \<longrightarrow> gp w1 u = gp w u"
        "w_events w1 = w_events w" "w_now w1 = w_now w" "w_curTick w1 = w_curTick w"
      by (rule resp_retry_round_trace [OF Suc.prems(1) k Suc.prems(2) accept])
    have ok1: "port_ok n H w1"
      using slave_rely.resp_retry_round_keeps [OF passive_env_rely [OF lib, unfolded env_rely_iff]
          Suc.prems(1) k w1(1)] .
    have "resp_retry_loop (passive_env L G a) m (getBlockingResponse (helper w1)) w1 = Inr w'"
      using Suc.prems(3) Some w1(1) by (simp del: resp_retry_loop.simps
          add: resp_retry_loop.simps [of "passive_env L G a" "Suc m"])
    from Suc.IH [OF ok1 w1(2) this] show ?thesis using w1 k by auto
  qed
qed

text \<open>
  C24: when gem5 takes the held responses, \<open>recvRespRetry\<close> terminates within one round per entry of the
  helper's table and drains it: every held response is offered, its target told and its transaction
  released, socket by socket in ascending order, and no response channel is blocked any more. The
  request channels stay as they are.
\<close>

theorem recvRespRetry_drains:
  assumes "tlm_lib_ok L" and "port_ok n H w" and "bound_to tm n (w_port w)"
    and "w_curTick w = w_now w" and "a_sendTimingResp a = (\<lambda>_ _. True)" and "Suc (unat n) \<le> rounds"
  shows "\<exists>w'. recvRespRetry (passive_env L G a) rounds w = Inr w'
    \<and> (\<forall>k. blocking (helper w') Response k = None)
    \<and> blocking (helper w') Request = blocking (helper w) Request
    \<and> w_log w' = w_log w @ concat (map (retry_calls w) (sockets_upto n))"
proof -
  have "length (sockets_upto n) \<le> rounds" using assms(6) by (simp add: sockets_upto_def)
  then have "length (filter (\<lambda>k. blocking (helper w) Response k \<noteq> None) (sockets_upto n)) \<le> rounds"
    using length_filter_le order.trans by blast
  from resp_retry_loop_drains [OF assms(1,2,3,5) this] assms(4) show ?thesis
    by (simp add: recvRespRetry_def)
qed

theorem recvRespRetry_drains_witness:
  "\<exists>w'. recvRespRetry demo_env 3 (demo_busy None (Some 0)) = Inr w'
     \<and> blocking (helper w') Response 1 = None
     \<and> w_log w' = [Send_timing_resp 0, Nb_transport_fw (Socket_of 1) 0 END_RESP 0, Release 0]"
proof -
  have ok: "port_ok 2 Map.empty (demo_busy None (Some 0))" by (rule demo_busy_ok) simp
  have "w_curTick (demo_busy None (Some 0)) = w_now (demo_busy None (Some 0))"
      "w_log (demo_busy None (Some 0)) = []" "a_sendTimingResp demo_answers = (\<lambda>_ _. True)"
    by (simp_all add: demo_busy_def demo_start_def demo_answers_def)
  moreover have "concat (map (retry_calls (demo_busy None (Some 0))) (sockets_upto 2))
      = [Send_timing_resp 0, Nb_transport_fw (Socket_of 1) 0 END_RESP 0, Release 0]"
    by (simp add: sockets_upto_2 retry_calls_def demo_busy_def demo_blocking packet_of_def gp_def demo_txn_def)
  ultimately show ?thesis
    using recvRespRetry_drains [OF demo_tlm_ok ok demo_bound_to(2), of demo_answers 3] by auto
qed

section \<open>Atomic accesses\<close>

text \<open>
  An admissible atomic access on a bound port returns, and is self-contained: a transaction that
  nobody uses is acquired, sent through the requestor's socket (unless the command only
  invalidates), the packet becomes its response where gem5 needs one, and the transaction is
  released - the port, its tables and the ownership of transactions are exactly what they were.
\<close>

theorem atomic_access_is_balanced:
  assumes lib: "tlm_lib_ok L" and ok: "port_ok n H w" and adm: "admissible (passive_env L G a) packet w"
    and swap: "pkt_cmd (w_pkt w packet) \<noteq> SwapReq"
    and k: "k = getSocketId (pkt_requestorId (w_pkt w packet)) (w_port w)" "k < n"
    and tm: "bound_to tm n (w_port w)"
  shows "\<exists>t delay w'. recvAtomic (passive_env L G a) packet w = Inr (delay, w')
     \<and> H t = None \<and> (\<forall>ty j. blocking (helper w) ty j \<noteq> Some t)
     \<and> w_log w' = w_log w @ Acquire t #
         (if g_isRead G (pkt_cmd (w_pkt w packet)) \<or> \<not> g_isInvalidate G (pkt_cmd (w_pkt w packet))
          then [B_transport (Socket_of k) t 0] else []) @ [Release t]
     \<and> w_port w' = w_port w \<and> port_ok n H w'
     \<and> w_pkt w' = (w_pkt w)(packet := (if g_needsResponse G (pkt_cmd (w_pkt w packet))
         then g_makeResponse G (w_pkt w packet) else w_pkt w packet))"
proof -
  let ?E = "passive_env L G a"
  have lib': "tlm_lib_ok (se_tlm ?E)" using lib by (simp add: calm_calls)
  have rw: "readOrWrite ?E (w_pkt w packet)" using adm by (simp add: admissible_def)
  obtain t w1 where p: "prepare_transaction ?E packet k w = Inr (t, w1)" "prepared G H packet k w t w1"
    by (rule prepare_transaction_total [OF lib' ok rw, of k, unfolded calm_calls])
  obtain delay w2 where w2: "recvAtomic ?E packet w = Inr (delay, release ?E t (respond_if_needed ?E packet w2))"
      "w2 = w1 \<or> w2 = note_call (B_transport (Socket_of k) t 0) w1"
      "w2 = w1 \<longleftrightarrow> \<not> (g_isRead G (pkt_cmd (w_pkt w packet)) \<or> \<not> g_isInvalidate G (pkt_cmd (w_pkt w packet)))"
  proof (cases "g_isRead G (pkt_cmd (w_pkt w packet)) \<or> \<not> g_isInvalidate G (pkt_cmd (w_pkt w packet))")
    case True
    then have "recvAtomic ?E packet w = Inr (a_b_transport a (Socket_of k) t 0
          (note_call (B_transport (Socket_of k) t 0) w1),
        release ?E t (respond_if_needed ?E packet (note_call (B_transport (Socket_of k) t 0) w1)))"
      using adm swap p bound_select [OF tm k(2)]
      by (auto simp: recvAtomic_def admissible_def Let_def k(1) [symmetric] calm_calls prepared_def)
    moreover have "note_call (B_transport (Socket_of k) t 0) w1 \<noteq> w1"
      by (metis append_self_conv list.distinct(1) note_call_frame(7))
    ultimately show thesis using that True by blast
  next
    case False
    then have "recvAtomic ?E packet w = Inr (0, release ?E t (respond_if_needed ?E packet w1))"
      using adm swap p
      by (auto simp: recvAtomic_def admissible_def Let_def k(1) [symmetric] calm_calls)
    then show thesis using that False by blast
  qed
  define w' where "w' = release ?E t (respond_if_needed ?E packet w2)"
  have "port_ok n H w'"
    using slave_rely.recvAtomic_keeps [OF passive_env_rely [OF lib, unfolded env_rely_iff] ok w2(1)]
    by (simp add: w'_def)
  moreover have "w_log w' = w_log w @ Acquire t #
         (if g_isRead G (pkt_cmd (w_pkt w packet)) \<or> \<not> g_isInvalidate G (pkt_cmd (w_pkt w packet))
          then [B_transport (Socket_of k) t 0] else []) @ [Release t]"
    using w2(2,3) p(2) by (auto simp: w'_def prepared_def frame_simps)
  moreover have "w_port w2 = w_port w" "w_pkt w2 = w_pkt w"
    using w2(2) p(2) by (auto simp: prepared_def frame_simps)
  then have "w_port w' = w_port w" "w_pkt w' = (w_pkt w)(packet := (if g_needsResponse G (pkt_cmd (w_pkt w packet))
         then g_makeResponse G (w_pkt w packet) else w_pkt w packet))"
    by (auto simp: w'_def frame_simps respond_if_needed_def calm_calls set_pkt_def)
  ultimately show ?thesis using w2(1) p(2) unfolding w'_def prepared_def by blast
qed

theorem atomic_access_is_balanced_witness:
  "\<exists>t delay w'. recvAtomic demo_env 0 demo_idle = Inr (delay, w')
     \<and> w_log w' = [Acquire t, B_transport (Socket_of 1) t 0, Release t]"
proof -
  have "getSocketId (pkt_requestorId (w_pkt demo_idle 0)) (w_port demo_idle) = 1"
      "pkt_cmd (w_pkt demo_idle 0) = ReadReq" "w_log demo_idle = []" "g_isRead demo_gem5 ReadReq"
    by (simp_all add: getSocketId_def demo_world_defs demo_packet_def demo_gem5_def)
  then show ?thesis
    using atomic_access_is_balanced [OF demo_tlm_ok demo_idle_ok demo_admissible(2), of 1 demo_tm] demo_bound_to(1)
    by auto
qed

end
