(* ===== verification/Txn_Router.thy ===== *)
theory Txn_Router
  imports Tlm_Gem5
begin

text \<open>
  \<open>TxnRouter\<close> of \<open>txn_router.h\<close>: a target between a slave port and the memory. It accepts one request at a
  time, keeps the end of one further request pending, forwards the accepted one to memory after a
  fixed latency and answers with a response.

  The \<open>rworld\<close> holds the router, the payloads and the log of calls. \<open>target_done\<close> says whether a
  notification of \<open>target_done_event\<close> is outstanding. What the initiator, the memory and the bus do in
  a call is the environment \<open>router_env\<close>. Messages in debug mode are left out.
\<close>

section \<open>State\<close>

datatype rcall =
    R_acquire ptr
  | R_release ptr
  | R_peq_notify ptr tlm_phase tick
  | R_nb_transport_bw ptr tlm_phase tick
  | R_notify_done tick
  | R_mem_b_transport ptr tick
  | R_bus_b_transport ptr tick
  | R_bus_transport_dbg ptr

record txn_router =
  transaction_in_progress :: "ptr option"
  response_in_progress :: bool
  next_response_pending :: "ptr option"
  end_req_pending :: "ptr option"
  target_done :: bool
  mem_start_addr :: u64
  mem_size :: u64

record rworld =
  r_router :: txn_router
  r_gp :: "ptr \<Rightarrow> payload"
  r_log :: "rcall list"

record router_env =
  re_nb_transport_bw :: "ptr \<Rightarrow> tlm_phase \<Rightarrow> tick \<Rightarrow> rworld \<Rightarrow> (tlm_sync_enum \<times> tlm_phase \<times> tick) \<times> rworld"
  re_mem_b_transport :: "ptr \<Rightarrow> tick \<Rightarrow> rworld \<Rightarrow> tick \<times> rworld"
  re_bus_b_transport :: "ptr \<Rightarrow> tick \<Rightarrow> rworld \<Rightarrow> (tick \<times> rworld) res"
  re_bus_transport_dbg :: "ptr \<Rightarrow> rworld \<Rightarrow> (u32 \<times> rworld) res"
  re_release :: "ptr \<Rightarrow> rworld \<Rightarrow> rworld"

definition r_note :: "rcall \<Rightarrow> rworld \<Rightarrow> rworld" where
  "r_note c w = w\<lparr>r_log := r_log w @ [c]\<rparr>"

definition r_upd :: "(txn_router \<Rightarrow> txn_router) \<Rightarrow> rworld \<Rightarrow> rworld" where
  "r_upd f w = w\<lparr>r_router := f (r_router w)\<rparr>"

definition r_set_ok :: "ptr \<Rightarrow> rworld \<Rightarrow> rworld" where
  "r_set_ok t w = w\<lparr>r_gp := (r_gp w)(t := (r_gp w t)\<lparr>gp_response_status := TLM_OK_RESPONSE\<rparr>)\<rparr>"

text \<open>The latencies, in picoseconds: \<open>sc_time(10.0, SC_NS)\<close> and \<open>sc_time(15.0, SC_NS)\<close>.\<close>

abbreviation ns10 :: tick where "ns10 \<equiv> 10000"
abbreviation ns15 :: tick where "ns15 \<equiv> 15000"

section \<open>Operations\<close>

definition TxnRouter :: "u64 \<Rightarrow> u64 \<Rightarrow> txn_router" where
  "TxnRouter start len = \<lparr>transaction_in_progress = None, response_in_progress = False,
     next_response_pending = None, end_req_pending = None, target_done = False,
     mem_start_addr = start, mem_size = len\<rparr>"

definition ToMem :: "payload \<Rightarrow> txn_router \<Rightarrow> bool" where
  "ToMem p r =
     (if gp_address p < mem_start_addr r then False
      else if gp_address p \<ge> mem_start_addr r + mem_size r then False
      else True)"

definition r_b_transport :: "router_env \<Rightarrow> ptr \<Rightarrow> tick \<Rightarrow> rworld \<Rightarrow> (tick \<times> rworld) res" where
  "r_b_transport E t delay w =
     (if ToMem (r_gp w t) (r_router w)
      then (case re_mem_b_transport E t delay (r_note (R_mem_b_transport t delay) w) of
              (delay, w) \<Rightarrow> Inr (delay, r_set_ok t w))
      else re_bus_b_transport E t delay (r_note (R_bus_b_transport t delay) w))"

definition r_transport_dbg :: "router_env \<Rightarrow> ptr \<Rightarrow> rworld \<Rightarrow> (u32 \<times> rworld) res" where
  "r_transport_dbg E t w =
     (if ToMem (r_gp w t) (r_router w)
      then re_bus_transport_dbg E t (r_note (R_bus_transport_dbg t) w)
      else Inl (Sc_report_fatal ''TXN_ROUTER'' ''Address out of range. Please check''))"

definition r_nb_transport_fw :: "ptr \<Rightarrow> tlm_phase \<Rightarrow> tick \<Rightarrow> rworld \<Rightarrow> (tlm_sync_enum \<times> rworld) res" where
  "r_nb_transport_fw t phase delay w =
     (if ToMem (r_gp w t) (r_router w)
      then Inr (TLM_ACCEPTED, r_note (R_peq_notify t phase delay) w)
      else Inl (Sc_report_fatal ''name'' ''Address out of range. Please check''))"

definition nb_transport_bw_resp :: "ptr \<Rightarrow> tlm_phase \<Rightarrow> tick \<Rightarrow> rworld \<Rightarrow> tlm_sync_enum \<times> rworld" where
  "nb_transport_bw_resp t phase delay w = (TLM_ACCEPTED, w)"

definition send_response :: "router_env \<Rightarrow> ptr \<Rightarrow> rworld \<Rightarrow> rworld" where
  "send_response E t w =
     (let w = r_upd (\<lambda>r. r\<lparr>response_in_progress := True\<rparr>) w
      in case re_nb_transport_bw E t BEGIN_RESP ns10 (r_note (R_nb_transport_bw t BEGIN_RESP ns10) w) of
           ((status, bw_phase, delay), w) \<Rightarrow>
             let w = (case status of
                        TLM_UPDATED \<Rightarrow> r_note (R_peq_notify t bw_phase delay) w
                      | TLM_COMPLETED \<Rightarrow>
                          r_upd (\<lambda>r. r\<lparr>transaction_in_progress := None, response_in_progress := False\<rparr>) w
                      | TLM_ACCEPTED \<Rightarrow> w)
             in re_release E t (r_note (R_release t) w))"

definition send_end_req :: "router_env \<Rightarrow> ptr \<Rightarrow> rworld \<Rightarrow> rworld res" where
  "send_end_req E t w =
     (case re_nb_transport_bw E t END_REQ ns10 (r_note (R_nb_transport_bw t END_REQ ns10) w) of
        ((status, bw_phase, delay), w) \<Rightarrow>
          let w = r_note (R_notify_done (delay + ns15)) (r_upd (\<lambda>r. r\<lparr>target_done := True\<rparr>) w)
          in if transaction_in_progress (r_router w) \<noteq> None then Inl Assert_failed
             else Inr (r_upd (\<lambda>r. r\<lparr>transaction_in_progress := Some t\<rparr>) w))"

definition peq_cb_begin_req :: "router_env \<Rightarrow> ptr \<Rightarrow> rworld \<Rightarrow> rworld res" where
  "peq_cb_begin_req E t w =
     (let w = r_note (R_acquire t) w
      in if transaction_in_progress (r_router w) = None then send_end_req E t w
         else Inr (r_upd (\<lambda>r. r\<lparr>end_req_pending := Some t\<rparr>) w))"

definition peq_cb_end_resp :: "router_env \<Rightarrow> rworld \<Rightarrow> rworld res" where
  "peq_cb_end_resp E w =
     (if \<not> response_in_progress (r_router w)
      then Inl (Sc_report_fatal ''name'' ''Illegal transaction phase END RESP'')
      else
        let w = r_upd (\<lambda>r. r\<lparr>transaction_in_progress := None, response_in_progress := False\<rparr>) w;
            w = (case next_response_pending (r_router w) of
                   None \<Rightarrow> w
                 | Some u \<Rightarrow> r_upd (\<lambda>r. r\<lparr>next_response_pending := None\<rparr>) (send_response E u w))
        in case end_req_pending (r_router w) of
             None \<Rightarrow> Inr w
           | Some u \<Rightarrow> bindr (send_end_req E u w) (\<lambda>w. Inr (r_upd (\<lambda>r. r\<lparr>end_req_pending := None\<rparr>) w)))"

definition r_peq_cb :: "router_env \<Rightarrow> ptr \<Rightarrow> tlm_phase \<Rightarrow> rworld \<Rightarrow> rworld res" where
  "r_peq_cb E t phase w =
     (if phase = BEGIN_REQ then peq_cb_begin_req E t w
      else if phase = END_RESP then peq_cb_end_resp E w
      else Inl (Sc_report_fatal ''name'' ''Illegal transaction phase''))"

definition execute_transaction :: "router_env \<Rightarrow> ptr \<Rightarrow> rworld \<Rightarrow> rworld" where
  "execute_transaction E t w =
     (case re_mem_b_transport E t ns10 (r_note (R_mem_b_transport t ns10) w) of (_, w) \<Rightarrow> r_set_ok t w)"

text \<open>One turn of the thread \<open>execute_transaction_process\<close>, after \<open>wait(target_done_event)\<close> returned.\<close>

definition execute_transaction_process :: "router_env \<Rightarrow> rworld \<Rightarrow> rworld res" where
  "execute_transaction_process E w =
     (let w = r_upd (\<lambda>r. r\<lparr>target_done := False\<rparr>) w
      in case transaction_in_progress (r_router w) of
           None \<Rightarrow> Inl (Undefined_behaviour ''transaction_in_progress'')
         | Some t \<Rightarrow>
             let w = execute_transaction E t w
             in if response_in_progress (r_router w)
                then if next_response_pending (r_router w) \<noteq> None
                     then Inl (Sc_report_fatal ''TLM-2'' ''Attempt to have two pending responses in target'')
                     else Inr (r_upd (\<lambda>r. r\<lparr>next_response_pending := transaction_in_progress r\<rparr>) w)
                else case transaction_in_progress (r_router w) of
                       None \<Rightarrow> Inl (Undefined_behaviour ''transaction_in_progress'')
                     | Some u \<Rightarrow> Inr (send_response E u w))"

end
