(* ===== verification/Router_Properties.thy ===== *)
theory Router_Properties
  imports Txn_Router
begin

text \<open>
  The properties of the transaction router: which addresses it takes for memory, its life cycle as a
  step relation under the TLM exclusion rule, and what each phase does.
\<close>

section \<open>Frames\<close>

lemma r_frame [frame_simps]:
  "r_router (r_note c w) = r_router w" "r_gp (r_note c w) = r_gp w" "r_log (r_note c w) = r_log w @ [c]"
  "r_router (r_upd f w) = f (r_router w)" "r_gp (r_upd f w) = r_gp w" "r_log (r_upd f w) = r_log w"
  "r_router (r_set_ok t w) = r_router w" "r_log (r_set_ok t w) = r_log w"
  by (simp_all add: r_note_def r_upd_def r_set_ok_def)

text \<open>An initiator that answers every call with one status, and callees that leave the router alone.\<close>

definition answering :: "tlm_sync_enum \<Rightarrow> router_env \<Rightarrow> bool" where
  "answering st E \<longleftrightarrow>
     (\<forall>t ph d w. \<exists>ph' d'. re_nb_transport_bw E t ph d w = ((st, ph', d'), w))
   \<and> (\<forall>t d w. \<exists>d' g. re_mem_b_transport E t d w = (d', w\<lparr>r_gp := g\<rparr>))
   \<and> (\<forall>t w. \<exists>g. re_release E t w = w\<lparr>r_gp := g\<rparr>)"

section \<open>Memory range\<close>

text \<open>
  The address test is the half-open interval it is meant to be exactly when the region ends below
  \<open>2^64\<close>; for a region that reaches the end of the 64-bit address space the sum wraps around and no
  address at all is taken for memory.
\<close>

theorem ToMem_range:
  "ToMem p r \<longleftrightarrow>
     unat (mem_start_addr r) + unat (mem_size r) < 2 ^ 64
   \<and> unat (mem_start_addr r) \<le> unat (gp_address p)
   \<and> unat (gp_address p) < unat (mem_start_addr r) + unat (mem_size r)"
proof (cases "unat (mem_start_addr r) + unat (mem_size r) < 2 ^ 64")
  case True
  then have "unat (mem_start_addr r + mem_size r) = unat (mem_start_addr r) + unat (mem_size r)"
    by (simp add: unat_word_ariths)
  with True show ?thesis by (auto simp: ToMem_def word_le_nat_alt word_less_nat_alt)
next
  case False
  let ?s = "mem_start_addr r" and ?n = "mem_size r"
  have "unat ?n < 2 ^ 64" "unat ?s < 2 ^ 64" using unsigned_less [of ?n] unsigned_less [of ?s] by simp_all
  moreover have "unat (?s + ?n) = (unat ?s + unat ?n) mod 2 ^ 64"
    by (simp add: unat_word_ariths)
  ultimately have "unat (?s + ?n) = unat ?s + unat ?n - 2 ^ 64"
    using False by (simp add: mod_if)
  then have "?s + ?n \<le> ?s" using \<open>unat ?n < 2 ^ 64\<close> by (simp add: word_le_nat_alt)
  then have "\<not> ToMem p r" by (auto simp: ToMem_def not_less)
  with False show ?thesis by blast
qed

section \<open>The life cycle\<close>

text \<open>
  The steps of a router whose initiator keeps the exclusion rule: it does not begin a request while
  one is pending, and ends a response only while one is in progress.
\<close>

inductive router_step :: "router_env \<Rightarrow> rworld \<Rightarrow> rworld \<Rightarrow> bool" for E where
  Begin: "end_req_pending (r_router w) = None \<Longrightarrow> r_peq_cb E t BEGIN_REQ w = Inr w' \<Longrightarrow> router_step E w w'"
| End: "response_in_progress (r_router w) \<Longrightarrow> r_peq_cb E t END_RESP w = Inr w' \<Longrightarrow> router_step E w w'"
| Done: "target_done (r_router w) \<Longrightarrow> execute_transaction_process E w = Inr w' \<Longrightarrow> router_step E w w'"

inductive_cases router_stepE: "router_step E w w'"

text \<open>
  Either idle, or one transaction in progress that is being executed or whose response is in progress.
\<close>

definition router_ok :: "txn_router \<Rightarrow> bool" where
  "router_ok r \<longleftrightarrow>
     next_response_pending r = None
   \<and> (transaction_in_progress r = None \<longrightarrow>
        end_req_pending r = None \<and> \<not> response_in_progress r \<and> \<not> target_done r)
   \<and> (transaction_in_progress r \<noteq> None \<longrightarrow> response_in_progress r \<noteq> target_done r)"

lemma send_end_req_accepted:
  assumes "answering st E" and "transaction_in_progress (r_router w) = None"
  obtains d w' where "send_end_req E t w = Inr w'"
    and "r_router w' = (r_router w)\<lparr>target_done := True, transaction_in_progress := Some t\<rparr>"
    and "r_log w' = r_log w @ [R_nb_transport_bw t END_REQ ns10, R_notify_done (d + ns15)]"
proof -
  obtain ph d where "re_nb_transport_bw E t END_REQ ns10 (r_note (R_nb_transport_bw t END_REQ ns10) w)
      = ((st, ph, d), r_note (R_nb_transport_bw t END_REQ ns10) w)"
    using assms(1) unfolding answering_def by blast
  with assms(2) that show thesis by (simp add: send_end_req_def frame_simps)
qed

lemma send_response_accepted:
  assumes "answering TLM_ACCEPTED E"
  shows "r_router (send_response E t w) = (r_router w)\<lparr>response_in_progress := True\<rparr>"
    "r_log (send_response E t w) = r_log w @ [R_nb_transport_bw t BEGIN_RESP ns10, R_release t]"
proof -
  define w1 where "w1 = r_note (R_nb_transport_bw t BEGIN_RESP ns10) (r_upd (\<lambda>r. r\<lparr>response_in_progress := True\<rparr>) w)"
  obtain ph d where c: "re_nb_transport_bw E t BEGIN_RESP ns10 w1 = ((TLM_ACCEPTED, ph, d), w1)"
    using assms unfolding answering_def by blast
  obtain g where "re_release E t (r_note (R_release t) w1) = (r_note (R_release t) w1)\<lparr>r_gp := g\<rparr>"
    using assms unfolding answering_def by blast
  with c have "send_response E t w = (r_note (R_release t) w1)\<lparr>r_gp := g\<rparr>"
    by (simp add: send_response_def w1_def [symmetric])
  then show "r_router (send_response E t w) = (r_router w)\<lparr>response_in_progress := True\<rparr>"
    "r_log (send_response E t w) = r_log w @ [R_nb_transport_bw t BEGIN_RESP ns10, R_release t]"
    by (simp_all add: w1_def frame_simps)
qed

lemma execute_transaction_frame:
  assumes "answering st E"
  shows "r_router (execute_transaction E t w) = r_router w"
    "r_log (execute_transaction E t w) = r_log w @ [R_mem_b_transport t ns10]"
proof -
  obtain d g where "re_mem_b_transport E t ns10 (r_note (R_mem_b_transport t ns10) w)
      = (d, (r_note (R_mem_b_transport t ns10) w)\<lparr>r_gp := g\<rparr>)"
    using assms unfolding answering_def by blast
  then show "r_router (execute_transaction E t w) = r_router w"
    "r_log (execute_transaction E t w) = r_log w @ [R_mem_b_transport t ns10]"
    by (simp_all add: execute_transaction_def frame_simps)
qed

lemma begin_req_returns:
  assumes "answering st E" and "router_ok (r_router w)"
  shows "\<exists>d w'. r_peq_cb E t BEGIN_REQ w = Inr w'
     \<and> (if transaction_in_progress (r_router w) = None
        then r_router w' = (r_router w)\<lparr>target_done := True, transaction_in_progress := Some t\<rparr>
          \<and> r_log w' = r_log w @ [R_acquire t, R_nb_transport_bw t END_REQ ns10, R_notify_done (d + ns15)]
        else r_router w' = (r_router w)\<lparr>end_req_pending := Some t\<rparr> \<and> r_log w' = r_log w @ [R_acquire t])"
proof (cases "transaction_in_progress (r_router w)")
  case None
  then have "transaction_in_progress (r_router (r_note (R_acquire t) w)) = None" by (simp add: frame_simps)
  then obtain d w' where "send_end_req E t (r_note (R_acquire t) w) = Inr w'"
      "r_router w' = (r_router (r_note (R_acquire t) w))\<lparr>target_done := True, transaction_in_progress := Some t\<rparr>"
      "r_log w' = r_log (r_note (R_acquire t) w) @ [R_nb_transport_bw t END_REQ ns10, R_notify_done (d + ns15)]"
    by (rule send_end_req_accepted [OF assms(1)])
  with None show ?thesis by (auto simp: r_peq_cb_def peq_cb_begin_req_def frame_simps)
next
  case (Some u)
  then show ?thesis by (simp add: r_peq_cb_def peq_cb_begin_req_def frame_simps)
qed

lemma end_resp_returns:
  assumes "answering st E" and "router_ok (r_router w)" and "response_in_progress (r_router w)"
  shows "\<exists>d w'. r_peq_cb E t END_RESP w = Inr w'
     \<and> (case end_req_pending (r_router w) of
          None \<Rightarrow> r_router w' = (r_router w)\<lparr>transaction_in_progress := None, response_in_progress := False\<rparr>
            \<and> r_log w' = r_log w
        | Some u \<Rightarrow> r_router w' = (r_router w)\<lparr>transaction_in_progress := Some u, response_in_progress := False,
              target_done := True, end_req_pending := None\<rparr>
            \<and> r_log w' = r_log w @ [R_nb_transport_bw u END_REQ ns10, R_notify_done (d + ns15)])"
proof -
  define w1 where "w1 = r_upd (\<lambda>r. r\<lparr>transaction_in_progress := None, response_in_progress := False\<rparr>) w"
  have none: "next_response_pending (r_router w) = None" using assms(2) by (simp add: router_ok_def)
  show ?thesis
  proof (cases "end_req_pending (r_router w)")
    case None
    then show ?thesis using assms(3) none by (simp add: r_peq_cb_def peq_cb_end_resp_def frame_simps)
  next
    case (Some u)
    have "transaction_in_progress (r_router w1) = None" by (simp add: w1_def frame_simps)
    then obtain d w2 where w2: "send_end_req E u w1 = Inr w2"
        "r_router w2 = (r_router w1)\<lparr>target_done := True, transaction_in_progress := Some u\<rparr>"
        "r_log w2 = r_log w1 @ [R_nb_transport_bw u END_REQ ns10, R_notify_done (d + ns15)]"
      by (rule send_end_req_accepted [OF assms(1)])
    then have "r_peq_cb E t END_RESP w = Inr (r_upd (\<lambda>r. r\<lparr>end_req_pending := None\<rparr>) w2)"
      using assms(3) none Some by (simp add: r_peq_cb_def peq_cb_end_resp_def frame_simps w1_def Let_def)
    then show ?thesis using w2 Some by (auto simp: frame_simps w1_def)
  qed
qed

lemma done_returns:
  assumes "answering TLM_ACCEPTED E" and "router_ok (r_router w)" and "target_done (r_router w)"
  shows "\<exists>t w'. execute_transaction_process E w = Inr w' \<and> transaction_in_progress (r_router w) = Some t
     \<and> r_router w' = (r_router w)\<lparr>target_done := False, response_in_progress := True\<rparr>
     \<and> r_log w' = r_log w @ [R_mem_b_transport t ns10, R_nb_transport_bw t BEGIN_RESP ns10, R_release t]"
proof -
  obtain t where t: "transaction_in_progress (r_router w) = Some t" "\<not> response_in_progress (r_router w)"
    using assms(2,3) by (cases "transaction_in_progress (r_router w)") (auto simp: router_ok_def)
  then show ?thesis
    by (simp add: execute_transaction_process_def Let_def frame_simps execute_transaction_frame [OF assms(1)]
        send_response_accepted [OF assms(1)])
qed

lemma router_step_keeps:
  assumes "answering TLM_ACCEPTED E" and "router_step E w w'" and "router_ok (r_router w)"
  shows "router_ok (r_router w')"
  using assms(2)
proof (cases rule: router_step.cases)
  case (Begin t)
  then show ?thesis
    using begin_req_returns [OF assms(1,3), of t] assms(3) by (auto simp: router_ok_def split: if_splits)
next
  case (End t)
  then show ?thesis
    using end_resp_returns [OF assms(1,3), of t] assms(3) by (auto simp: router_ok_def split: option.splits)
next
  case Done
  then show ?thesis using done_returns [OF assms(1,3)] assms(3) by (auto simp: router_ok_def)
qed

text \<open>
  C26: a router whose initiator accepts its calls and keeps the exclusion rule never ends the
  simulation. In every state reachable from construction at most one transaction is in progress,
  either executing or with its response in progress, no response is ever queued behind another, and
  each phase the initiator may send next, and the end of the latency, is handled without an
  assertion or a fatal report.
\<close>

theorem router_never_stops:
  assumes E: "answering TLM_ACCEPTED E" and "r_router w0 = TxnRouter start len"
    and reach: "(router_step E)\<^sup>*\<^sup>* w0 w"
  shows "router_ok (r_router w) \<and> returns (r_peq_cb E t BEGIN_REQ w)
     \<and> (response_in_progress (r_router w) \<longrightarrow> returns (r_peq_cb E t END_RESP w))
     \<and> (target_done (r_router w) \<longrightarrow> returns (execute_transaction_process E w))"
proof -
  from reach have ok: "router_ok (r_router w)"
  proof (induction rule: rtranclp_induct)
    case base
    then show ?case using assms(2) by (simp add: router_ok_def TxnRouter_def)
  next
    case (step y z)
    then show ?case using router_step_keeps [OF E] by blast
  qed
  then show ?thesis
    using begin_req_returns [OF E ok, of t] end_resp_returns [OF E ok, of t] done_returns [OF E ok]
    by (auto simp: returns_iff)
qed

definition demo_renv :: "tlm_sync_enum \<Rightarrow> router_env" where
  "demo_renv st = \<lparr>re_nb_transport_bw = (\<lambda>t ph d w. ((st, ph, d), w)), re_mem_b_transport = (\<lambda>t d w. (d, w)),
     re_bus_b_transport = (\<lambda>t d w. Inr (d, w)), re_bus_transport_dbg = (\<lambda>t w. Inr (0, w)), re_release = (\<lambda>t w. w)\<rparr>"

lemma demo_renv_answering: "answering st (demo_renv st)"
  by (auto simp: answering_def demo_renv_def) (metis rworld.surjective rworld.update_convs(2))+

definition demo_rworld :: rworld where
  "demo_rworld = \<lparr>r_router = TxnRouter 4096 1024, r_gp = (\<lambda>_. (tl_new demo_tlm)\<lparr>gp_address := 4100\<rparr>), r_log = []\<rparr>"

theorem router_never_stops_witness:
  "\<exists>w. r_peq_cb (demo_renv TLM_ACCEPTED) 3 BEGIN_REQ demo_rworld = Inr w
     \<and> transaction_in_progress (r_router w) = Some 3 \<and> router_ok (r_router w)
     \<and> returns (execute_transaction_process (demo_renv TLM_ACCEPTED) w)"
proof -
  obtain w where w: "r_peq_cb (demo_renv TLM_ACCEPTED) 3 BEGIN_REQ demo_rworld = Inr w"
      "transaction_in_progress (r_router w) = Some 3" "target_done (r_router w)"
    by (simp add: r_peq_cb_def peq_cb_begin_req_def frame_simps demo_rworld_def TxnRouter_def send_end_req_def
        demo_renv_def)
  have "end_req_pending (r_router demo_rworld) = None" by (simp add: demo_rworld_def TxnRouter_def)
  from router_step.Begin [OF this w(1)] have "(router_step (demo_renv TLM_ACCEPTED))\<^sup>*\<^sup>* demo_rworld w" by blast
  moreover have "r_router demo_rworld = TxnRouter 4096 1024" by (simp add: demo_rworld_def)
  ultimately show ?thesis using router_never_stops [OF demo_renv_answering] w by blast
qed

text \<open>
  What the router does at each phase of a transaction. A request in an idle router is acquired and
  ended, and its execution scheduled 15 ns after the answered delay; behind another transaction only
  its end is kept pending. The end of the latency forwards the transaction to memory, begins its
  response and releases it. The end of a response lets the pending request proceed at once, and
  otherwise leaves the router idle.
\<close>

theorem router_phases:
  assumes E: "answering TLM_ACCEPTED E" and ok: "router_ok (r_router w)"
  shows "(\<exists>d w'. r_peq_cb E t BEGIN_REQ w = Inr w'
       \<and> (if transaction_in_progress (r_router w) = None
          then r_router w' = (r_router w)\<lparr>target_done := True, transaction_in_progress := Some t\<rparr>
            \<and> r_log w' = r_log w @ [R_acquire t, R_nb_transport_bw t END_REQ ns10, R_notify_done (d + ns15)]
          else r_router w' = (r_router w)\<lparr>end_req_pending := Some t\<rparr> \<and> r_log w' = r_log w @ [R_acquire t]))
    \<and> (target_done (r_router w) \<longrightarrow> (\<exists>u w'. execute_transaction_process E w = Inr w'
       \<and> transaction_in_progress (r_router w) = Some u
       \<and> r_router w' = (r_router w)\<lparr>target_done := False, response_in_progress := True\<rparr>
       \<and> r_log w' = r_log w @ [R_mem_b_transport u ns10, R_nb_transport_bw u BEGIN_RESP ns10, R_release u]))
    \<and> (response_in_progress (r_router w) \<longrightarrow> (\<exists>d w'. r_peq_cb E t END_RESP w = Inr w'
       \<and> (case end_req_pending (r_router w) of
            None \<Rightarrow> r_router w' = (r_router w)\<lparr>transaction_in_progress := None, response_in_progress := False\<rparr>
              \<and> r_log w' = r_log w
          | Some u \<Rightarrow> r_router w' = (r_router w)\<lparr>transaction_in_progress := Some u, response_in_progress := False,
                target_done := True, end_req_pending := None\<rparr>
              \<and> r_log w' = r_log w @ [R_nb_transport_bw u END_REQ ns10, R_notify_done (d + ns15)])))"
  using begin_req_returns [OF E ok] end_resp_returns [OF E ok] done_returns [OF E ok] by blast

definition demo_rbusy :: rworld where
  "demo_rbusy = demo_rworld\<lparr>r_router := (TxnRouter 4096 1024)\<lparr>transaction_in_progress := Some 3,
     response_in_progress := True, end_req_pending := Some 4\<rparr>\<rparr>"

theorem router_phases_witness:
  "\<exists>d w'. r_peq_cb (demo_renv TLM_ACCEPTED) 3 END_RESP demo_rbusy = Inr w'
     \<and> r_log w' = [R_nb_transport_bw 4 END_REQ 10000, R_notify_done (d + 15000)]
     \<and> transaction_in_progress (r_router w') = Some 4"
proof -
  have ok: "router_ok (r_router demo_rbusy)" by (simp add: router_ok_def demo_rbusy_def TxnRouter_def)
  have "response_in_progress (r_router demo_rbusy)" "end_req_pending (r_router demo_rbusy) = Some 4"
      "r_log demo_rbusy = []"
    by (simp_all add: demo_rbusy_def demo_rworld_def)
  then show ?thesis using router_phases [OF demo_renv_answering ok, of 3] by auto
qed

text \<open>
  C39: an initiator that completes a response early blocks itself. If the response is answered with
  \<open>TLM_COMPLETED\<close> while another request is pending, that request is never ended: the router is idle
  but keeps the pending end, and from then on no step is possible - the initiator may not begin
  another request, no response is in progress and nothing is scheduled.
\<close>

theorem completed_response_deadlocks:
  assumes E: "answering TLM_COMPLETED E"
    and w: "transaction_in_progress (r_router w) = Some t" "\<not> response_in_progress (r_router w)"
      "end_req_pending (r_router w) = Some u"
  shows "\<exists>w'. execute_transaction_process E w = Inr w' \<and> transaction_in_progress (r_router w') = None
     \<and> end_req_pending (r_router w') = Some u \<and> \<not> (\<exists>w''. router_step E w' w'')"
proof -
  define w1 where "w1 = execute_transaction E t (r_upd (\<lambda>r. r\<lparr>target_done := False\<rparr>) w)"
  have w1: "r_router w1 = (r_router w)\<lparr>target_done := False\<rparr>"
    by (simp add: w1_def execute_transaction_frame [OF E] frame_simps)
  define w2 where "w2 = r_note (R_nb_transport_bw t BEGIN_RESP ns10) (r_upd (\<lambda>r. r\<lparr>response_in_progress := True\<rparr>) w1)"
  obtain ph d where c: "re_nb_transport_bw E t BEGIN_RESP ns10 w2 = ((TLM_COMPLETED, ph, d), w2)"
    using E unfolding answering_def by blast
  define w3 where "w3 = r_note (R_release t) (r_upd (\<lambda>r. r\<lparr>transaction_in_progress := None, response_in_progress := False\<rparr>) w2)"
  obtain g where g: "re_release E t w3 = w3\<lparr>r_gp := g\<rparr>" using E unfolding answering_def by blast
  have "execute_transaction_process E w = Inr (w3\<lparr>r_gp := g\<rparr>)"
    using w w1 c g by (simp add: execute_transaction_process_def w1_def [symmetric] send_response_def
        w2_def [symmetric] w3_def [symmetric] frame_simps)
  moreover have w3: "r_router (w3\<lparr>r_gp := g\<rparr>) = (r_router w)\<lparr>target_done := False,
      transaction_in_progress := None, response_in_progress := False\<rparr>"
    by (simp add: w3_def w2_def w1 frame_simps)
  moreover have "\<not> router_step E (w3\<lparr>r_gp := g\<rparr>) w''" for w''
    using w(3) w3 by (auto elim!: router_stepE)
  ultimately show ?thesis using w(3) by auto
qed

theorem completed_response_deadlocks_witness:
  "\<exists>w'. execute_transaction_process (demo_renv TLM_COMPLETED)
       (demo_rbusy\<lparr>r_router := (r_router demo_rbusy)\<lparr>response_in_progress := False, target_done := True\<rparr>\<rparr>) = Inr w'
     \<and> end_req_pending (r_router w') = Some 4 \<and> \<not> (\<exists>w''. router_step (demo_renv TLM_COMPLETED) w' w'')"
  using completed_response_deadlocks [OF demo_renv_answering,
      of "demo_rbusy\<lparr>r_router := (r_router demo_rbusy)\<lparr>response_in_progress := False, target_done := True\<rparr>\<rparr>" 3 4]
  by (auto simp: demo_rbusy_def)

end
