(* ===== verification/Co_Simulation.thy ===== *)
theory Co_Simulation
  imports Slave_Traces Router_Properties
begin

text \<open>
  A slave port and the routers behind its sockets as one system: what \<open>bindTxnRouter2Transactor\<close> of
  \<open>gem5_wrapper.cc\<close> connects. Each operation of the port or of a router runs as modelled, with the
  answers that the other side gives (both sides answer \<open>TLM_ACCEPTED\<close>), and the calls it has logged
  are then carried out on the other side: \<open>nb_transport_fw\<close> of a router puts the phase into its
  payload event queue, \<open>nb_transport_bw\<close> of the port schedules a payload event. Neither re-enters the
  caller, so carrying them out when the operation has returned gives the same state.

  \<open>y_refs\<close> counts the references to each transaction from the \<open>acquire\<close> and \<open>release\<close> calls of both
  sides. The port's \<open>release\<close> returns a transaction to the pool; that it is the last one is proved.
\<close>

section \<open>State\<close>

record cosim =
  y_port :: world
  y_router :: "u32 \<Rightarrow> txn_router"
  y_peq :: "u32 \<Rightarrow> (ptr \<times> tlm_phase) list"
  y_refs :: "ptr \<Rightarrow> int"

text \<open>The libraries, and what the memory behind the routers does to a payload.\<close>

record cosim_lib =
  cl_tlm :: tlm_lib
  cl_gem5 :: gem5_lib
  cl_memory :: "payload \<Rightarrow> payload"

definition memory_ok :: "(payload \<Rightarrow> payload) \<Rightarrow> bool" where
  "memory_ok mem \<longleftrightarrow> (\<forall>p. gp_address (mem p) = gp_address p \<and> gp_extension (mem p) = gp_extension p
     \<and> gp_has_mm (mem p) = gp_has_mm p)"

text \<open>The port's environment: \<open>accept\<close> says whether gem5 takes a response now.\<close>

definition port_answers :: "bool \<Rightarrow> answers" where
  "port_answers accept =
     \<lparr>a_nb_transport_fw = (\<lambda>s t ph d w. (TLM_ACCEPTED, ph, d)), a_b_transport = (\<lambda>s t d w. d),
      a_transport_dbg = (\<lambda>s t w. 0), a_sendTimingResp = (\<lambda>_ _. accept)\<rparr>"

definition port_env :: "cosim_lib \<Rightarrow> bool \<Rightarrow> slave_env" where
  "port_env C accept = passive_env (cl_tlm C) (cl_gem5 C) (port_answers accept)"

definition target_env :: "cosim_lib \<Rightarrow> router_env" where
  "target_env C = \<lparr>re_nb_transport_bw = (\<lambda>t ph d w. ((TLM_ACCEPTED, ph, d), w)),
     re_mem_b_transport = (\<lambda>t d w. (d, w\<lparr>r_gp := (r_gp w)(t := cl_memory C (r_gp w t))\<rparr>)),
     re_bus_b_transport = (\<lambda>t d w. Inr (d, w)), re_bus_transport_dbg = (\<lambda>t w. Inr (0, w)), re_release = (\<lambda>t w. w)\<rparr>"

section \<open>Carrying out the calls\<close>

definition router_world :: "u32 \<Rightarrow> (ptr \<Rightarrow> payload) \<Rightarrow> cosim \<Rightarrow> rworld" where
  "router_world k g y = \<lparr>r_router = y_router y k, r_gp = g, r_log = []\<rparr>"

fun notified :: "rcall list \<Rightarrow> (ptr \<times> tlm_phase) list" where
  "notified [] = []"
| "notified (R_peq_notify t ph d # cs) = (t, ph) # notified cs"
| "notified (_ # cs) = notified cs"

text \<open>
  The port's calls, at the router of their socket. A payload is read as it was at the call: the
  request's is still there when the operation has returned, while that of an ended response has
  been released, so its contents are those before the operation.
\<close>

fun to_routers :: "(tlm_phase \<Rightarrow> ptr \<Rightarrow> payload) \<Rightarrow> call list \<Rightarrow> cosim \<Rightarrow> cosim res" where
  "to_routers g [] y = Inr y"
| "to_routers g (Nb_transport_fw (Socket_of k) t ph d # cs) y =
     bindr (r_nb_transport_fw t ph d (router_world k (g ph) y)) (\<lambda>(_, v).
       to_routers g cs (y\<lparr>y_peq := (y_peq y)(k := y_peq y k @ notified (r_log v))\<rparr>))"
| "to_routers g (_ # cs) y = to_routers g cs y"

fun to_port :: "rcall list \<Rightarrow> world \<Rightarrow> world" where
  "to_port [] w = w"
| "to_port (R_nb_transport_bw t ph d # cs) w = to_port cs (snd (nb_transport_bw t ph d w))"
| "to_port (_ # cs) w = to_port cs w"

definition port_refs :: "call list \<Rightarrow> ptr \<Rightarrow> int" where
  "port_refs cs t = int (count_list cs (Acquire t)) - int (count_list cs (Release t))"

definition router_refs :: "rcall list \<Rightarrow> ptr \<Rightarrow> int" where
  "router_refs cs t = int (count_list cs (R_acquire t)) - int (count_list cs (R_release t))"

text \<open>The port has gone from the world of \<open>y\<close> to \<open>w\<close>; the router of socket \<open>k\<close> has gone to \<open>v\<close>.\<close>

definition port_done :: "cosim \<Rightarrow> world \<Rightarrow> cosim res" where
  "port_done y w =
     (let calls = drop (length (w_log (y_port y))) (w_log w)
      in to_routers (\<lambda>ph. if ph = BEGIN_REQ then gp w else gp (y_port y)) calls
           (y\<lparr>y_port := w, y_refs := (\<lambda>t. y_refs y t + port_refs calls t)\<rparr>))"

definition set_heap :: "(ptr \<Rightarrow> payload) \<Rightarrow> world \<Rightarrow> world" where
  "set_heap g w = w\<lparr>w_pool := (fst (w_pool w), (snd (w_pool w))\<lparr>cells := g\<rparr>)\<rparr>"

definition router_done :: "u32 \<Rightarrow> rworld \<Rightarrow> cosim \<Rightarrow> cosim" where
  "router_done k v y =
     y\<lparr>y_port := to_port (r_log v) (set_heap (r_gp v) (y_port y)),
       y_router := (y_router y)(k := r_router v),
       y_peq := (y_peq y)(k := y_peq y k @ notified (r_log v)),
       y_refs := (\<lambda>t. y_refs y t + router_refs (r_log v) t)\<rparr>"

section \<open>Steps of the system\<close>

definition sys_request :: "cosim_lib \<Rightarrow> ptr \<Rightarrow> cosim \<Rightarrow> (bool \<times> cosim) res" where
  "sys_request C packet y =
     bindr (recvTimingReq (port_env C True) packet (y_port y)) (\<lambda>(accepted, w).
       bindr (port_done y w) (\<lambda>y. Inr (accepted, y)))"

definition sys_event :: "cosim_lib \<Rightarrow> bool \<Rightarrow> nat \<Rightarrow> cosim \<Rightarrow> cosim res" where
  "sys_event C accept j y =
     (case w_events (y_port y) ! j of (_, t, ph) \<Rightarrow>
        bindr (pec (port_env C accept) t ph
            ((y_port y)\<lparr>w_events := take j (w_events (y_port y)) @ drop (Suc j) (w_events (y_port y))\<rparr>)) (port_done y))"

definition sys_resp_retry :: "cosim_lib \<Rightarrow> nat \<Rightarrow> cosim \<Rightarrow> cosim res" where
  "sys_resp_retry C rounds y = bindr (recvRespRetry (port_env C True) rounds (y_port y)) (port_done y)"

definition sys_peq :: "cosim_lib \<Rightarrow> u32 \<Rightarrow> ptr \<times> tlm_phase \<Rightarrow> cosim \<Rightarrow> cosim res" where
  "sys_peq C k m y =
     bindr (r_peq_cb (target_env C) (fst m) (snd m) (router_world k (gp (y_port y)) y)) (\<lambda>v.
       Inr (router_done k v (y\<lparr>y_peq := (y_peq y)(k := remove1 m (y_peq y k))\<rparr>)))"

definition sys_execute :: "cosim_lib \<Rightarrow> u32 \<Rightarrow> cosim \<Rightarrow> cosim res" where
  "sys_execute C k y =
     bindr (execute_transaction_process (target_env C) (router_world k (gp (y_port y)) y)) (\<lambda>v.
       Inr (router_done k v y))"

text \<open>
  What may happen. gem5 sends packets that the port admits, to sockets it has and to addresses of the
  memory behind them; it asks for a retry of the held responses when it can take them. Payload
  events of one transaction happen in the order in which they were scheduled (their delays grow);
  nothing else is assumed about the order of events, queues and routers. Time may pass and gem5 may
  prepare packets at any moment, gem5 keeping up with SystemC.
\<close>

definition request_ok :: "cosim_lib \<Rightarrow> u32 \<Rightarrow> ptr \<Rightarrow> cosim \<Rightarrow> bool" where
  "request_ok C n packet y \<longleftrightarrow>
     (let pkt = w_pkt (y_port y) packet; k = target_socket_id pkt (w_port (y_port y))
      in \<not> pkt_cacheResponding pkt \<and> readOrWrite (port_env C True) pkt \<and> k < n
       \<and> ToMem ((tl_new (cl_tlm C))\<lparr>gp_address := pkt_addr pkt\<rparr>) (y_router y k))"

definition next_event :: "nat \<Rightarrow> world \<Rightarrow> bool" where
  "next_event j w \<longleftrightarrow> j < length (w_events w)
     \<and> (\<forall>i < j. fst (snd (w_events w ! i)) \<noteq> fst (snd (w_events w ! j)))"

datatype move = External | Internal

inductive cosim_step :: "cosim_lib \<Rightarrow> u32 \<Rightarrow> move \<Rightarrow> cosim \<Rightarrow> cosim \<Rightarrow> bool" for C n where
  Time: "cosim_step C n External y (y\<lparr>y_port := (y_port y)\<lparr>w_now := c, w_curTick := c\<rparr>\<rparr>)"
| Packets: "cosim_step C n External y (y\<lparr>y_port := (y_port y)\<lparr>w_pkt := pk\<rparr>\<rparr>)"
| Request: "request_ok C n packet y \<Longrightarrow> sys_request C packet y = Inr (accepted, y') \<Longrightarrow> cosim_step C n External y y'"
| Resp_retry: "sys_resp_retry C rounds y = Inr y' \<Longrightarrow> cosim_step C n External y y'"
| Event: "next_event j (y_port y) \<Longrightarrow> sys_event C accept j y = Inr y' \<Longrightarrow> cosim_step C n Internal y y'"
| Peq: "k < n \<Longrightarrow> m \<in> set (y_peq y k) \<Longrightarrow> sys_peq C k m y = Inr y' \<Longrightarrow> cosim_step C n Internal y y'"
| Execute: "k < n \<Longrightarrow> target_done (y_router y k) \<Longrightarrow> sys_execute C k y = Inr y' \<Longrightarrow> cosim_step C n Internal y y'"

inductive_cases cosim_stepE: "cosim_step C n mv y y'"

text \<open>The system when elaboration is over: a bound port with nothing in flight, and new routers.\<close>

definition cosim_start :: "slave_transactor_multi \<Rightarrow> u32 \<Rightarrow> cosim \<Rightarrow> bool" where
  "cosim_start tm n y \<longleftrightarrow>
     port_ok n Map.empty (y_port y) \<and> (\<forall>ty k. blocking (helper (y_port y)) ty k = None)
   \<and> bound_to tm n (w_port (y_port y)) \<and> w_events (y_port y) = [] \<and> w_curTick (y_port y) = w_now (y_port y)
   \<and> (\<forall>k < n. \<exists>start len. y_router y k = TxnRouter start len) \<and> (\<forall>k < n. y_peq y k = [])
   \<and> (\<forall>t. y_refs y t = 0)"

end
