(* ===== verification/Co_Simulation_Invariant.thy ===== *)
theory Co_Simulation_Invariant
  imports Co_Simulation
begin

text \<open>
  The invariant of a slave port with routers behind its sockets, and that every step returns and keeps
  it. The invariant follows a transaction through a socket: sent, pending in the router, ended and
  executing, answered, held by the port or ended by it. A router whose \<open>END_RESP\<close> is still queued may
  point to a transaction that the pool has handed out again.
\<close>

section \<open>What is pending\<close>

definition ev :: "world \<Rightarrow> ptr \<Rightarrow> tlm_phase list" where
  "ev w t = map (\<lambda>e. snd (snd e)) (filter (\<lambda>e. fst (snd e) = t) (w_events w))"

definition reqs :: "(ptr \<times> tlm_phase) list \<Rightarrow> ptr list" where
  "reqs P = map fst (filter (\<lambda>m. snd m = BEGIN_REQ) P)"

definition ends :: "(ptr \<times> tlm_phase) list \<Rightarrow> nat" where
  "ends P = length (filter (\<lambda>m. snd m = END_RESP) P)"

lemma reqs_simps [simp]:
  "reqs [] = []" "reqs (P @ [(t, BEGIN_REQ)]) = reqs P @ [t]" "reqs (P @ [(t, END_RESP)]) = reqs P"
  by (simp_all add: reqs_def)

lemma ends_simps [simp]:
  "ends [] = 0" "ends (P @ [(t, BEGIN_REQ)]) = ends P" "ends (P @ [(t, END_RESP)]) = Suc (ends P)"
  by (simp_all add: ends_def)

lemma ends_remove1:
  assumes "m \<in> set P" and "snd m = END_RESP"
  shows "Suc (ends (remove1 m P)) = ends P" "reqs (remove1 m P) = reqs P"
proof -
  have mem: "m \<in> set (filter (\<lambda>m. snd m = END_RESP) P)" using assms by simp
  from length_remove1 [of m "filter (\<lambda>m. snd m = END_RESP) P"] length_pos_if_in_set [OF mem] mem
  show "Suc (ends (remove1 m P)) = ends P" by (simp only: ends_def filter_remove1 if_True Suc_pred)
  show "reqs (remove1 m P) = reqs P"
    using assms(2) by (simp add: reqs_def filter_remove1 remove1_idem)
qed

lemma reqs_remove1:
  assumes "m \<in> set P" and "snd m = BEGIN_REQ" and "reqs P = [t]"
  shows "m = (t, BEGIN_REQ)" "reqs (remove1 m P) = []" "ends (remove1 m P) = ends P"
proof -
  have mem: "m \<in> set (filter (\<lambda>m. snd m = BEGIN_REQ) P)" using assms(1,2) by simp
  obtain m' where m': "filter (\<lambda>m. snd m = BEGIN_REQ) P = [m']" "fst m' = t"
    using assms(3) by (auto simp: reqs_def)
  with mem have "m = m'" by simp
  with m' assms(2) show "m = (t, BEGIN_REQ)" by (simp add: prod_eq_iff)
  show "reqs (remove1 m P) = []" using m'(1) \<open>m = m'\<close> by (simp add: reqs_def filter_remove1)
  show "ends (remove1 m P) = ends P" using assms(2) by (simp add: ends_def filter_remove1 remove1_idem)
qed

lemma ev_append [simp]:
  "ev (w\<lparr>w_events := w_events w @ [(c, t, ph)]\<rparr>) u = ev w u @ (if u = t then [ph] else [])"
  by (simp add: ev_def)

lemma ev_cong: "w_events w' = w_events w \<Longrightarrow> ev w' = ev w"
  by (simp add: ev_def fun_eq_iff)

lemma ev_nonempty: "ev w t \<noteq> [] \<longleftrightarrow> (\<exists>e \<in> set (w_events w). fst (snd e) = t)"
  by (auto simp: ev_def filter_empty_conv)

lemma next_event_ev:
  assumes "next_event j w" and "w_events w ! j = (c, t, ph)"
    and w0: "w0 = w\<lparr>w_events := take j (w_events w) @ drop (Suc j) (w_events w)\<rparr>"
  shows "ev w t = ph # ev w0 t" "u \<noteq> t \<Longrightarrow> ev w0 u = ev w u"
proof -
  have j: "j < length (w_events w)" "\<forall>i < j. fst (snd (w_events w ! i)) \<noteq> t"
    using assms(1,2) by (auto simp: next_event_def)
  have split: "w_events w = take j (w_events w) @ (c, t, ph) # drop (Suc j) (w_events w)"
    using id_take_nth_drop [OF j(1)] assms(2) by simp
  have "\<forall>e \<in> set (take j (w_events w)). fst (snd e) \<noteq> t"
    using j by (fastforce simp: in_set_conv_nth)
  then have none: "filter (\<lambda>e. fst (snd e) = t) (take j (w_events w)) = []" by (simp add: filter_empty_conv)
  have "ev w u = map (\<lambda>e. snd (snd e)) (filter (\<lambda>e. fst (snd e) = u) (take j (w_events w)
      @ (c, t, ph) # drop (Suc j) (w_events w)))" for u
    using split by (simp add: ev_def)
  then show "ev w t = ph # ev w0 t" "u \<noteq> t \<Longrightarrow> ev w0 u = ev w u"
    using none by (auto simp: ev_def w0)
qed

section \<open>The invariant\<close>

text \<open>A request that the router has not ended: none, or one still queued or kept pending.\<close>

definition waiting :: "(ptr \<Rightarrow> tlm_phase list) \<Rightarrow> ptr option \<Rightarrow> ptr list \<Rightarrow> ptr option \<Rightarrow> bool" where
  "waiting evs q rs pending \<longleftrightarrow> (case q of
       None \<Rightarrow> rs = [] \<and> pending = None
     | Some u \<Rightarrow> evs u = [] \<and> (rs = [u] \<and> pending = None \<or> rs = [] \<and> pending = Some u))"

definition sock_ok :: "u32 \<Rightarrow> (ptr \<Rightarrow> tlm_phase list) \<Rightarrow> owners \<Rightarrow> ptr option \<Rightarrow> ptr option
    \<Rightarrow> txn_router \<Rightarrow> (ptr \<times> tlm_phase) list \<Rightarrow> bool" where
  "sock_ok i evs H q s r P \<longleftrightarrow>
     router_ok r \<and> (\<forall>m \<in> set P. snd m = BEGIN_REQ \<or> snd m = END_RESP)
   \<and> (case transaction_in_progress r of
        None \<Rightarrow> s = None \<and> ends P = 0 \<and> waiting evs q (reqs P) (end_req_pending r)
      | Some t \<Rightarrow>
          if target_done r
          then s = None \<and> ends P = 0
             \<and> (q = Some t \<and> evs t = [END_REQ] \<and> reqs P = [] \<and> end_req_pending r = None
              \<or> H t = Some i \<and> evs t = [] \<and> waiting evs q (reqs P) (end_req_pending r))
          else s = None \<and> ends P = 0 \<and> q = Some t \<and> evs t = [END_REQ, BEGIN_RESP] \<and> reqs P = []
                 \<and> end_req_pending r = None
             \<or> s = None \<and> ends P = 0 \<and> H t = Some i \<and> evs t = [BEGIN_RESP]
                 \<and> waiting evs q (reqs P) (end_req_pending r)
             \<or> s = Some t \<and> ends P = 0 \<and> evs t = [] \<and> waiting evs q (reqs P) (end_req_pending r)
             \<or> s = None \<and> ends P = 1 \<and> H t \<noteq> Some i \<and> waiting evs q (reqs P) (end_req_pending r))"

definition live_on :: "owners \<Rightarrow> world \<Rightarrow> u32 \<Rightarrow> ptr \<Rightarrow> bool" where
  "live_on H w i t \<longleftrightarrow> H t = Some i \<or> (\<exists>ty. blocking (helper w) ty i = Some t)"

text \<open>The references that a router holds: to the request it keeps pending and to the one it executes.\<close>

definition holds :: "txn_router \<Rightarrow> ptr \<Rightarrow> int" where
  "holds r t = (if transaction_in_progress r = Some t \<and> target_done r then 1 else 0)
     + (if end_req_pending r = Some t then 1 else 0)"

definition event_ok :: "owners \<Rightarrow> world \<Rightarrow> txn_router \<Rightarrow> u32 \<Rightarrow> ptr \<Rightarrow> bool" where
  "event_ok H w r i t \<longleftrightarrow> transaction_in_progress r = Some t
     \<and> (blocking (helper w) Request i = Some t \<or> H t = Some i)"

definition cosim_inv :: "slave_transactor_multi \<Rightarrow> u32 \<Rightarrow> owners \<Rightarrow> cosim \<Rightarrow> bool" where
  "cosim_inv tm n H y \<longleftrightarrow> (let w = y_port y in
     port_ok n H w \<and> bound_to tm n (w_port w) \<and> w_curTick w = w_now w
   \<and> (\<forall>i < n. sock_ok i (ev w) H (blocking (helper w) Request i) (blocking (helper w) Response i)
        (y_router y i) (y_peq y i))
   \<and> (\<forall>t. ev w t \<noteq> [] \<longrightarrow> (\<exists>i < n. event_ok H w (y_router y i) i t))
   \<and> (\<forall>i t. live_on H w i t \<longrightarrow> i < n \<and> ToMem (gp w t) (y_router y i) \<and> y_refs y t = 1 + holds (y_router y i) t)
   \<and> (\<forall>t. (\<forall>i. \<not> live_on H w i t) \<longrightarrow> y_refs y t = 0)
   \<and> (\<forall>i t. H t = Some i \<longrightarrow> transaction_in_progress (y_router y i) = Some t))"

lemma cosim_invD:
  assumes "cosim_inv tm n H y" and "w = y_port y"
  shows "port_ok n H w" "bound_to tm n (w_port w)" "w_curTick w = w_now w"
    "i < n \<Longrightarrow> sock_ok i (ev w) H (blocking (helper w) Request i) (blocking (helper w) Response i)
        (y_router y i) (y_peq y i)"
    "ev w t \<noteq> [] \<Longrightarrow> \<exists>i < n. event_ok H w (y_router y i) i t"
    "live_on H w i t \<Longrightarrow> i < n" "live_on H w i t \<Longrightarrow> ToMem (gp w t) (y_router y i)"
    "live_on H w i t \<Longrightarrow> y_refs y t = 1 + holds (y_router y i) t"
    "(\<And>i. \<not> live_on H w i t) \<Longrightarrow> y_refs y t = 0"
    "H t = Some i \<Longrightarrow> transaction_in_progress (y_router y i) = Some t"
  using assms by (auto simp: cosim_inv_def Let_def)

lemma live_core:
  assumes "port_ok n H w" and "live_on H w i t"
  shows "core_opt (gp w t) = Some i"
  using assms port_ok_owned port_ok_blocking(2) by (fastforce simp: live_on_def)

lemma live_unique:
  assumes "port_ok n H w" and "live_on H w i t" and "live_on H w j t"
  shows "i = j"
  using live_core [OF assms(1,2)] live_core [OF assms(1,3)] by simp

text \<open>A socket is not affected by what happens to transactions that are not its own.\<close>

lemma sock_ok_frame:
  assumes "sock_ok i evs H q s r P"
    and "\<And>t. q = Some t \<or> s = Some t \<or> H t = Some i \<Longrightarrow> evs' t = evs t"
    and "\<And>t. H' t = Some i \<longleftrightarrow> H t = Some i"
  shows "sock_ok i evs' H' q s r P"
proof -
  have w: "waiting evs' q rs p = waiting evs q rs p" for rs p
    using assms(2) by (auto simp: waiting_def split: option.split)
  show ?thesis
    using assms unfolding sock_ok_def w
    by (auto split: option.splits if_splits)
qed

lemma ToMem_cong:
  "gp_address p' = gp_address p \<Longrightarrow> mem_start_addr r' = mem_start_addr r \<Longrightarrow> mem_size r' = mem_size r \<Longrightarrow>
    ToMem p' r' = ToMem p r"
  by (simp add: ToMem_def)

text \<open>
  One socket \<open>i\<close> moves the transactions of a set \<open>T\<close>, none of which is another socket's; everything else
  about the invariant stays.
\<close>

lemma inv_update:
  assumes inv: "cosim_inv tm n H y" and i: "i < n"
    and w: "w = y_port y" and w': "w' = y_port y'"
    and foreign: "\<And>u j. u \<in> T \<Longrightarrow> live_on H w j u \<Longrightarrow> j = i"
    and H': "\<And>u. u \<notin> T \<Longrightarrow> H' u = H u" "\<And>u. u \<in> T \<Longrightarrow> H' u = None \<or> H' u = Some i"
    and port: "port_ok n H' w'" "bound_to tm n (w_port w')" "w_curTick w' = w_now w'"
    and b: "\<And>ty j. j \<noteq> i \<Longrightarrow> blocking (helper w') ty j = blocking (helper w) ty j"
      "\<And>ty u. u \<notin> T \<Longrightarrow> blocking (helper w') ty i = Some u \<longleftrightarrow> blocking (helper w) ty i = Some u"
    and others: "\<And>j. j \<noteq> i \<Longrightarrow> y_router y' j = y_router y j" "\<And>j. j \<noteq> i \<Longrightarrow> y_peq y' j = y_peq y j"
    and range: "mem_start_addr (y_router y' i) = mem_start_addr (y_router y i)"
      "mem_size (y_router y' i) = mem_size (y_router y i)"
      "\<And>u. u \<notin> T \<Longrightarrow> gp_address (gp w' u) = gp_address (gp w u)"
      "\<And>u. u \<in> T \<Longrightarrow> live_on H' w' i u \<Longrightarrow> ToMem (gp w' u) (y_router y' i)"
    and evs: "\<And>u. u \<notin> T \<Longrightarrow> ev w' u = ev w u"
      "\<And>u. u \<in> T \<Longrightarrow> ev w' u \<noteq> [] \<Longrightarrow> event_ok H' w' (y_router y' i) i u"
      "\<And>u. u \<notin> T \<Longrightarrow> event_ok H w (y_router y i) i u \<Longrightarrow> ev w u \<noteq> [] \<Longrightarrow> event_ok H' w' (y_router y' i) i u"
    and sock: "sock_ok i (ev w') H' (blocking (helper w') Request i) (blocking (helper w') Response i)
        (y_router y' i) (y_peq y' i)"
    and refs: "\<And>u. u \<notin> T \<Longrightarrow> y_refs y' u = y_refs y u"
      "\<And>u. u \<notin> T \<Longrightarrow> live_on H w i u \<Longrightarrow> holds (y_router y' i) u = holds (y_router y i) u"
      "\<And>u. u \<in> T \<Longrightarrow> y_refs y' u = (if live_on H' w' i u then 1 + holds (y_router y' i) u else 0)"
    and owner: "\<And>u. H' u = Some i \<Longrightarrow> transaction_in_progress (y_router y' i) = Some u"
  shows "cosim_inv tm n H' y'"
proof -
  note D = cosim_invD [OF inv w]
  have live: "live_on H' w' j u \<longleftrightarrow> live_on H w j u" if "u \<notin> T" for j u
    using H'(1) [OF that] b(1) [of j] b(2) [OF that] by (cases "j = i") (auto simp: live_on_def)
  have live_t: "j = i" if "u \<in> T" "live_on H' w' j u" for j u
  proof (rule ccontr)
    assume ne: "j \<noteq> i"
    with that H'(2) b(1) have "live_on H w j u" by (fastforce simp: live_on_def)
    with foreign that(1) ne show False by blast
  qed
  have "sock_ok j (ev w') H' (blocking (helper w') Request j) (blocking (helper w') Response j)
      (y_router y' j) (y_peq y' j)" if "j < n" for j
  proof (cases "j = i")
    case False
    have other: "u \<notin> T" if "live_on H w j u" for u using foreign that False by blast
    show ?thesis
      unfolding b(1) [OF False] others(1,2) [OF False]
    proof (rule sock_ok_frame [OF D(4) [OF \<open>j < n\<close>]])
      fix u
      show "ev w' u = ev w u"
        if "blocking (helper w) Request j = Some u \<or> blocking (helper w) Response j = Some u \<or> H u = Some j"
        using that by (intro evs(1) other) (auto simp: live_on_def)
      show "H' u = Some j \<longleftrightarrow> H u = Some j"
        using H'(1) [of u] H'(2) [of u] False other [of u] by (cases "u \<in> T") (auto simp: live_on_def)
    qed
  qed (use sock in simp)
  moreover have "\<exists>j < n. event_ok H' w' (y_router y' j) j u" if "ev w' u \<noteq> []" for u
  proof (cases "u \<in> T")
    case True
    with evs(2) that i show ?thesis by blast
  next
    case False
    then have "ev w u \<noteq> []" using evs(1) that by simp
    moreover from D(5) [OF this] obtain j where j: "j < n" "event_ok H w (y_router y j) j u" by blast
    ultimately show ?thesis
      using evs(3) [OF False] H'(1) [OF False] b(1) [of j] others(1) [of j]
      by (cases "j = i") (auto simp: event_ok_def)
  qed
  moreover have "j < n \<and> ToMem (gp w' u) (y_router y' j) \<and> y_refs y' u = 1 + holds (y_router y' j) u"
    if "live_on H' w' j u" for j u
  proof (cases "u \<in> T")
    case True
    with live_t that i range(4) refs(3) show ?thesis by auto
  next
    case False
    with that live have l: "live_on H w j u" by blast
    have "ToMem (gp w' u) (y_router y' j) = ToMem (gp w u) (y_router y j)"
      using range(1,2) range(3) [OF False] others(1) [of j] by (intro ToMem_cong) (cases "j = i"; simp)+
    then show ?thesis
      using D(6-8) [OF l] l others(1) [of j] refs(1,2) [OF False]
      by (cases "j = i") simp_all
  qed
  moreover have "y_refs y' u = 0" if "\<And>j. \<not> live_on H' w' j u" for u
    using that live [of u] refs(1,3) [of u] D(9) [of u] by (cases "u \<in> T") auto
  moreover have "transaction_in_progress (y_router y' j) = Some u" if "H' u = Some j" for j u
  proof (cases "j = i")
    case False
    with that H' [of u] have "H u = Some j" by (cases "u \<in> T") auto
    then show ?thesis using D(10) others(1) [OF False] by simp
  qed (use that owner in simp)
  ultimately show ?thesis using port unfolding cosim_inv_def Let_def w' [symmetric] by blast
qed

end
