(* ===== verification/Co_Simulation_Steps.thy ===== *)
theory Co_Simulation_Steps
  imports Co_Simulation_Invariant
begin

text \<open>
  Every step of the composed system returns, keeps the invariant, and - when it is a step of the queues
  or routers - decreases the work that is left.
\<close>

section \<open>Work left\<close>

definition event_work :: "tlm_phase \<Rightarrow> nat" where
  "event_work ph = (case ph of END_REQ \<Rightarrow> 1 | BEGIN_RESP \<Rightarrow> 2 | _ \<Rightarrow> 0)"

definition router_work :: "txn_router \<Rightarrow> (ptr \<times> tlm_phase) list \<Rightarrow> nat" where
  "router_work r P = 10 * length (reqs P) + ends P + (if end_req_pending r \<noteq> None then 8 else 0)
     + (if target_done r then 5 else 0)"

definition events_work :: "world \<Rightarrow> nat" where
  "events_work w = sum_list (map (\<lambda>e. event_work (snd (snd e))) (w_events w))"

definition work :: "u32 \<Rightarrow> cosim \<Rightarrow> nat" where
  "work n y = events_work (y_port y) + (\<Sum>k | k < n. router_work (y_router y k) (y_peq y k))"

lemma work_less:
  assumes "k < n" and "\<And>j. j \<noteq> k \<Longrightarrow> y_router y' j = y_router y j \<and> y_peq y' j = y_peq y j"
    and "events_work (y_port y') + router_work (y_router y' k) (y_peq y' k)
       < events_work (y_port y) + router_work (y_router y k) (y_peq y k)"
  shows "work n y' < work n y"
proof -
  have split: "(\<Sum>j | j < n. f j) = f k + (\<Sum>j \<in> {j. j < n} - {k}. f j)" for f :: "u32 \<Rightarrow> nat"
    using assms(1) by (intro sum.remove) simp_all
  have "(\<Sum>j \<in> {j. j < n} - {k}. router_work (y_router y' j) (y_peq y' j))
      = (\<Sum>j \<in> {j. j < n} - {k}. router_work (y_router y j) (y_peq y j))"
    using assms(2) by (intro sum.cong) auto
  with assms(3) show ?thesis unfolding work_def split by simp
qed

text \<open>The responses that the port holds for gem5.\<close>

definition held :: "world \<Rightarrow> u32 \<Rightarrow> ptr option" where
  "held w k = blocking (helper w) Response k"

section \<open>Operations of a router\<close>

lemma target_env_accepts: "answering TLM_ACCEPTED (target_env C)"
  unfolding answering_def target_env_def by simp (metis rworld.surjective rworld.update_convs(2))

lemma peq_begin_idle:
  "transaction_in_progress (r_router v) = None \<Longrightarrow>
     r_peq_cb (target_env C) t BEGIN_REQ v =
       Inr (v\<lparr>r_router := (r_router v)\<lparr>target_done := True, transaction_in_progress := Some t\<rparr>,
              r_log := r_log v @ [R_acquire t, R_nb_transport_bw t END_REQ ns10, R_notify_done (ns10 + ns15)]\<rparr>)"
  by (simp add: r_peq_cb_def peq_cb_begin_req_def send_end_req_def target_env_def r_note_def r_upd_def Let_def)

lemma peq_begin_busy:
  "transaction_in_progress (r_router v) = Some u \<Longrightarrow>
     r_peq_cb (target_env C) t BEGIN_REQ v =
       Inr (v\<lparr>r_router := (r_router v)\<lparr>end_req_pending := Some t\<rparr>, r_log := r_log v @ [R_acquire t]\<rparr>)"
  by (simp add: r_peq_cb_def peq_cb_begin_req_def r_note_def r_upd_def Let_def)

lemma peq_end_idle:
  "response_in_progress (r_router v) \<Longrightarrow> next_response_pending (r_router v) = None \<Longrightarrow>
   end_req_pending (r_router v) = None \<Longrightarrow>
     r_peq_cb (target_env C) t END_RESP v =
       Inr (v\<lparr>r_router := (r_router v)\<lparr>transaction_in_progress := None, response_in_progress := False\<rparr>\<rparr>)"
  by (simp add: r_peq_cb_def peq_cb_end_resp_def r_upd_def Let_def)

lemma peq_end_next:
  "response_in_progress (r_router v) \<Longrightarrow> next_response_pending (r_router v) = None \<Longrightarrow>
   end_req_pending (r_router v) = Some u \<Longrightarrow>
     r_peq_cb (target_env C) t END_RESP v =
       Inr (v\<lparr>r_router := (r_router v)\<lparr>transaction_in_progress := Some u, response_in_progress := False,
                target_done := True, end_req_pending := None\<rparr>,
              r_log := r_log v @ [R_nb_transport_bw u END_REQ ns10, R_notify_done (ns10 + ns15)]\<rparr>)"
  by (simp add: r_peq_cb_def peq_cb_end_resp_def send_end_req_def target_env_def r_note_def r_upd_def Let_def)

definition served :: "cosim_lib \<Rightarrow> payload \<Rightarrow> payload" where
  "served C p = (cl_memory C p)\<lparr>gp_response_status := TLM_OK_RESPONSE\<rparr>"

lemma served_frame:
  assumes "memory_ok (cl_memory C)"
  shows "gp_address (served C p) = gp_address p" "gp_extension (served C p) = gp_extension p"
    "gp_has_mm (served C p) = gp_has_mm p"
  using assms by (simp_all add: served_def memory_ok_def)

lemma execute_returns:
  "transaction_in_progress (r_router v) = Some t \<Longrightarrow> \<not> response_in_progress (r_router v) \<Longrightarrow>
     execute_transaction_process (target_env C) v =
       Inr (v\<lparr>r_router := (r_router v)\<lparr>target_done := False, response_in_progress := True\<rparr>,
              r_gp := (r_gp v)(t := served C (r_gp v t)),
              r_log := r_log v @ [R_mem_b_transport t ns10, R_nb_transport_bw t BEGIN_RESP ns10, R_release t]\<rparr>)"
  by (simp add: execute_transaction_process_def execute_transaction_def send_response_def target_env_def
      r_note_def r_upd_def r_set_ok_def served_def Let_def)

section \<open>Frames\<close>

lemma ToMem_frame [frame_simps]:
  "ToMem p (r\<lparr>transaction_in_progress := a\<rparr>) = ToMem p r" "ToMem p (r\<lparr>response_in_progress := b\<rparr>) = ToMem p r"
  "ToMem p (r\<lparr>end_req_pending := a\<rparr>) = ToMem p r" "ToMem p (r\<lparr>target_done := b\<rparr>) = ToMem p r"
  by (simp_all add: ToMem_def)

lemma set_heap_id [simp]: "set_heap (gp w) w = w"
  by (simp add: set_heap_def gp_def)

lemma set_heap_frame [frame_simps]:
  "w_port (set_heap g w) = w_port w" "w_events (set_heap g w) = w_events w" "w_now (set_heap g w) = w_now w"
  "w_curTick (set_heap g w) = w_curTick w" "gp (set_heap g w) = g" "w_log (set_heap g w) = w_log w"
  by (simp_all add: set_heap_def gp_def)

lemma notify_clocks [frame_simps]:
  "w_now (PayloadEvent_notify t ph d w) = w_now w" "w_curTick (PayloadEvent_notify t ph d w) = w_curTick w"
  "gp (PayloadEvent_notify t ph d w) = gp w"
  by (simp_all add: PayloadEvent_notify_def note_call_def Let_def gp_def)

lemma ev_notify [simp]:
  "ev (PayloadEvent_notify t ph d w) u = ev w u @ (if u = t then [ph] else [])"
  by (simp add: ev_def frame_simps)

lemma ev_set_heap [simp]: "ev (set_heap g w) = ev w"
  by (rule ev_cong) (simp add: frame_simps)

lemma events_work_notify [simp]:
  "events_work (PayloadEvent_notify t ph d w) = events_work w + event_work ph"
  by (simp add: events_work_def frame_simps)

lemma events_work_cong: "w_events w' = w_events w \<Longrightarrow> events_work w' = events_work w"
  by (simp add: events_work_def)

lemma live_on_cong:
  "w_port w' = w_port w \<Longrightarrow> live_on H w' = live_on H w"
  "w_port w' = w_port w \<Longrightarrow> event_ok H w' = event_ok H w"
  by (auto simp: live_on_def event_ok_def fun_eq_iff)

lemma port_ok_set_heap:
  assumes ok: "port_ok n H w"
    and g: "\<And>u. gp_extension (g u) = gp_extension (gp w u)" "\<And>u. gp_has_mm (g u) = gp_has_mm (gp w u)"
  shows "port_ok n H (set_heap g w)"
proof -
  have "core_opt (g u) = core_opt (gp w u)" for u by (simp add: core_opt_def g(1))
  then have "table_ok n H g (blocking (helper w)) (owed (helper w))"
    using port_okD(1) [OF ok] by (simp add: table_ok_def)
  moreover have "pool_ok live (w_pool (set_heap g w))" if "pool_ok live (w_pool w)" for live
    using that g by (cases "w_pool w") (auto simp: pool_ok_def set_heap_def gp_def)
  then have "pool_owns H (blocking (helper w)) (w_pool (set_heap g w))"
    using port_okD(2) [OF ok] unfolding pool_owns_def by blast
  ultimately show ?thesis using ok by (simp add: port_ok_def frame_simps)
qed

section \<open>Steps of a router\<close>

lemma holds_upd:
  "holds (r\<lparr>target_done := True, transaction_in_progress := Some t\<rparr>) u =
     (if u = t then 1 else 0) + (if end_req_pending r = Some u then 1 else 0)"
  by (simp add: holds_def)

lemma waiting_cases:
  assumes "waiting evs q rs p"
  obtains (none) "q = None" "rs = []" "p = None"
  | (queued) u where "q = Some u" "evs u = []" "rs = [u]" "p = None"
  | (pending) u where "q = Some u" "evs u = []" "rs = []" "p = Some u"
  using assms by (auto simp: waiting_def split: option.splits)

lemma sock_ok_queued:
  assumes "sock_ok i evs H q s r P" and "m \<in> set P" and "snd m = BEGIN_REQ"
    and own: "\<And>u. q = Some u \<Longrightarrow> H u = None \<and> s \<noteq> Some u"
  obtains u where "m = (u, BEGIN_REQ)" "q = Some u" "evs u = []" "reqs P = [u]" "end_req_pending r = None"
    "holds r u = 0"
proof -
  have ne: "reqs P \<noteq> []" using assms(2,3) by (auto simp: reqs_def filter_empty_conv)
  then have wait: "waiting evs q (reqs P) (end_req_pending r)"
    using assms(1) by (auto simp: sock_ok_def split: option.splits if_splits)
  then obtain u where u: "q = Some u" "evs u = []" "reqs P = [u]" "end_req_pending r = None"
    using ne by (elim waiting_cases) auto
  have "holds r u = 0"
    using assms(1) own [OF u(1)] u by (auto simp: sock_ok_def holds_def split: if_splits option.splits)
  with that [OF reqs_remove1(1) [OF assms(2,3) u(3)] u] show thesis by blast
qed

lemma port_ok_request:
  assumes "port_ok n H w" and "blocking (helper w) Request i = Some u"
  shows "H u = None" "blocking (helper w) Response i \<noteq> Some u" "live_on H w i u"
  using port_ok_blocking [OF assms] port_okD(1) [OF assms(1)] assms(2) by (auto simp: table_ok_def live_on_def)

text \<open>A request in a router's queue: the port waits for its end, and the router does not hold it yet.\<close>

lemma queued_request:
  assumes inv: "cosim_inv tm n H y" and k: "k < n" and m: "m \<in> set (y_peq y k)" "snd m = BEGIN_REQ"
    and w: "w = y_port y" and r: "r = y_router y k"
  obtains u where "m = (u, BEGIN_REQ)" "blocking (helper w) Request k = Some u" "ev w u = []"
    "reqs (y_peq y k) = [u]" "end_req_pending r = None" "holds r u = 0" "y_refs y u = 1"
    "\<And>v j. v \<in> {u} \<Longrightarrow> live_on H w j v \<Longrightarrow> j = k"
proof -
  note D = cosim_invD [OF inv w]
  obtain u where u: "m = (u, BEGIN_REQ)" "blocking (helper w) Request k = Some u" "ev w u = []"
      "reqs (y_peq y k) = [u]" "end_req_pending r = None" "holds r u = 0"
    using sock_ok_queued [OF D(4) [OF k, folded r] m] port_ok_request(1,2) [OF D(1)] by metis
  note own = port_ok_request [OF D(1) u(2)]
  have "y_refs y u = 1" using D(8) [OF own(3)] u(6) r by simp
  moreover have "j = k" if "v \<in> {u}" "live_on H w j v" for v j using live_unique [OF D(1) that(2)] own(3) that(1) by simp
  ultimately show thesis using that [OF u] by blast
qed

lemma peq_begin_idle_ok:
  assumes inv: "cosim_inv tm n H y" and k: "k < n" and m: "m \<in> set (y_peq y k)" "snd m = BEGIN_REQ"
    and idle: "transaction_in_progress (y_router y k) = None"
  shows "\<exists>y'. sys_peq C k m y = Inr y' \<and> cosim_inv tm n H y' \<and> work n y' < work n y
    \<and> held (y_port y') = held (y_port y)"
proof -
  define w where "w = y_port y"
  define r where "r = y_router y k"
  note D = cosim_invD [OF inv w_def]
  note sock = D(4) [OF k, folded r_def]
  obtain u where u: "m = (u, BEGIN_REQ)" "blocking (helper w) Request k = Some u" "ev w u = []"
      "reqs (y_peq y k) = [u]" "end_req_pending r = None" "holds r u = 0" and refs: "y_refs y u = 1"
    and foreign: "\<And>v j. v \<in> {u} \<Longrightarrow> live_on H w j v \<Longrightarrow> j = k"
    using queued_request [OF inv k m w_def r_def] by metis
  note own = port_ok_request [OF D(1) u(2)] and rest = reqs_remove1(2,3) [OF m u(4)]
  have None: "transaction_in_progress r = None" using idle r_def by simp
  define y' where "y' = y\<lparr>y_port := PayloadEvent_notify u END_REQ ns10 w,
     y_router := (y_router y)(k := r\<lparr>target_done := True, transaction_in_progress := Some u\<rparr>),
     y_peq := (y_peq y)(k := remove1 m (y_peq y k)), y_refs := (\<lambda>t. y_refs y t + (if t = u then 1 else 0))\<rparr>"
  have "sys_peq C k m y = Inr y'"
    using None u(1) by (simp add: sys_peq_def router_world_def r_def [symmetric] peq_begin_idle router_done_def y'_def
        w_def [symmetric] nb_transport_bw_def router_refs_def fun_eq_iff)
  moreover have "cosim_inv tm n H y'"
  proof (rule inv_update [OF inv k w_def refl foreign])
    show "H v = Some k \<Longrightarrow> transaction_in_progress (y_router y' k) = Some v" for v
      using D(10) [of v k] None r_def by (auto simp: y'_def split: if_splits)
    show "port_ok n H (y_port y')"
      using D(1) port_ok_cong [of "y_port y'" w] by (simp add: y'_def frame_simps)
    show "sock_ok k (ev (y_port y')) H (blocking (helper (y_port y')) Request k) (blocking (helper (y_port y')) Response k)
        (y_router y' k) (y_peq y' k)"
      using sock None u rest notin_set_remove1 [of _ "y_peq y k" m]
      by (auto simp: sock_ok_def y'_def frame_simps router_ok_def dest: notin_set_remove1)
    show "v \<in> {u} \<Longrightarrow> live_on H (y_port y') k v \<Longrightarrow> ToMem (gp (y_port y') v) (y_router y' k)" for v
      using D(7) [OF own(3)] by (simp add: y'_def frame_simps r_def)
  qed (use D(2,3) None u own refs in
      \<open>auto simp: y'_def frame_simps event_ok_def live_on_def holds_def r_def [symmetric]\<close>)
  ultimately show ?thesis
    using work_less [OF k, of y' y] None u rest
    by (simp add: y'_def router_work_def w_def [symmetric] r_def [symmetric] event_work_def held_def fun_eq_iff frame_simps)
qed

lemma peq_begin_busy_ok:
  assumes inv: "cosim_inv tm n H y" and k: "k < n" and m: "m \<in> set (y_peq y k)" "snd m = BEGIN_REQ"
    and busy: "transaction_in_progress (y_router y k) = Some t"
  shows "\<exists>y'. sys_peq C k m y = Inr y' \<and> cosim_inv tm n H y' \<and> work n y' < work n y
    \<and> held (y_port y') = held (y_port y)"
proof -
  define w where "w = y_port y"
  define r where "r = y_router y k"
  note D = cosim_invD [OF inv w_def]
  note sock = D(4) [OF k, folded r_def]
  obtain u where u: "m = (u, BEGIN_REQ)" "blocking (helper w) Request k = Some u" "ev w u = []"
      "reqs (y_peq y k) = [u]" "end_req_pending r = None" "holds r u = 0" and refs: "y_refs y u = 1"
    and foreign: "\<And>v j. v \<in> {u} \<Longrightarrow> live_on H w j v \<Longrightarrow> j = k"
    using queued_request [OF inv k m w_def r_def] by metis
  note own = port_ok_request [OF D(1) u(2)] and rest = reqs_remove1(2,3) [OF m u(4)]
  have Some: "transaction_in_progress r = Some t" using busy r_def by simp
  define y' where "y' = y\<lparr>y_router := (y_router y)(k := r\<lparr>end_req_pending := Some u\<rparr>),
     y_peq := (y_peq y)(k := remove1 m (y_peq y k)), y_refs := (\<lambda>t. y_refs y t + (if t = u then 1 else 0))\<rparr>"
  have "sys_peq C k m y = Inr y'"
    using Some u(1) by (simp add: sys_peq_def router_world_def r_def [symmetric] peq_begin_busy router_done_def y'_def
        router_refs_def fun_eq_iff)
  moreover have "cosim_inv tm n H y'"
  proof (rule inv_update [OF inv k w_def refl foreign])
    show "H v = Some k \<Longrightarrow> transaction_in_progress (y_router y' k) = Some v" for v
      using D(10) [of v k] Some r_def by (auto simp: y'_def split: if_splits)
    show "sock_ok k (ev (y_port y')) H (blocking (helper (y_port y')) Request k) (blocking (helper (y_port y')) Response k)
        (y_router y' k) (y_peq y' k)"
      using sock Some u rest
      by (auto simp: sock_ok_def y'_def w_def [symmetric] router_ok_def waiting_def dest: notin_set_remove1 split: if_splits)
    show "v \<in> {u} \<Longrightarrow> live_on H (y_port y') k v \<Longrightarrow> ToMem (gp (y_port y') v) (y_router y' k)" for v
      using D(7) [OF own(3)] by (simp add: y'_def w_def r_def frame_simps)
  qed (use D(1-3) Some u own refs in
      \<open>auto simp: y'_def w_def [symmetric] event_ok_def live_on_def holds_def r_def [symmetric]\<close>)
  ultimately show ?thesis
    using work_less [OF k, of y' y] Some u rest
    by (simp add: y'_def router_work_def w_def [symmetric] r_def [symmetric] event_work_def held_def fun_eq_iff frame_simps)
qed

lemma peq_begin_ok:
  assumes "cosim_inv tm n H y" and "k < n" and "m \<in> set (y_peq y k)" "snd m = BEGIN_REQ"
  shows "\<exists>y'. sys_peq C k m y = Inr y' \<and> cosim_inv tm n H y' \<and> work n y' < work n y
    \<and> held (y_port y') = held (y_port y)"
  using peq_begin_idle_ok [OF assms] peq_begin_busy_ok [OF assms] by (cases "transaction_in_progress (y_router y k)") simp_all

lemma sock_ok_ending:
  assumes "sock_ok i evs H q s r P" and "m \<in> set P" and "snd m = END_RESP"
  obtains t where "transaction_in_progress r = Some t" "\<not> target_done r" "response_in_progress r"
    "next_response_pending r = None" "s = None" "ends P = 1" "H t \<noteq> Some i"
    "waiting evs q (reqs P) (end_req_pending r)"
proof -
  have "ends P \<noteq> 0" using assms(2,3) by (auto simp: ends_def filter_empty_conv)
  with assms(1) that show thesis by (auto simp: sock_ok_def router_ok_def split: option.splits if_splits)
qed

lemma peq_end_idle_ok:
  assumes inv: "cosim_inv tm n H y" and k: "k < n" and m: "m \<in> set (y_peq y k)" "snd m = END_RESP"
    and idle: "end_req_pending (y_router y k) = None"
  shows "\<exists>y'. sys_peq C k m y = Inr y' \<and> cosim_inv tm n H y' \<and> work n y' < work n y
    \<and> held (y_port y') = held (y_port y)"
proof -
  define w where "w = y_port y"
  define r where "r = y_router y k"
  note D = cosim_invD [OF inv w_def]
  note sock = D(4) [OF k, folded r_def]
  obtain t where t: "transaction_in_progress r = Some t" "\<not> target_done r" "response_in_progress r"
      "next_response_pending r = None" "blocking (helper w) Response k = None" "ends (y_peq y k) = 1" "H t \<noteq> Some k"
    and wait: "waiting (ev w) (blocking (helper w) Request k) (reqs (y_peq y k)) (end_req_pending r)"
    by (rule sock_ok_ending [OF sock m])
  have phases: "\<forall>m' \<in> set (remove1 m (y_peq y k)). snd m' = BEGIN_REQ \<or> snd m' = END_RESP"
    using sock by (auto simp: sock_ok_def dest: notin_set_remove1)
  note rest = ends_remove1 [OF m]
  have quiet: "v \<noteq> t" if "ev w v \<noteq> []" "blocking (helper w) Request k = Some v \<or> H v = Some k" for v
    using that wait t(7) by (auto simp: waiting_def)
  have None: "end_req_pending r = None" using idle r_def by simp
  define y' where "y' = y\<lparr>y_router := (y_router y)(k := r\<lparr>transaction_in_progress := None, response_in_progress := False\<rparr>),
     y_peq := (y_peq y)(k := remove1 m (y_peq y k))\<rparr>"
  have "sys_peq C k m y = Inr y'"
    using None t m(2) by (simp add: sys_peq_def router_world_def r_def [symmetric] peq_end_idle router_done_def y'_def
        router_refs_def fun_eq_iff)
  moreover have "cosim_inv tm n H y'"
  proof (rule inv_update [OF inv k w_def refl, of "{}"])
    show "H v = Some k \<Longrightarrow> transaction_in_progress (y_router y' k) = Some v" for v
      using D(10) [of v k] t(1,7) r_def by (auto simp: y'_def split: if_splits)
    show "sock_ok k (ev (y_port y')) H (blocking (helper (y_port y')) Request k) (blocking (helper (y_port y')) Response k)
        (y_router y' k) (y_peq y' k)"
      using None t wait rest phases
      by (simp add: sock_ok_def y'_def w_def [symmetric] router_ok_def)
    show "event_ok H (y_port y') (y_router y' k) k v" if "event_ok H w (y_router y k) k v" "ev w v \<noteq> []" for v
      using quiet [OF that(2)] that(1) t(1) by (auto simp: event_ok_def r_def)
  qed (use D(1-3) None t in
      \<open>auto simp: y'_def w_def [symmetric] holds_def r_def [symmetric]\<close>)
  ultimately show ?thesis
    using work_less [OF k, of y' y] None t rest
    by (simp add: y'_def router_work_def w_def [symmetric] r_def [symmetric])
qed

lemma peq_end_next_ok:
  assumes inv: "cosim_inv tm n H y" and k: "k < n" and m: "m \<in> set (y_peq y k)" "snd m = END_RESP"
    and pending: "end_req_pending (y_router y k) = Some u"
  shows "\<exists>y'. sys_peq C k m y = Inr y' \<and> cosim_inv tm n H y' \<and> work n y' < work n y
    \<and> held (y_port y') = held (y_port y)"
proof -
  define w where "w = y_port y"
  define r where "r = y_router y k"
  note D = cosim_invD [OF inv w_def]
  note sock = D(4) [OF k, folded r_def]
  obtain t where t: "transaction_in_progress r = Some t" "\<not> target_done r" "response_in_progress r"
      "next_response_pending r = None" "blocking (helper w) Response k = None" "ends (y_peq y k) = 1" "H t \<noteq> Some k"
    and wait: "waiting (ev w) (blocking (helper w) Request k) (reqs (y_peq y k)) (end_req_pending r)"
    by (rule sock_ok_ending [OF sock m])
  have phases: "\<forall>m' \<in> set (remove1 m (y_peq y k)). snd m' = BEGIN_REQ \<or> snd m' = END_RESP"
    using sock by (auto simp: sock_ok_def dest: notin_set_remove1)
  note rest = ends_remove1 [OF m]
  have quiet: "v \<noteq> t" if "ev w v \<noteq> []" "blocking (helper w) Request k = Some v \<or> H v = Some k" for v
    using that wait t(7) by (auto simp: waiting_def)
  have Some: "end_req_pending r = Some u" using pending r_def by simp
  have u: "blocking (helper w) Request k = Some u" "ev w u = []" "reqs (y_peq y k) = []"
    using wait Some by (auto elim!: waiting_cases)
  note own = port_ok_request [OF D(1) u(1)]
  have foreign: "j = k" if "v \<in> {u}" "live_on H w j v" for v j
    using live_unique [OF D(1) that(2)] own(3) that(1) by simp
  have refs: "y_refs y u = 2" using D(8) [OF own(3)] Some t(2) by (simp add: holds_def r_def)
  define y' where "y' = y\<lparr>y_port := PayloadEvent_notify u END_REQ ns10 w,
     y_router := (y_router y)(k := r\<lparr>transaction_in_progress := Some u, response_in_progress := False,
              target_done := True, end_req_pending := None\<rparr>),
     y_peq := (y_peq y)(k := remove1 m (y_peq y k))\<rparr>"
  have "sys_peq C k m y = Inr y'"
    using Some t m(2) by (simp add: sys_peq_def router_world_def r_def [symmetric] peq_end_next router_done_def y'_def
        router_refs_def fun_eq_iff w_def [symmetric] nb_transport_bw_def)
  moreover have "cosim_inv tm n H y'"
  proof (rule inv_update [OF inv k w_def refl foreign])
    show "H v = Some k \<Longrightarrow> transaction_in_progress (y_router y' k) = Some v" for v
      using D(10) [of v k] t(1,7) r_def by (auto simp: y'_def split: if_splits)
    show "port_ok n H (y_port y')"
      using D(1) port_ok_cong [of "y_port y'" w] by (simp add: y'_def frame_simps)
    show "sock_ok k (ev (y_port y')) H (blocking (helper (y_port y')) Request k) (blocking (helper (y_port y')) Response k)
        (y_router y' k) (y_peq y' k)"
      using Some t u rest phases
      by (simp add: sock_ok_def y'_def router_ok_def frame_simps)
    show "v \<in> {u} \<Longrightarrow> live_on H (y_port y') k v \<Longrightarrow> ToMem (gp (y_port y') v) (y_router y' k)" for v
      using D(7) [OF own(3)] by (simp add: y'_def r_def frame_simps)
    show "event_ok H (y_port y') (y_router y' k) k v"
      if "v \<notin> {u}" "event_ok H w (y_router y k) k v" "ev w v \<noteq> []" for v
      using quiet [OF that(3)] that(2) t(1) by (auto simp: event_ok_def r_def)
    show "holds (y_router y' k) v = holds (y_router y k) v" if "v \<notin> {u}" for v
      using that Some t(2) by (simp add: holds_def y'_def r_def [symmetric])
  qed (use D(2,3) Some t u own refs in
      \<open>auto simp: y'_def frame_simps event_ok_def live_on_def holds_def r_def [symmetric]\<close>)
  ultimately show ?thesis
    using work_less [OF k, of y' y] Some t rest u
    by (simp add: y'_def router_work_def w_def [symmetric] r_def [symmetric] event_work_def held_def fun_eq_iff frame_simps)
qed

lemma peq_end_ok:
  assumes "cosim_inv tm n H y" and "k < n" and "m \<in> set (y_peq y k)" "snd m = END_RESP"
  shows "\<exists>y'. sys_peq C k m y = Inr y' \<and> cosim_inv tm n H y' \<and> work n y' < work n y
    \<and> held (y_port y') = held (y_port y)"
  using peq_end_idle_ok [OF assms] peq_end_next_ok [OF assms] by (cases "end_req_pending (y_router y k)") simp_all

lemma sock_ok_executing:
  assumes "sock_ok i evs H q s r P" and "target_done r"
  obtains t where "transaction_in_progress r = Some t" "\<not> response_in_progress r" "s = None" "ends P = 0"
    "q = Some t \<and> evs t = [END_REQ] \<and> reqs P = [] \<and> end_req_pending r = None
     \<or> H t = Some i \<and> evs t = [] \<and> waiting evs q (reqs P) (end_req_pending r)"
  using assms by (auto simp: sock_ok_def router_ok_def split: option.splits)

lemma execute_ok:
  assumes inv: "cosim_inv tm n H y" and k: "k < n" and "done": "target_done (y_router y k)"
    and mem: "memory_ok (cl_memory C)"
  shows "\<exists>y'. sys_execute C k y = Inr y' \<and> cosim_inv tm n H y' \<and> work n y' < work n y
    \<and> held (y_port y') = held (y_port y)"
proof -
  define w where "w = y_port y"
  define r where "r = y_router y k"
  note D = cosim_invD [OF inv w_def]
  note sock = D(4) [OF k, folded r_def]
  obtain t where t: "transaction_in_progress r = Some t" "\<not> response_in_progress r"
      "blocking (helper w) Response k = None" "ends (y_peq y k) = 0"
    and st: "blocking (helper w) Request k = Some t \<and> ev w t = [END_REQ] \<and> reqs (y_peq y k) = [] \<and> end_req_pending r = None
     \<or> H t = Some k \<and> ev w t = [] \<and> waiting (ev w) (blocking (helper w) Request k) (reqs (y_peq y k)) (end_req_pending r)"
    by (rule sock_ok_executing [OF sock "done" [folded r_def]])
  have live: "live_on H w k t" using st by (auto simp: live_on_def)
  have foreign: "j = k" if "v \<in> {t}" "live_on H w j v" for v j
    using live_unique [OF D(1) that(2)] live that(1) by simp
  have pend: "end_req_pending r \<noteq> Some t"
    using st port_ok_request(1) [OF D(1), of k t] by (auto simp: waiting_def split: option.splits)
  have H: "H t = None \<or> H t = Some k" using st port_ok_request(1) [OF D(1), of k t] by blast
  have refs: "y_refs y t = 2" using D(8) [OF live] "done" t pend by (simp add: holds_def r_def)
  define g where "g = (gp w)(t := served C (gp w t))"
  define y' where "y' = y\<lparr>y_port := PayloadEvent_notify t BEGIN_RESP ns10 (set_heap g w),
     y_router := (y_router y)(k := r\<lparr>target_done := False, response_in_progress := True\<rparr>),
     y_refs := (\<lambda>u. y_refs y u - (if u = t then 1 else 0))\<rparr>"
  have "sys_execute C k y = Inr y'"
    using t by (simp add: sys_execute_def router_world_def r_def [symmetric] execute_returns router_done_def y'_def
        w_def [symmetric] g_def nb_transport_bw_def router_refs_def fun_eq_iff)
  moreover have "cosim_inv tm n H y'"
  proof (rule inv_update [OF inv k w_def refl foreign])
    show "H v = Some k \<Longrightarrow> transaction_in_progress (y_router y' k) = Some v" for v
      using D(10) [of v k] r_def by (auto simp: y'_def split: if_splits)
    have "port_ok n H (set_heap g w)"
      by (rule port_ok_set_heap [OF D(1)]) (simp_all add: g_def served_frame [OF mem])
    then show "port_ok n H (y_port y')"
      using port_ok_cong [of "y_port y'" "set_heap g w"] by (simp add: y'_def frame_simps)
    show "sock_ok k (ev (y_port y')) H (blocking (helper (y_port y')) Request k) (blocking (helper (y_port y')) Response k)
        (y_router y' k) (y_peq y' k)"
      using sock t st "done" port_ok_request(1) [OF D(1), of k t]
      by (auto simp: sock_ok_def y'_def router_ok_def frame_simps fun_eq_iff waiting_def r_def [symmetric] split: option.splits)
    show "v \<in> {t} \<Longrightarrow> live_on H (y_port y') k v \<Longrightarrow> ToMem (gp (y_port y') v) (y_router y' k)" for v
      using D(7) [OF live] ToMem_cong [of "served C (gp w t)" "gp w t" r r]
      by (simp add: y'_def r_def frame_simps g_def served_frame [OF mem])
  qed (use D(2,3) t st pend live refs "done" H in
      \<open>auto simp: y'_def frame_simps event_ok_def live_on_def holds_def r_def [symmetric] g_def\<close>)
  ultimately show ?thesis
    using work_less [OF k, of y' y] t "done" events_work_cong [of "set_heap g w" w]
    by (simp add: y'_def router_work_def w_def [symmetric] r_def [symmetric] event_work_def frame_simps held_def fun_eq_iff)
qed

section \<open>Steps of the port\<close>

lemma bound_to_helper [simp]: "bound_to tm n (p\<lparr>blk_pkt_helper := h\<rparr>) = bound_to tm n p"
  by (simp add: bound_to_def)

lemma router_accepts [simp]:
  "ToMem (g t) (y_router y k) \<Longrightarrow> r_nb_transport_fw t ph d (router_world k g y) =
     Inr (TLM_ACCEPTED, (router_world k g y)\<lparr>r_log := [R_peq_notify t ph d]\<rparr>)"
  by (simp add: r_nb_transport_fw_def router_world_def r_note_def)

lemma dead_quiet:
  assumes "cosim_inv tm n H y" and "w = y_port y" and "\<And>i. \<not> live_on H w i t"
  shows "ev w t = []" "i < n \<Longrightarrow> holds (y_router y i) t = 0"
proof -
  note D = cosim_invD [OF assms(1,2)]
  show "ev w t = []"
    using D(5) [of t] assms(3) by (auto simp: event_ok_def live_on_def)
  assume "i < n"
  have "H t \<noteq> Some i" "blocking (helper w) Request i \<noteq> Some t" using assms(3) by (auto simp: live_on_def)
  with D(4) [OF \<open>i < n\<close>] show "holds (y_router y i) t = 0"
    by (auto simp: sock_ok_def holds_def waiting_def router_ok_def split: option.splits if_splits)
qed

lemma sock_ok_free:
  assumes "sock_ok i evs H None s r P" and "evs t = []"
  shows "sock_ok i evs H (Some t) s r (P @ [(t, BEGIN_REQ)])"
  using assms by (auto simp: sock_ok_def waiting_def split: option.splits if_splits)

lemma refused_request_ok:
  assumes inv: "cosim_inv tm n H y" and req: "request_ok C n packet y"
    and busy: "blocking (helper (y_port y)) Request (target_socket_id (w_pkt (y_port y) packet) (w_port (y_port y))) = Some u"
  shows "\<exists>y'. sys_request C packet y = Inr (False, y') \<and> cosim_inv tm n H y'
    \<and> blocking (helper (y_port y')) = blocking (helper (y_port y)) \<and> w_log (y_port y') = w_log (y_port y)
    \<and> w_events (y_port y') = w_events (y_port y) \<and> w_now (y_port y') = w_now (y_port y)"
proof -
  define w where "w = y_port y"
  define k where "k = target_socket_id (w_pkt w packet) (w_port w)"
  note D = cosim_invD [OF inv w_def]
  have k: "k < n" and adm: "admissible (port_env C True) packet w"
    using req D(3) by (simp_all add: request_ok_def Let_def admissible_def w_def k_def)
  have Some: "blocking (helper w) Request k = Some u" using busy by (simp add: w_def k_def)
  obtain h where h: "updateRetryMap k True (helper w) = Inr h" "blocking h = blocking (helper w)"
    using helper_ok_set_debt [OF port_ok_not_cache(6) [OF D(1)] k] by blast
  define y' where "y' = y\<lparr>y_port := set_helper h w\<rparr>"
  have "recvTimingReq (port_env C True) packet w = Inr (False, set_helper h w)"
    using port_ok_recvTimingReq [OF D(1) adm k_def k] Some h(1) by simp
  then have "sys_request C packet y = Inr (False, y')"
    by (simp add: sys_request_def w_def [symmetric] port_done_def frame_simps port_refs_def y'_def)
  moreover have "cosim_inv tm n H y'"
  proof (rule inv_update [OF inv k w_def refl, of "{}"])
    show "H v = Some k \<Longrightarrow> transaction_in_progress (y_router y' k) = Some v" for v
      using D(10) [of v k] k by (auto simp: y'_def split: if_splits)
    show "port_ok n H (y_port y')"
      unfolding y'_def using port_ok_refuse [OF D(1) k _ h(1)] Some by simp
    show "sock_ok k (ev (y_port y')) H (blocking (helper (y_port y')) Request k) (blocking (helper (y_port y')) Response k)
        (y_router y' k) (y_peq y' k)"
      using D(4) [OF k] h(2) by (simp add: y'_def frame_simps ev_cong [of "set_helper h w" w])
  qed (use D(2,3) h(2) in \<open>auto simp: y'_def frame_simps event_ok_def ev_cong [of "set_helper h w" w]\<close>)
  ultimately show ?thesis using Some h(2) by (auto simp: y'_def frame_simps w_def [symmetric] k_def [symmetric])
qed

lemma accepted_request_ok:
  assumes inv: "cosim_inv tm n H y" and lib: "tlm_lib_ok (cl_tlm C)" and req: "request_ok C n packet y"
    and free: "blocking (helper (y_port y)) Request (target_socket_id (w_pkt (y_port y) packet) (w_port (y_port y))) = None"
    and k_eq: "k = target_socket_id (w_pkt (y_port y) packet) (w_port (y_port y))"
  shows "\<exists>t y'. sys_request C packet y = Inr (True, y') \<and> cosim_inv tm n H y' \<and> k < n
    \<and> blocking (helper (y_port y')) = (blocking (helper (y_port y)))(Request := (blocking (helper (y_port y)) Request)(k := Some t))
    \<and> (\<forall>i. \<not> live_on H (y_port y) i t) \<and> w_log (y_port y') = w_log (y_port y)
        @ [Acquire t, Nb_transport_fw (Socket_of k) t BEGIN_REQ (pkt_payloadDelay (w_pkt (y_port y) packet))]
    \<and> w_events (y_port y') = w_events (y_port y) \<and> w_now (y_port y') = w_now (y_port y)"
proof -
  define w where "w = y_port y"
  have k_def: "k = target_socket_id (w_pkt w packet) (w_port w)" using k_eq by (simp add: w_def)
  note D = cosim_invD [OF inv w_def]
  have k: "k < n" and adm: "admissible (port_env C True) packet w"
    and "ToMem ((tl_new (cl_tlm C))\<lparr>gp_address := pkt_addr (w_pkt w packet)\<rparr>) (y_router y k)"
    using req D(3) by (simp_all add: request_ok_def Let_def admissible_def w_def k_def)
  then have range: "gp_address q = pkt_addr (w_pkt w packet) \<Longrightarrow> ToMem q (y_router y k)" for q
    using ToMem_cong [of q "(tl_new (cl_tlm C))\<lparr>gp_address := pkt_addr (w_pkt w packet)\<rparr>" "y_router y k" "y_router y k"]
    by simp
  have None: "blocking (helper w) Request k = None" using free by (simp add: w_def k_def)
  obtain t w2 where r: "recvTimingReq (port_env C True) packet w =
      after_begin_req (port_env C True) t k (TLM_ACCEPTED, BEGIN_REQ, pkt_payloadDelay (w_pkt w packet)) w2"
    and t: "H t = None" "\<forall>ty j. blocking (helper w) ty j \<noteq> Some t"
      "describes (cl_gem5 C) packet (w_pkt w packet) k (gp w2 t)" "\<forall>u. u \<noteq> t \<longrightarrow> gp w2 u = gp w u"
      "port_ok n (H(t \<mapsto> k)) w2"
    and w2: "w_port w2 = w_port w" "w_events w2 = w_events w" "w_now w2 = w_now w" "w_curTick w2 = w_curTick w"
      "w_log w2 = w_log w @ [Acquire t, Nb_transport_fw (Socket_of k) t BEGIN_REQ (pkt_payloadDelay (w_pkt w packet))]"
    by (rule free_request_reaches_target [OF lib D(1) adm [unfolded port_env_def] k_def k None D(2)])
      (simp add: port_env_def port_answers_def)
  obtain h where h: "updateBlockingMap k (Some t) Request (helper w2) = Inr h"
      "blocking h = (blocking (helper w))(Request := (blocking (helper w) Request)(k := Some t))"
      "port_ok n H (set_helper h w2)"
    by (rule port_blocks_request [OF t(5,1) k]) (simp add: w2(1))
  define y' where "y' = y\<lparr>y_port := set_helper h w2, y_peq := (y_peq y)(k := y_peq y k @ [(t, BEGIN_REQ)]),
    y_refs := (\<lambda>u. y_refs y u + (if u = t then 1 else 0))\<rparr>"
  have dead: "\<not> live_on H w i t" for i using t(1,2) by (simp add: live_on_def)
  note quiet = dead_quiet [OF inv w_def dead]
  have mem: "ToMem (gp w2 t) (y_router y k)" using t(3) by (intro range) (simp add: describes_def)
  have "recvTimingReq (port_env C True) packet w = Inr (True, set_helper h w2)"
    using r h(1) port_ok_not_cache(1) [OF t(5)] by (simp add: after_begin_req_def)
  moreover have "(\<lambda>v. y_refs y v + port_refs [Acquire t, Nb_transport_fw (Socket_of k) t BEGIN_REQ d] v)
      = (\<lambda>v. y_refs y v + (if v = t then 1 else 0))" for d by (auto simp: port_refs_def)
  ultimately have "sys_request C packet y = Inr (True, y')"
    using mem by (simp add: sys_request_def w_def [symmetric] port_done_def frame_simps w2(5) y'_def Let_def
        router_world_def [symmetric] r_nb_transport_fw_def) (simp add: router_world_def r_note_def)
  moreover have "cosim_inv tm n H y'"
  proof (rule inv_update [OF inv k w_def refl, of "{t}"])
    show "H v = Some k \<Longrightarrow> transaction_in_progress (y_router y' k) = Some v" for v
      using D(10) [of v k] k by (auto simp: y'_def split: if_splits)
    show "port_ok n H (y_port y')" using h(3) by (simp add: y'_def)
    have ev: "ev (y_port y') = ev w" by (rule ev_cong) (simp add: y'_def frame_simps w2)
    show "sock_ok k (ev (y_port y')) H (blocking (helper (y_port y')) Request k) (blocking (helper (y_port y')) Response k)
        (y_router y' k) (y_peq y' k)"
      using sock_ok_free [of k "ev w", OF _ quiet(1)] D(4) [OF k] None h(2) unfolding ev by (simp add: y'_def frame_simps)
    show "v \<in> {t} \<Longrightarrow> live_on H (y_port y') k v \<Longrightarrow> ToMem (gp (y_port y') v) (y_router y' k)" for v
      using mem by (simp add: y'_def frame_simps)
    show "v \<notin> {t} \<Longrightarrow> ev (y_port y') v = ev w v" for v by (simp add: ev)
    show "v \<in> {t} \<Longrightarrow> ev (y_port y') v \<noteq> [] \<Longrightarrow> event_ok H (y_port y') (y_router y' k) k v" for v
      using quiet(1) by (simp add: ev)
    show "v \<in> {t} \<Longrightarrow> live_on H w j v \<Longrightarrow> j = k" for v j using dead by simp
  qed (use D(2,3) D(9) [OF dead] h(2) w2 t quiet(2) [OF k] None in
      \<open>auto simp: y'_def frame_simps event_ok_def live_on_def split: if_splits\<close>)
  ultimately show ?thesis
    using k dead h(2) w2 by (intro exI [of _ t] exI [of _ y']) (simp add: y'_def frame_simps w_def [symmetric] k_def [symmetric])
qed

lemma request_ok_step:
  assumes inv: "cosim_inv tm n H y" and lib: "tlm_lib_ok (cl_tlm C)" and req: "request_ok C n packet y"
  shows "\<exists>accepted y'. sys_request C packet y = Inr (accepted, y') \<and> cosim_inv tm n H y'
    \<and> (accepted \<longleftrightarrow> blocking (helper (y_port y)) Request
          (target_socket_id (w_pkt (y_port y) packet) (w_port (y_port y))) = None)
    \<and> blocking (helper (y_port y')) Request (target_socket_id (w_pkt (y_port y) packet) (w_port (y_port y))) \<noteq> None"
proof (cases "blocking (helper (y_port y)) Request (target_socket_id (w_pkt (y_port y) packet) (w_port (y_port y)))")
  case None
  from accepted_request_ok [OF inv lib req None refl] None show ?thesis by auto
next
  case (Some u)
  then show ?thesis using refused_request_ok [OF inv req Some] by fastforce
qed

text \<open>The event that happens is for the transaction in progress at the router of its socket.\<close>

lemma event_stage:
  assumes inv: "cosim_inv tm n H y" and w: "w = y_port y" and ev: "ev w t = ph # phs"
  obtains (end_req) i where "i < n" "ph = END_REQ" "blocking (helper w) Request i = Some t"
      "transaction_in_progress (y_router y i) = Some t" "blocking (helper w) Response i = None"
      "ends (y_peq y i) = 0" "reqs (y_peq y i) = []" "end_req_pending (y_router y i) = None"
      "phs = (if target_done (y_router y i) then [] else [BEGIN_RESP])"
  | (begin_resp) i where "i < n" "ph = BEGIN_RESP" "phs = []" "H t = Some i"
      "transaction_in_progress (y_router y i) = Some t" "\<not> target_done (y_router y i)"
      "blocking (helper w) Response i = None" "ends (y_peq y i) = 0"
      "waiting (ev w) (blocking (helper w) Request i) (reqs (y_peq y i)) (end_req_pending (y_router y i))"
proof -
  note D = cosim_invD [OF inv w]
  obtain i where i: "i < n" "event_ok H w (y_router y i) i t" using D(5) [of t] ev by auto
  show thesis
  proof (cases "H t")
    case None
    with i(2) D(4) [OF i(1)] ev show ?thesis
      by (intro end_req [OF i(1)]) (auto simp: sock_ok_def event_ok_def waiting_def split: if_splits)
  next
    case (Some k)
    with i(2) port_ok_request(1) [OF D(1), of i t] have "H t = Some i" by (auto simp: event_ok_def)
    with i(2) D(4) [OF i(1)] ev port_ok_request(1) [OF D(1), of i t] port_ok_blocking(3) [OF D(1), of Response i t]
    show ?thesis
      by (intro begin_resp [OF i(1)]) (auto simp: sock_ok_def event_ok_def split: if_splits)
  qed
qed

lemma work_event:
  assumes "next_event j w" and "w_events w ! j = (c, t, ph)"
  shows "events_work w = event_work ph +
    events_work (w\<lparr>w_events := take j (w_events w) @ drop (Suc j) (w_events w)\<rparr>)"
proof -
  have j: "j < length (w_events w)" using assms(1) by (simp add: next_event_def)
  have "events_work w = sum_list (map (\<lambda>e. event_work (snd (snd e)))
      (take j (w_events w) @ (c, t, ph) # drop (Suc j) (w_events w)))"
    unfolding events_work_def using id_take_nth_drop [OF j] assms(2) by simp
  then show ?thesis by (simp add: events_work_def)
qed

lemma port_env_rely: "tlm_lib_ok (cl_tlm C) \<Longrightarrow> slave_rely (port_env C accept) n"
  unfolding port_env_def env_rely_iff [symmetric] by (rule passive_env_rely)

text \<open>What the port does with an event, apart from its calls.\<close>

definition event_effect :: "nat \<Rightarrow> cosim \<Rightarrow> cosim \<Rightarrow> bool" where
  "event_effect j y y' \<longleftrightarrow>
     w_events (y_port y') = take j (w_events (y_port y)) @ drop (Suc j) (w_events (y_port y))
   \<and> w_now (y_port y') = w_now (y_port y)
   \<and> (\<forall>k. blocking (helper (y_port y')) Request k \<noteq> blocking (helper (y_port y)) Request k \<longrightarrow>
        blocking (helper (y_port y')) Request k = None
      \<and> blocking (helper (y_port y)) Request k = Some (fst (snd (w_events (y_port y) ! j)))
      \<and> snd (snd (w_events (y_port y) ! j)) = END_REQ)"

lemma end_req_ok:
  assumes inv: "cosim_inv tm n H y" and lib: "tlm_lib_ok (cl_tlm C)"
    and nx: "next_event j (y_port y)" "w_events (y_port y) ! j = (c, t, END_REQ)"
  shows "\<exists>H' y'. sys_event C accept j y = Inr y' \<and> cosim_inv tm n H' y' \<and> work n y' < work n y
    \<and> (accept \<longrightarrow> held (y_port y') = held (y_port y)) \<and> event_effect j y y'
    \<and> (w_log (y_port y') = w_log (y_port y) \<or> w_log (y_port y') = w_log (y_port y) @ [Send_retry_req])"
proof -
  define w where "w = y_port y"
  define w0 where "w0 = w\<lparr>w_events := take j (w_events w) @ drop (Suc j) (w_events w)\<rparr>"
  note D = cosim_invD [OF inv w_def]
  note evs = next_event_ev [OF nx [folded w_def] w0_def]
  obtain i where i: "i < n" "blocking (helper w) Request i = Some t"
      "transaction_in_progress (y_router y i) = Some t" "blocking (helper w) Response i = None"
      "ends (y_peq y i) = 0" "reqs (y_peq y i) = []" "end_req_pending (y_router y i) = None"
      "ev w0 t = (if target_done (y_router y i) then [] else [BEGIN_RESP])"
    by (rule event_stage [OF inv w_def evs(1)]) auto
  note own = port_ok_request [OF D(1) i(2)]
  have ok0: "port_ok n H w0" using D(1) port_ok_cong [of w0 w] by (simp add: w0_def)
  have b0: "blocking (helper w0) Request i = Some t" using i(2) by (simp add: w0_def)
  obtain h where h: "blocking h = (blocking (helper w))(Request := (blocking (helper w) Request)(i := None))"
      "pec_end_req (port_env C accept) t w0 = Inr (if owed (helper w0) i
         then note_call Send_retry_req (set_helper h w0) else set_helper h w0)"
    using pec_end_req_effect [OF ok0 b0, of "port_env C accept" thesis] by (auto simp: w0_def port_env_def split: if_splits)
  define w1 where "w1 = (if owed (helper w0) i then note_call Send_retry_req (set_helper h w0) else set_helper h w0)"
  have w1: "w_log w1 = w_log w @ (if owed (helper w0) i then [Send_retry_req] else [])"
      "gp w1 = gp w" "w_curTick w1 = w_curTick w" "w_now w1 = w_now w" "w_events w1 = w_events w0"
      "w_port w1 = (w_port w)\<lparr>blk_pkt_helper := h\<rparr>"
    by (simp_all add: w1_def w0_def frame_simps gp_def)
  obtain k' where k': "blocking (helper w0) Request k' = Some t" "port_ok n (H(t \<mapsto> k')) w1"
    using slave_rely.pec_end_req_keeps [OF port_env_rely [OF lib] ok0 h(2)] unfolding w1_def by blast
  have "k' = i" using port_ok_blocking(2) [OF ok0 k'(1)] port_ok_blocking(2) [OF ok0 b0] by simp
  then have ok1: "port_ok n (H(t \<mapsto> i)) w1" using k'(2) by simp
  define y' where "y' = y\<lparr>y_port := w1\<rparr>"
  have "pec (port_env C accept) t END_REQ w0 = Inr w1"
    using pec_END_REQ [OF ok0] h(2) by (simp add: w1_def)
  then have "sys_event C accept j y = Inr y'"
    using nx(2) by (simp add: sys_event_def w_def [symmetric] w0_def [symmetric] port_done_def w1(1) port_refs_def y'_def)
  moreover have "cosim_inv tm n (H(t \<mapsto> i)) y'"
  proof (rule inv_update [OF inv i(1) w_def refl, of "{t}"])
    show "(H(t \<mapsto> i)) v = Some i \<Longrightarrow> transaction_in_progress (y_router y' i) = Some v" for v
      using D(10) [of v i] i(3) by (auto simp: y'_def split: if_splits)
    show "port_ok n (H(t \<mapsto> i)) (y_port y')" using ok1 by (simp add: y'_def)
    have ev1: "ev (y_port y') = ev w0" by (rule ev_cong) (simp add: y'_def w1)
    show "sock_ok i (ev (y_port y')) (H(t \<mapsto> i)) (blocking (helper (y_port y')) Request i)
        (blocking (helper (y_port y')) Response i) (y_router y' i) (y_peq y' i)"
      using D(4) [OF i(1)] i h(1) unfolding ev1
      by (auto simp: sock_ok_def y'_def w1 waiting_def)
    show "v \<in> {t} \<Longrightarrow> live_on H w j' v \<Longrightarrow> j' = i" for v j' using live_unique [OF D(1) _ own(3)] by simp
    show "v \<notin> {t} \<Longrightarrow> ev (y_port y') v = ev w v" for v using evs(2) by (simp add: ev1)
    show "v \<in> {t} \<Longrightarrow> live_on (H(t \<mapsto> i)) (y_port y') i v \<Longrightarrow> ToMem (gp (y_port y') v) (y_router y' i)" for v
      using D(7) [OF own(3)] by (simp add: y'_def w1)
    show "v \<in> {t} \<Longrightarrow> y_refs y' v =
        (if live_on (H(t \<mapsto> i)) (y_port y') i v then 1 + holds (y_router y' i) v else 0)" for v
      using D(8) [OF own(3)] by (simp add: y'_def live_on_def)
  qed (use D(2,3) i w1 h(1) in \<open>auto simp: y'_def event_ok_def split: if_splits\<close>)
  moreover have "work n y' < work n y"
    using work_event [OF nx] events_work_cong [of w1 w0] w1(5)
    by (simp add: work_def y'_def w_def [symmetric] w0_def [symmetric] event_work_def)
  moreover have "held (y_port y') = held (y_port y)"
    using w1(6) h(1) by (simp add: held_def y'_def w_def [symmetric] fun_eq_iff)
  moreover have "event_effect j y y'"
    using w1 h(1) i(2) nx(2) by (simp add: event_effect_def y'_def w_def [symmetric] w0_def)
  moreover have "w_log (y_port y') = w_log (y_port y) \<or> w_log (y_port y') = w_log (y_port y) @ [Send_retry_req]"
    using w1(1) by (simp add: y'_def w_def [symmetric])
  ultimately show ?thesis by blast
qed

lemma offer_response_frame:
  assumes "offer_response (port_env C accept) i w = Inr (need_retry, w1)"
  shows "w_port w1 = w_port w" "w_pool w1 = w_pool w" "w_events w1 = w_events w"
    "w_now w1 = w_now w" "w_curTick w1 = w_curTick w"
    "w_log w1 = w_log w \<or> w_log w1 = w_log w @ [Send_timing_resp i]"
    "need_retry \<Longrightarrow> \<not> accept"
  using assms
  by (auto simp: offer_response_def port_env_def port_answers_def calm_calls respond_if_needed_def frame_simps Let_def split: if_splits)

lemma port_offers:
  obtains need_retry w1 where "offer_response (port_env C accept) i w = Inr (need_retry, w1)"
proof -
  have "\<exists>r. offer_response (port_env C accept) i w = Inr r"
    by (auto simp: offer_response_def sendTimingResp_def port_env_def passive_env_def Let_def)
  with that show thesis by (metis prod.collapse)
qed

text \<open>The start of a response for a free channel: the offer, and what follows on gem5's answer.\<close>

lemma begin_resp_parts:
  assumes ok: "port_ok n H w" and own: "H t = Some k" and now: "w_curTick w = w_now w" and k: "k < n"
    and free: "blocking (helper w) Response k = None"
  shows "pec E t BEGIN_RESP w = bindr (offer_response E (packet_of (gp w t)) w) (\<lambda>(need_retry, v).
    if need_retry then hold_response t k v else finish_transaction E t k v)"
proof -
  note nc = port_ok_not_cache [OF ok]
  have "\<not> isBlockingTrans (Some t) Request (helper w)"
    using isBlockingTrans_Some [OF nc(6)] port_ok_blocking(3) [OF ok] own by fastforce
  then show ?thesis
    using now owned_extension [OF port_ok_owned [OF ok own]] helper_ok_get [OF nc(6) k] free nc(1,2)
    by (simp add: pec_def pec_begin_resp_def getPacket_def getCoreID_def)
qed

text \<open>The start of a response at the port: finished, or held when gem5 does not take it.\<close>

lemma begin_resp_outcome:
  assumes lib: "tlm_lib_ok (cl_tlm C)" and ok: "port_ok n H w" and own: "H t = Some k"
    and now: "w_curTick w = w_now w" and k: "k < n" and tm: "bound_to tm n (w_port w)"
    and free: "blocking (helper w) Response k = None"
  obtains w' offers where "pec (port_env C accept) t BEGIN_RESP w = Inr w'" and "port_ok n (H(t := None)) w'"
    and "bound_to tm n (w_port w')" "w_events w' = w_events w" "w_now w' = w_now w" "w_curTick w' = w_curTick w"
    and "\<forall>u. u \<noteq> t \<longrightarrow> gp w' u = gp w u" and "offers = [] \<or> (\<exists>i. offers = [Send_timing_resp i])"
    and "w_log w' = w_log w @ offers @ [Nb_transport_fw (Socket_of k) t END_RESP 0, Release t] \<and> w_port w' = w_port w
      \<or> w_log w' = w_log w @ offers \<and> \<not> accept \<and> gp w' = gp w
        \<and> blocking (helper w') = (blocking (helper w))(Response := (blocking (helper w) Response)(k := Some t))"
proof -
  let ?E = "port_env C accept"
  note nc = port_ok_not_cache [OF ok]
  obtain need_retry w1 where o: "offer_response ?E (packet_of (gp w t)) w = Inr (need_retry, w1)"
    by (rule port_offers)
  note f = offer_response_frame [OF o]
  have r: "pec ?E t BEGIN_RESP w = (if need_retry then hold_response t k w1 else finish_transaction ?E t k w1)"
    using begin_resp_parts [OF ok own now k free, of ?E] o by simp
  have ok1: "port_ok n H w1" using ok port_ok_cong [OF f(1,2)] by simp
  have gp1: "gp w1 = gp w" using f(2) by (simp add: gp_def)
  have tm1: "bound_to tm n (w_port w1)" using tm f(1) by simp
  define offers where "offers = drop (length (w_log w)) (w_log w1)"
  have offers: "w_log w1 = w_log w @ offers" "offers = [] \<or> (\<exists>i. offers = [Send_timing_resp i])"
    using f(6) by (auto simp: offers_def)
  show thesis
  proof (cases need_retry)
    case True
    obtain h where h: "updateBlockingMap k (Some t) Response (helper w1) = Inr h"
        "blocking h = (blocking (helper w))(Response := (blocking (helper w) Response)(k := Some t))"
      using helper_ok_put [OF nc(6) less_imp_le [OF k], of "Some t" Response] f(1) by auto
    have "port_ok n (H(t := None)) (set_helper h w1)" by (rule port_ok_block [OF ok1 own k h(1)])
    moreover have "pec ?E t BEGIN_RESP w = Inr (set_helper h w1)"
      using True r f(1) nc(1) h(1) by (simp add: hold_response_def)
    ultimately show thesis
      using True f h tm1 gp1 offers by (intro that [of "set_helper h w1" offers]) (simp_all add: frame_simps)
  next
    case False
    obtain w' where w': "finish_transaction ?E t k w1 = Inr w'"
        "w_log w' = w_log w1 @ [Nb_transport_fw (Socket_of k) t END_RESP 0, Release t]"
        "w_port w' = w_port w1" "\<forall>u. u \<noteq> t \<longrightarrow> gp w' u = gp w1 u"
        "w_curTick w' = w_curTick w1" "w_now w' = w_now w1" "w_events w' = w_events w1"
      unfolding port_env_def by (rule finish_transaction_trace [OF tm1 k])
    have "port_ok n (H(t := None)) w'"
      using slave_rely.finish_transaction_ok [OF port_env_rely [OF lib] ok1 own w'(1)] .
    then show thesis
      using False r w' f tm1 gp1 offers by (intro that [of w' offers]) simp_all
  qed
qed

text \<open>What is known when a response begins: its socket, and what the port has done with it.\<close>

lemma begin_resp_stage:
  assumes inv: "cosim_inv tm n H y" and lib: "tlm_lib_ok (cl_tlm C)" and w_def: "w = y_port y"
    and nx: "next_event j w" "w_events w ! j = (c, t, BEGIN_RESP)"
  obtains i w' offers where "i < n" and "H t = Some i" "blocking (helper w) Response i = None"
    "blocking (helper w) Request i \<noteq> Some t" "y_refs y t = 1" "transaction_in_progress (y_router y i) = Some t"
    "\<not> target_done (y_router y i)" "ends (y_peq y i) = 0"
    and "waiting (ev w') (blocking (helper w) Request i) (reqs (y_peq y i)) (end_req_pending (y_router y i))"
    and "port_ok n (H(t := None)) w'" "bound_to tm n (w_port w')" "w_curTick w' = w_now w'"
    and "\<forall>v. v \<noteq> t \<longrightarrow> ev w' v = ev w v" "ev w' t = []" "events_work w = 2 + events_work w'" "\<forall>u. u \<noteq> t \<longrightarrow> gp w' u = gp w u"
    and "w_events w' = take j (w_events w) @ drop (Suc j) (w_events w)" "w_now w' = w_now w"
    and "sys_event C accept j y = port_done y w'" and "offers = [] \<or> (\<exists>i. offers = [Send_timing_resp i])"
    and "w_log w' = w_log w @ offers @ [Nb_transport_fw (Socket_of i) t END_RESP 0, Release t] \<and> w_port w' = w_port w
      \<or> w_log w' = w_log w @ offers \<and> \<not> accept \<and> gp w' = gp w
        \<and> blocking (helper w') = (blocking (helper w))(Response := (blocking (helper w) Response)(i := Some t))"
proof -
  define w0 where "w0 = w\<lparr>w_events := take j (w_events w) @ drop (Suc j) (w_events w)\<rparr>"
  note D = cosim_invD [OF inv w_def] and evs = next_event_ev [OF nx w0_def]
  obtain i where i: "i < n" "H t = Some i" "blocking (helper w) Response i = None"
      "transaction_in_progress (y_router y i) = Some t" "\<not> target_done (y_router y i)" "ends (y_peq y i) = 0" "ev w0 t = []"
    and wait: "waiting (ev w) (blocking (helper w) Request i) (reqs (y_peq y i)) (end_req_pending (y_router y i))"
    by (rule event_stage [OF inv w_def evs(1)]) auto
  have live: "live_on H w i t" using i(2) by (simp add: live_on_def)
  have other: "blocking (helper w) Request i \<noteq> Some t" "end_req_pending (y_router y i) \<noteq> Some t"
    using port_ok_request(1) [OF D(1), of i t] i(2) wait by (auto simp: waiting_def split: option.splits)
  have refs: "y_refs y t = 1" using D(8) [OF live] i(5) other by (simp add: holds_def)
  have w0: "port_ok n H w0" "w_curTick w0 = w_now w0" "bound_to tm n (w_port w0)" "blocking (helper w0) Response i = None"
      "w_log w0 = w_log w" "w_port w0 = w_port w" "gp w0 = gp w" "helper w0 = helper w"
    using D(1-3) i(3) port_ok_cong [of w0 w] by (simp_all add: w0_def gp_def)
  obtain w' offers where p: "pec (port_env C accept) t BEGIN_RESP w0 = Inr w'" "port_ok n (H(t := None)) w'"
      "bound_to tm n (w_port w')" "w_events w' = w_events w0" "w_now w' = w_now w0" "w_curTick w' = w_curTick w0"
    and gp': "\<forall>u. u \<noteq> t \<longrightarrow> gp w' u = gp w0 u" and offers: "offers = [] \<or> (\<exists>i. offers = [Send_timing_resp i])"
    and out: "w_log w' = w_log w0 @ offers @ [Nb_transport_fw (Socket_of i) t END_RESP 0, Release t] \<and> w_port w' = w_port w0
      \<or> w_log w' = w_log w0 @ offers \<and> \<not> accept \<and> gp w' = gp w0
        \<and> blocking (helper w') = (blocking (helper w0))(Response := (blocking (helper w0) Response)(i := Some t))"
    by (rule begin_resp_outcome [OF lib w0(1) i(2) w0(2) i(1) w0(3,4)])
  have ev': "ev w' = ev w0" using p(4) by (rule ev_cong)
  have ev_other: "ev w' v = ev w v" if "v \<noteq> t" for v using evs(2) that by (simp add: ev')
  have wait': "waiting (ev w') (blocking (helper w) Request i) (reqs (y_peq y i)) (end_req_pending (y_router y i))"
    using wait ev_other other(1) by (auto simp: waiting_def split: option.splits)
  have "sys_event C accept j y = port_done y w'"
    using nx(2) p(1) by (simp add: sys_event_def w_def [symmetric] w0_def [symmetric])
  moreover have "events_work w = 2 + events_work w'"
    using work_event [OF nx] events_work_cong [OF p(4)] by (simp add: w0_def [symmetric] event_work_def)
  moreover have "w_events w' = take j (w_events w) @ drop (Suc j) (w_events w)" "w_now w' = w_now w"
    using p(4,5) by (simp_all add: w0_def)
  ultimately show thesis
    using i ev' p w0 gp' out
    by (intro that [OF i(1-3) other(1) refs i(4-6) wait' p(2,3) _ _ _ _ _ _ _ _ offers]) (simp_all add: evs(2))
qed

text \<open>The transaction \<open>t\<close> of socket \<open>i\<close> leaves the ownership of the port for the table or for good.\<close>

lemma response_inv:
  assumes inv: "cosim_inv tm n H y" and w: "w = y_port y" and own: "i < n" "H t = Some i"
    and port: "port_ok n (H(t := None)) (y_port y')" "bound_to tm n (w_port (y_port y'))" "w_curTick (y_port y') = w_now (y_port y')"
    and evs: "\<And>v. v \<noteq> t \<Longrightarrow> ev (y_port y') v = ev w v" "ev (y_port y') t = []"
    and same: "y_router y' = y_router y" "\<And>j. j \<noteq> i \<Longrightarrow> y_peq y' j = y_peq y j" "\<And>u. u \<noteq> t \<Longrightarrow> y_refs y' u = y_refs y u"
      "\<And>u. u \<noteq> t \<Longrightarrow> gp (y_port y') u = gp w u" "blocking (helper (y_port y')) Request = blocking (helper w) Request"
      "\<And>j. j \<noteq> i \<Longrightarrow> blocking (helper (y_port y')) Response j = blocking (helper w) Response j"
      "\<And>u. u \<noteq> t \<Longrightarrow> blocking (helper (y_port y')) Response i = Some u \<longleftrightarrow> blocking (helper w) Response i = Some u"
    and sock: "sock_ok i (ev (y_port y')) (H(t := None)) (blocking (helper (y_port y')) Request i)
        (blocking (helper (y_port y')) Response i) (y_router y' i) (y_peq y' i)"
    and refs: "y_refs y' t = (if live_on (H(t := None)) (y_port y') i t then 1 + holds (y_router y' i) t else 0)"
      "live_on (H(t := None)) (y_port y') i t \<Longrightarrow> ToMem (gp (y_port y') t) (y_router y' i)"
  shows "cosim_inv tm n (H(t := None)) y'"
proof (rule inv_update [OF inv own(1) w refl, of "{t}"])
  note D = cosim_invD [OF inv w]
  have live: "live_on H w i t" using own(2) by (simp add: live_on_def)
  show "v \<in> {t} \<Longrightarrow> live_on H w j' v \<Longrightarrow> j' = i" for v j' using live_unique [OF D(1) _ live] by simp
  show "(H(t := None)) v = Some i \<Longrightarrow> transaction_in_progress (y_router y' i) = Some v" for v
    using D(10) [of v i] own(2) by (auto simp: same(1) split: if_splits)
  show "blocking (helper (y_port y')) ty j = blocking (helper w) ty j" if "j \<noteq> i" for ty j
    using same(5,6) that by (cases ty) simp_all
  show "blocking (helper (y_port y')) ty i = Some u \<longleftrightarrow> blocking (helper w) ty i = Some u" if "u \<notin> {t}" for ty u
    using same(5,7) that by (cases ty) auto
  show "event_ok (H(t := None)) (y_port y') (y_router y' i) i u"
    if "u \<notin> {t}" "event_ok H w (y_router y i) i u" "ev w u \<noteq> []" for u
    using that same(1,5) by (auto simp: event_ok_def)
qed (use port evs same sock refs in auto)

lemma begin_resp_ok:
  assumes inv: "cosim_inv tm n H y" and lib: "tlm_lib_ok (cl_tlm C)"
    and nx: "next_event j (y_port y)" "w_events (y_port y) ! j = (c, t, BEGIN_RESP)"
  shows "\<exists>H' y'. sys_event C accept j y = Inr y' \<and> cosim_inv tm n H' y' \<and> work n y' < work n y
    \<and> (accept \<longrightarrow> held (y_port y') = held (y_port y)) \<and> event_effect j y y'
    \<and> (\<exists>i offers. i < n \<and> transaction_in_progress (y_router y i) = Some t \<and> ends (y_peq y i) = 0 \<and> (offers = [] \<or> (\<exists>p. offers = [Send_timing_resp p]))
        \<and> (w_log (y_port y') = w_log (y_port y) @ offers @ [Nb_transport_fw (Socket_of i) t END_RESP 0, Release t]
         \<or> w_log (y_port y') = w_log (y_port y) @ offers \<and> \<not> accept))"
proof -
  define w where "w = y_port y"
  note D = cosim_invD [OF inv w_def]
  obtain i w' offers where i: "i < n" "H t = Some i" "blocking (helper w) Response i = None"
      "blocking (helper w) Request i \<noteq> Some t" "y_refs y t = 1" "transaction_in_progress (y_router y i) = Some t"
      "\<not> target_done (y_router y i)" "ends (y_peq y i) = 0"
    and wait: "waiting (ev w') (blocking (helper w) Request i) (reqs (y_peq y i)) (end_req_pending (y_router y i))"
    and p: "port_ok n (H(t := None)) w'" "bound_to tm n (w_port w')" "w_curTick w' = w_now w'"
    and evs: "\<forall>v. v \<noteq> t \<longrightarrow> ev w' v = ev w v" "ev w' t = []" "events_work w = 2 + events_work w'" "\<forall>u. u \<noteq> t \<longrightarrow> gp w' u = gp w u"
    and eff: "w_events w' = take j (w_events w) @ drop (Suc j) (w_events w)" "w_now w' = w_now w"
    and step: "sys_event C accept j y = port_done y w'" and offers: "offers = [] \<or> (\<exists>i. offers = [Send_timing_resp i])"
    and out: "w_log w' = w_log w @ offers @ [Nb_transport_fw (Socket_of i) t END_RESP 0, Release t] \<and> w_port w' = w_port w
      \<or> w_log w' = w_log w @ offers \<and> \<not> accept \<and> gp w' = gp w
        \<and> blocking (helper w') = (blocking (helper w))(Response := (blocking (helper w) Response)(i := Some t))"
    by (rule begin_resp_stage [OF inv lib w_def nx [folded w_def], where accept = accept])
  have live: "live_on H w i t" using i(2) by (simp add: live_on_def)
  from out show ?thesis
  proof
    assume fin: "w_log w' = w_log w @ offers @ [Nb_transport_fw (Socket_of i) t END_RESP 0, Release t] \<and> w_port w' = w_port w"
    define y' where "y' = y\<lparr>y_port := w', y_peq := (y_peq y)(i := y_peq y i @ [(t, END_RESP)]),
      y_refs := (\<lambda>u. y_refs y u - (if u = t then 1 else 0))\<rparr>"
    have "blocking (helper w) ty i \<noteq> Some t" for ty using i(3,4) by (cases ty) simp_all
    then have dead: "\<not> live_on (H(t := None)) w' i t" using fin by (simp add: live_on_def)
    have "sys_event C accept j y = Inr y'"
      using fin offers D(7) [OF live] unfolding step
      by (auto simp: port_done_def w_def [symmetric] Let_def port_refs_def y'_def fun_eq_iff r_nb_transport_fw_def
          router_world_def r_note_def)
    moreover have "cosim_inv tm n (H(t := None)) y'"
      using D(4) [OF i(1)] i fin wait p evs dead
      by (intro response_inv [OF inv w_def i(1,2)]) (auto simp: y'_def sock_ok_def)
    moreover have "work n y' < work n y"
      using work_less [OF i(1), of y' y] evs(3) by (simp add: y'_def w_def [symmetric] router_work_def)
    moreover have "held (y_port y') = held (y_port y)" using fin by (simp add: held_def y'_def w_def [symmetric] fun_eq_iff)
    moreover have "event_effect j y y'" using fin eff by (simp add: event_effect_def y'_def w_def [symmetric])
    moreover have "w_log (y_port y') = w_log (y_port y) @ offers @ [Nb_transport_fw (Socket_of i) t END_RESP 0, Release t]"
      using fin by (simp add: y'_def w_def [symmetric])
    ultimately show ?thesis using i(1,6,8) offers by blast
  next
    assume held: "w_log w' = w_log w @ offers \<and> \<not> accept \<and> gp w' = gp w
        \<and> blocking (helper w') = (blocking (helper w))(Response := (blocking (helper w) Response)(i := Some t))"
    define y' where "y' = y\<lparr>y_port := w'\<rparr>"
    have "live_on (H(t := None)) w' i t" using held by (auto simp: live_on_def)
    have "sys_event C accept j y = Inr y'"
      using held offers unfolding step by (auto simp: port_done_def w_def [symmetric] Let_def port_refs_def y'_def)
    moreover have "cosim_inv tm n (H(t := None)) y'"
      using D(4) [OF i(1)] D(7,8) [OF live] i held wait p evs \<open>live_on (H(t := None)) w' i t\<close>
      by (intro response_inv [OF inv w_def i(1,2)]) (auto simp: y'_def sock_ok_def)
    moreover have "work n y' < work n y"
      using work_less [OF i(1), of y' y] evs(3) by (simp add: y'_def w_def [symmetric])
    moreover have "event_effect j y y'" using held eff by (simp add: event_effect_def y'_def w_def [symmetric])
    moreover have "w_log (y_port y') = w_log (y_port y) @ offers" using held by (simp add: y'_def w_def [symmetric])
    ultimately show ?thesis using held i(1,6,8) offers by blast
  qed
qed

section \<open>Retrying the held responses\<close>

lemma resp_retry_loop_mono:
  "resp_retry_loop E m r w = Inr w' \<Longrightarrow> m \<le> m' \<Longrightarrow> resp_retry_loop E m' r w = Inr w'"
proof (induction m arbitrary: r w m')
  case 0
  then show ?case by (cases m') (simp_all split: if_splits)
next
  case (Suc m)
  obtain k where k: "m' = Suc k" using Suc.prems(2) by (cases m') simp_all
  show ?case
  proof (cases "resp_retry_round E r w")
    case (Inr w1)
    with Suc.prems k Suc.IH [of "getBlockingResponse (helper w1)" w1 k] show ?thesis
      by (auto simp: resp_retry_loop.simps [of E "Suc _"] simp del: resp_retry_loop.simps split: if_splits)
  qed (use Suc.prems k in \<open>auto split: if_splits\<close>)
qed

lemma to_routers_append: "to_routers g (xs @ ys) y = bindr (to_routers g xs y) (to_routers g ys)"
  by (induction g xs y rule: to_routers.induct) (auto simp: bindr_def split: sum.splits)

lemma retry_calls_held:
  "retry_calls w k = (case held w k of None \<Rightarrow> []
     | Some t \<Rightarrow> [Send_timing_resp (packet_of (gp w t)), Nb_transport_fw (Socket_of k) t END_RESP 0, Release t])"
  by (simp add: retry_calls_def held_def)

lemma to_routers_retry:
  assumes "distinct ks" and "\<And>k t. k \<in> set ks \<Longrightarrow> held w k = Some t \<Longrightarrow> ToMem (g END_RESP t) (y_router y k)"
  shows "to_routers g (concat (map (retry_calls w) ks)) y = Inr (y\<lparr>y_peq := (\<lambda>k. y_peq y k
     @ (if k \<in> set ks then case held w k of None \<Rightarrow> [] | Some t \<Rightarrow> [(t, END_RESP)] else []))\<rparr>)"
  using assms
proof (induction ks arbitrary: y)
  case (Cons k ks)
  define y1 where "y1 = y\<lparr>y_peq := (y_peq y)(k := y_peq y k
      @ (case held w k of None \<Rightarrow> [] | Some t \<Rightarrow> [(t, END_RESP)]))\<rparr>"
  have "to_routers g (retry_calls w k) y = Inr y1"
    using Cons.prems(2) [of k] by (auto simp: retry_calls_held y1_def r_nb_transport_fw_def router_world_def r_note_def
        split: option.split)
  moreover have "to_routers g (concat (map (retry_calls w) ks)) y1 = Inr (y1\<lparr>y_peq := (\<lambda>j. y_peq y1 j
     @ (if j \<in> set ks then case held w j of None \<Rightarrow> [] | Some t \<Rightarrow> [(t, END_RESP)] else []))\<rparr>)"
    using Cons.prems by (intro Cons.IH) (auto simp: y1_def)
  ultimately show ?case using Cons.prems(1) by (auto simp: to_routers_append y1_def fun_eq_iff)
qed simp

lemma port_refs_append: "port_refs (xs @ ys) t = port_refs xs t + port_refs ys t"
  by (simp add: port_refs_def)

lemma port_refs_retry:
  assumes "distinct ks" and "\<And>j k. held w j = Some t \<Longrightarrow> held w k = Some t \<Longrightarrow> j = k"
  shows "port_refs (concat (map (retry_calls w) ks)) t = (if \<exists>k \<in> set ks. held w k = Some t then - 1 else 0)"
  using assms(1)
proof (induction ks)
  case (Cons k ks)
  have one: "port_refs (retry_calls w k) t = (if held w k = Some t then - 1 else 0)"
    by (simp add: retry_calls_held port_refs_def split: option.split)
  have "\<not> (\<exists>j \<in> set ks. held w j = Some t)" if "held w k = Some t"
    using Cons.prems assms(2) that by auto
  with one Cons show ?case by (auto simp: port_refs_append)
qed (simp add: port_refs_def)

lemma sock_ok_held:
  assumes "sock_ok i evs H q (Some t) r P"
  shows "transaction_in_progress r = Some t" "\<not> target_done r" "evs t = []"
    "H t \<noteq> Some i \<Longrightarrow> sock_ok i evs H q None r (P @ [(u, END_RESP)])"
    "q \<noteq> Some t \<Longrightarrow> holds r t = 0"
  using assms by (auto simp: sock_ok_def holds_def waiting_def split: option.splits if_splits)

lemma retry_outcome:
  assumes lib: "tlm_lib_ok (cl_tlm C)" and ok: "port_ok n H w" and tm: "bound_to tm n (w_port w)"
    and now: "w_curTick w = w_now w"
  obtains w' where "\<forall>rounds. Suc (unat n) \<le> rounds \<longrightarrow> recvRespRetry (port_env C True) rounds w = Inr w'"
    and "\<forall>rounds w''. recvRespRetry (port_env C True) rounds w = Inr w'' \<longrightarrow> w'' = w'"
    and "port_ok n H w'" "bound_to tm n (w_port w')" "w_events w' = w_events w" "w_now w' = w_now w" "w_curTick w' = w_curTick w"
    and "\<forall>u. (\<forall>k. held w k \<noteq> Some u) \<longrightarrow> gp w' u = gp w u"
    and "\<forall>k. held w' k = None" "blocking (helper w') Request = blocking (helper w) Request"
    and "w_log w' = w_log w @ concat (map (retry_calls w) (sockets_upto n))"
proof -
  let ?E = "port_env C True" and ?r = "getBlockingResponse (helper w)"
  have acc: "a_sendTimingResp (port_answers True) = (\<lambda>_ _. True)" by (simp add: port_answers_def)
  have "length (sockets_upto n) \<le> Suc (unat n)" by (simp add: sockets_upto_def)
  then have "length (filter (\<lambda>k. blocking (helper w) Response k \<noteq> None) (sockets_upto n)) \<le> Suc (unat n)"
    using length_filter_le order.trans by blast
  from resp_retry_loop_drains [OF lib ok tm acc this, of "cl_gem5 C"] obtain w' where
    w': "resp_retry_loop ?E (Suc (unat n)) ?r w = Inr w'"
      "\<forall>k. blocking (helper w') Response k = None" "blocking (helper w') Request = blocking (helper w) Request"
      "w_log w' = w_log w @ concat (map (retry_calls w) (sockets_upto n))"
    unfolding port_env_def by blast
  note frame = resp_retry_loop_frame [OF lib ok tm acc w'(1) [unfolded port_env_def]]
  have loop: "recvRespRetry ?E rounds w = Inr w'" if "Suc (unat n) \<le> rounds" for rounds
    using resp_retry_loop_mono [OF w'(1) that] now by (simp add: recvRespRetry_def)
  have same: "w'' = w'" if "recvRespRetry ?E rounds w = Inr w''" for rounds w''
    using that now loop [of "max (Suc (unat n)) rounds"]
      resp_retry_loop_mono [of ?E rounds ?r w w'' "max (Suc (unat n)) rounds"] by (simp add: recvRespRetry_def)
  have "port_ok n H w'"
    using slave_rely.resp_retry_loop_keeps [OF port_env_rely [OF lib] ok w'(1)] .
  with w' frame loop same show thesis by (intro that [of w']) (simp_all add: held_def)
qed

lemma held_own:
  assumes "port_ok n H w" and "held w k = Some t"
  shows "H t = None" "k < n" "live_on H w k t" "blocking (helper w) Request k \<noteq> Some t"
  using port_ok_blocking [OF assms(1) assms(2) [unfolded held_def]] port_ok_request(2) [OF assms(1), of k t] assms(2)
  by (auto simp: live_on_def held_def)

lemma held_unique: "port_ok n H w \<Longrightarrow> held w j = Some t \<Longrightarrow> held w k = Some t \<Longrightarrow> j = k"
  using live_unique held_own(3) by metis

lemma live_on_held: "live_on H w i t \<longleftrightarrow> H t = Some i \<or> blocking (helper w) Request i = Some t \<or> held w i = Some t"
  unfolding live_on_def held_def by (metis (full_types) pktType.exhaust)

lemma live_after_retry:
  assumes ok: "port_ok n H w" and w': "\<And>k. held w' k = None" "blocking (helper w') Request = blocking (helper w) Request"
  shows "live_on H w' i t \<longleftrightarrow> live_on H w i t \<and> (\<forall>k. held w k \<noteq> Some t)"
proof -
  have "held w k \<noteq> Some t" if "H t = Some i \<or> blocking (helper w) Request i = Some t" for k
  proof
    assume k: "held w k = Some t"
    have "live_on H w i t" using that by (auto simp: live_on_held)
    then have "k = i" using live_unique [OF ok held_own(3) [OF ok k]] by simp
    then show False using that held_own(1,4) [OF ok k] by simp
  qed
  then show ?thesis using w' by (auto simp: live_on_held)
qed

definition retried :: "world \<Rightarrow> world \<Rightarrow> cosim \<Rightarrow> cosim" where
  "retried w w' y = y\<lparr>y_port := w',
     y_peq := (\<lambda>k. y_peq y k @ (case held w k of None \<Rightarrow> [] | Some t \<Rightarrow> [(t, END_RESP)])),
     y_refs := (\<lambda>t. y_refs y t - (if \<exists>k. held w k = Some t then 1 else 0))\<rparr>"

lemma port_done_retried:
  assumes ok: "port_ok n H (y_port y)" and mem: "\<And>k t. live_on H (y_port y) k t \<Longrightarrow> ToMem (gp (y_port y) t) (y_router y k)"
    and log: "w_log w' = w_log (y_port y) @ concat (map (retry_calls (y_port y)) (sockets_upto n))"
  shows "port_done y w' = Inr (retried (y_port y) w' y)"
proof -
  let ?w = "y_port y"
  have dist: "distinct (sockets_upto n)" using sorted_sockets_upto strict_sorted_iff by blast
  have upto: "k \<in> set (sockets_upto n)" if "held ?w k = Some t" for k t
    using held_own(2) [OF ok that] by (simp add: set_sockets_upto)
  have "(if k \<in> set (sockets_upto n) then case held ?w k of None \<Rightarrow> [] | Some t \<Rightarrow> [(t, END_RESP)] else [])
      = (case held ?w k of None \<Rightarrow> [] | Some t \<Rightarrow> [(t, END_RESP)])" for k
    using upto [of k] by (auto split: option.split)
  moreover have "port_refs (concat (map (retry_calls ?w) (sockets_upto n))) t = - (if \<exists>k. held ?w k = Some t then 1 else 0)" for t
    using port_refs_retry [OF dist, of ?w t] held_unique [OF ok] upto by auto
  ultimately show ?thesis
    using to_routers_retry [OF dist, of ?w] mem held_own(3) [OF ok]
    by (simp add: port_done_def log Let_def retried_def)
qed

lemma retried_inv:
  assumes inv: "cosim_inv tm n H y" and w: "w = y_port y"
    and w': "port_ok n H w'" "bound_to tm n (w_port w')" "w_events w' = w_events w" "w_now w' = w_now w" "w_curTick w' = w_curTick w"
      "\<And>u. (\<And>k. held w k \<noteq> Some u) \<Longrightarrow> gp w' u = gp w u"
      "\<And>k. held w' k = None" "blocking (helper w') Request = blocking (helper w) Request"
  shows "cosim_inv tm n H (retried w w' y)"
proof -
  let ?y = "retried w w' y"
  note D = cosim_invD [OF inv w]
  note own = held_own [OF D(1)]
  have ev': "ev w' = ev w" using w'(3) by (rule ev_cong)
  have "sock_ok i (ev w') H (blocking (helper w') Request i) (blocking (helper w') Response i) (y_router ?y i) (y_peq ?y i)"
    if "i < n" for i
    using D(4) [OF that] own(1) sock_ok_held(4) w'(7,8)
    by (cases "held w i") (simp_all add: retried_def held_def ev')
  moreover have "\<exists>i < n. event_ok H w' (y_router ?y i) i t" if "ev w' t \<noteq> []" for t
    using D(5) [of t] that ev' w'(8) by (simp add: retried_def event_ok_def)
  moreover have "i < n \<and> ToMem (gp w' t) (y_router ?y i) \<and> y_refs ?y t = 1 + holds (y_router ?y i) t"
    if "live_on H w' i t" for i t
  proof -
    have l: "live_on H w i t" "\<And>k. held w k \<noteq> Some t"
      using live_after_retry [OF D(1) w'(7,8)] that by simp_all
    show ?thesis using D(6-8) [OF l(1)] l(2) w'(6) [OF l(2)] by (simp add: retried_def)
  qed
  moreover have "y_refs ?y t = 0" if "\<And>i. \<not> live_on H w' i t" for t
  proof (cases "\<exists>k. held w k = Some t")
    case True
    then obtain k where k: "held w k = Some t" by blast
    then have "holds (y_router y k) t = 0"
      using sock_ok_held(5) D(4) [OF own(2) [OF k]] own(4) [OF k] by (metis held_def)
    then show ?thesis using D(8) [OF own(3) [OF k]] True by (simp add: retried_def)
  next
    case False
    then have "\<not> live_on H w i t" for i using that live_after_retry [OF D(1) w'(7,8)] by blast
    from D(9) [OF this] False show ?thesis by (simp add: retried_def)
  qed
  ultimately show ?thesis using w'(1-5) D(3,10) by (simp add: cosim_inv_def Let_def retried_def)
qed

lemma resp_retry_ok:
  assumes inv: "cosim_inv tm n H y" and lib: "tlm_lib_ok (cl_tlm C)"
  obtains y' where "\<And>rounds. Suc (unat n) \<le> rounds \<Longrightarrow> sys_resp_retry C rounds y = Inr y'"
    and "\<And>rounds y''. sys_resp_retry C rounds y = Inr y'' \<Longrightarrow> y'' = y'"
    and "cosim_inv tm n H y'" and "\<And>k. held (y_port y') k = None"
proof -
  note D = cosim_invD [OF inv refl]
  obtain w' where w': "\<forall>rounds. Suc (unat n) \<le> rounds \<longrightarrow> recvRespRetry (port_env C True) rounds (y_port y) = Inr w'"
      "\<forall>rounds w''. recvRespRetry (port_env C True) rounds (y_port y) = Inr w'' \<longrightarrow> w'' = w'"
      "port_ok n H w'" "bound_to tm n (w_port w')" "w_events w' = w_events (y_port y)" "w_now w' = w_now (y_port y)"
      "w_curTick w' = w_curTick (y_port y)" "\<forall>u. (\<forall>k. held (y_port y) k \<noteq> Some u) \<longrightarrow> gp w' u = gp (y_port y) u"
      "\<forall>k. held w' k = None" "blocking (helper w') Request = blocking (helper (y_port y)) Request"
      "w_log w' = w_log (y_port y) @ concat (map (retry_calls (y_port y)) (sockets_upto n))"
    by (rule retry_outcome [OF lib D(1-3)])
  have pd: "port_done y w' = Inr (retried (y_port y) w' y)"
    by (rule port_done_retried [OF D(1,7) w'(11)])
  have "cosim_inv tm n H (retried (y_port y) w' y)" 
    using w'(8,9) by (intro retried_inv [OF inv refl w'(3-7) _ _ w'(10)]) blast+
  moreover have "held (y_port (retried (y_port y) w' y)) k = None" for k
    using w'(9) by (simp add: retried_def)
  ultimately show thesis
    using w'(1,2) pd by (intro that [of "retried (y_port y) w' y"]) (auto simp: sys_resp_retry_def bindr_eq_Inr)
qed

end
