(* ===== verification/Co_Simulation_Properties.thy ===== *)
theory Co_Simulation_Properties
  imports Co_Simulation_Steps
begin

text \<open>
  The properties of a slave port with routers behind its sockets: no step that gem5, the routers or the
  event queues can take ends the simulation; every accepted request is answered in a bounded number
  of steps; and a transaction goes back to the pool exactly when its last reference is dropped.
\<close>

section \<open>Reachable states\<close>

lemma event_step_ok:
  assumes inv: "cosim_inv tm n H y" and lib: "tlm_lib_ok (cl_tlm C)" and nx: "next_event j (y_port y)"
  shows "\<exists>H' y'. sys_event C accept j y = Inr y' \<and> cosim_inv tm n H' y' \<and> work n y' < work n y
    \<and> (accept \<longrightarrow> held (y_port y') = held (y_port y))"
proof -
  obtain c t ph where e: "w_events (y_port y) ! j = (c, t, ph)" by (rule prod_cases3)
  have "ph = END_REQ \<or> ph = BEGIN_RESP"
    by (rule event_stage [OF inv refl next_event_ev(1) [OF nx e refl]]) simp_all
  then show ?thesis
    using end_req_ok [OF inv lib nx, of c t accept] begin_resp_ok [OF inv lib nx, of c t accept] e by blast
qed

lemma peq_step_ok:
  assumes "cosim_inv tm n H y" and "k < n" and "m \<in> set (y_peq y k)"
  shows "\<exists>y'. sys_peq C k m y = Inr y' \<and> cosim_inv tm n H y' \<and> work n y' < work n y
    \<and> held (y_port y') = held (y_port y)"
proof -
  have "snd m = BEGIN_REQ \<or> snd m = END_RESP"
    using cosim_invD(4) [OF assms(1) refl assms(2)] assms(3) by (simp add: sock_ok_def)
  then show ?thesis using peq_begin_ok [OF assms] peq_end_ok [OF assms] by blast
qed

lemma time_ok:
  "cosim_inv tm n H y \<Longrightarrow> cosim_inv tm n H (y\<lparr>y_port := (y_port y)\<lparr>w_now := c, w_curTick := c\<rparr>\<rparr>)"
  "cosim_inv tm n H y \<Longrightarrow> cosim_inv tm n H (y\<lparr>y_port := (y_port y)\<lparr>w_pkt := pk\<rparr>\<rparr>)"
  by (simp_all add: cosim_inv_def Let_def live_on_def event_ok_def gp_def
      ev_cong [of "(y_port y)\<lparr>w_now := c, w_curTick := c\<rparr>" "y_port y"] ev_cong [of "(y_port y)\<lparr>w_pkt := pk\<rparr>" "y_port y"]
      port_ok_cong [of "(y_port y)\<lparr>w_now := c, w_curTick := c\<rparr>" "y_port y"]
      port_ok_cong [of "(y_port y)\<lparr>w_pkt := pk\<rparr>" "y_port y"])

lemma cosim_step_inv:
  assumes "cosim_step C n mv y y'" and inv: "cosim_inv tm n H y"
    and lib: "tlm_lib_ok (cl_tlm C)" and mem: "memory_ok (cl_memory C)"
  shows "\<exists>H'. cosim_inv tm n H' y' \<and> (mv = Internal \<longrightarrow> work n y' < work n y)"
  using assms(1)
proof (cases rule: cosim_step.cases)
  case (Time c)
  then show ?thesis using time_ok(1) [OF inv] by auto
next
  case (Packets pk)
  then show ?thesis using time_ok(2) [OF inv] by auto
next
  case (Request packet accepted)
  then show ?thesis using request_ok_step [OF inv lib Request(2)] by auto
next
  case (Resp_retry rounds)
  show ?thesis
  proof (rule resp_retry_ok [OF inv lib])
    fix y2
    assume "\<And>rounds y''. sys_resp_retry C rounds y = Inr y'' \<Longrightarrow> y'' = y2" and inv2: "cosim_inv tm n H y2"
    from this(1) [OF Resp_retry(2)] inv2 Resp_retry(1) show ?thesis by auto
  qed
next
  case (Event j accept)
  then show ?thesis using event_step_ok [OF inv lib Event(2), of accept] by auto
next
  case (Peq k m)
  then show ?thesis using peq_step_ok [OF inv Peq(2,3), of C] by auto
next
  case (Execute k)
  then show ?thesis using execute_ok [OF inv Execute(2,3) mem] by auto
qed

lemma cosim_start_inv: "cosim_start tm n y \<Longrightarrow> cosim_inv tm n Map.empty y"
  by (auto simp: cosim_start_def cosim_inv_def Let_def sock_ok_def waiting_def router_ok_def TxnRouter_def
      live_on_def ev_def)

definition reachable :: "cosim_lib \<Rightarrow> slave_transactor_multi \<Rightarrow> u32 \<Rightarrow> cosim \<Rightarrow> bool" where
  "reachable C tm n y \<longleftrightarrow> (\<exists>y0. cosim_start tm n y0 \<and> (\<lambda>y y'. \<exists>mv. cosim_step C n mv y y')\<^sup>*\<^sup>* y0 y)"

lemma reachable_inv:
  assumes "reachable C tm n y" and lib: "tlm_lib_ok (cl_tlm C)" "memory_ok (cl_memory C)"
  obtains H where "cosim_inv tm n H y"
proof -
  obtain y0 where y0: "cosim_start tm n y0" "(\<lambda>y y'. \<exists>mv. cosim_step C n mv y y')\<^sup>*\<^sup>* y0 y"
    using assms(1) by (auto simp: reachable_def)
  from y0(2) have "\<exists>H. cosim_inv tm n H y"
  proof (induction rule: rtranclp_induct)
    case base
    then show ?case using cosim_start_inv [OF y0(1)] by blast
  next
    case (step y y')
    then show ?case using cosim_step_inv [OF _ _ lib] by blast
  qed
  then show thesis using that by blast
qed

section \<open>Safety\<close>

text \<open>
  The port and its routers never end the simulation together. In every state that the composed
  system can reach, every admissible request of gem5, every payload event that is due, every phase
  in a router's queue, every end of a router's latency and every retry of the held responses is
  handled without a failed assertion or a fatal report.
\<close>

theorem cosim_never_stops:
  assumes "reachable C tm n y" and "tlm_lib_ok (cl_tlm C)" and "memory_ok (cl_memory C)"
  shows "(request_ok C n packet y \<longrightarrow> returns (sys_request C packet y))
    \<and> (next_event j (y_port y) \<longrightarrow> returns (sys_event C accept j y))
    \<and> (k < n \<longrightarrow> m \<in> set (y_peq y k) \<longrightarrow> returns (sys_peq C k m y))
    \<and> (k < n \<longrightarrow> target_done (y_router y k) \<longrightarrow> returns (sys_execute C k y))
    \<and> (Suc (unat n) \<le> rounds \<longrightarrow> returns (sys_resp_retry C rounds y))"
proof -
  obtain H where inv: "cosim_inv tm n H y" by (rule reachable_inv [OF assms])
  show ?thesis
  proof (intro conjI impI)
    show "returns (sys_request C packet y)" if "request_ok C n packet y"
      using request_ok_step [OF inv assms(2) that] by (auto simp: returns_iff)
    show "returns (sys_event C accept j y)" if "next_event j (y_port y)"
      using event_step_ok [OF inv assms(2) that, of accept] by (auto simp: returns_iff)
    show "returns (sys_peq C k m y)" if "k < n" "m \<in> set (y_peq y k)"
      using peq_step_ok [OF inv that, of C] by (auto simp: returns_iff)
    show "returns (sys_execute C k y)" if "k < n" "target_done (y_router y k)"
      using execute_ok [OF inv that assms(3)] by (auto simp: returns_iff)
    show "returns (sys_resp_retry C rounds y)" if "Suc (unat n) \<le> rounds"
      by (rule resp_retry_ok [OF inv assms(2)]) (use that in \<open>simp add: returns_iff\<close>)
  qed
qed

definition demo_lib :: cosim_lib where
  "demo_lib = \<lparr>cl_tlm = demo_tlm, cl_gem5 = demo_gem5, cl_memory = (\<lambda>p. p)\<rparr>"

definition demo_cosim :: cosim where
  "demo_cosim = \<lparr>y_port = demo_idle, y_router = (\<lambda>k. TxnRouter 0 4096), y_peq = (\<lambda>k. []), y_refs = (\<lambda>t. 0)\<rparr>"

lemma demo_lib_ok: "tlm_lib_ok (cl_tlm demo_lib)" "memory_ok (cl_memory demo_lib)"
  by (simp_all add: demo_lib_def demo_tlm_ok memory_ok_def)

lemma demo_cosim_reachable: "reachable demo_lib demo_tm 2 demo_cosim"
proof -
  have "\<forall>ty k. blocking (helper demo_idle) ty k = None"
    by (auto simp: demo_idle_def demo_blocking split: pktType.split)
  moreover have "w_events demo_idle = []" "w_curTick demo_idle = w_now demo_idle"
    by (simp_all add: demo_idle_def demo_start_def)
  ultimately have "cosim_start demo_tm 2 demo_cosim"
    using demo_idle_ok demo_bound_to(1) by (auto simp: cosim_start_def demo_cosim_def)
  then show ?thesis by (auto simp: reachable_def)
qed

lemma demo_cosim_request: "request_ok demo_lib 2 0 demo_cosim"
proof -
  have "target_socket_id (w_pkt demo_idle 0) (w_port demo_idle) = 1" by (rule demo_target(2))
  moreover have "\<not> pkt_cacheResponding (w_pkt demo_idle 0)" "readOrWrite (port_env demo_lib True) (w_pkt demo_idle 0)"
    using demo_admissible(2) by (simp_all add: admissible_def port_env_def passive_env_def demo_lib_def)
  moreover have "pkt_addr (w_pkt demo_idle 0) < 4096"
    by (simp add: demo_idle_def demo_start_def demo_packet_def)
  ultimately show ?thesis
    by (simp add: request_ok_def demo_cosim_def Let_def ToMem_def TxnRouter_def not_le)
qed

theorem cosim_never_stops_witness:
  "returns (sys_request demo_lib 0 demo_cosim) \<and> returns (sys_resp_retry demo_lib 3 demo_cosim)"
  using cosim_never_stops [OF demo_cosim_reachable demo_lib_ok, of 0 0 True 0 undefined 3] demo_cosim_request by simp

section \<open>Every request is answered\<close>

abbreviation internal :: "cosim_lib \<Rightarrow> u32 \<Rightarrow> cosim \<Rightarrow> cosim \<Rightarrow> bool" where
  "internal C n \<equiv> cosim_step C n Internal"

text \<open>
  Nothing is queued, and a socket is busy only with a response that gem5 has not taken; the one request that
  may still block its channel is the one that the router has put off until that response is over.
\<close>

definition settled :: "u32 \<Rightarrow> cosim \<Rightarrow> bool" where
  "settled n y \<longleftrightarrow> w_events (y_port y) = []
   \<and> (\<forall>k < n. y_peq y k = [] \<and> \<not> target_done (y_router y k)
       \<and> transaction_in_progress (y_router y k) = held (y_port y) k
       \<and> blocking (helper (y_port y)) Request k = end_req_pending (y_router y k)
       \<and> (held (y_port y) k = None \<longrightarrow> blocking (helper (y_port y)) Request k = None))"

text \<open>Every transaction that anything refers to is a held response or the request put off behind one.\<close>

definition accounted :: "u32 \<Rightarrow> cosim \<Rightarrow> bool" where
  "accounted n y \<longleftrightarrow> (\<forall>t. y_refs y t \<noteq> 0 \<longrightarrow>
     (\<exists>k < n. held (y_port y) k = Some t \<or> held (y_port y) k \<noteq> None \<and> end_req_pending (y_router y k) = Some t))"

lemma unsettled_step:
  assumes inv: "cosim_inv tm n H y" and lib: "tlm_lib_ok (cl_tlm C)" "memory_ok (cl_memory C)" and "\<not> settled n y"
  shows "\<exists>H' y'. internal C n y y' \<and> cosim_inv tm n H' y' \<and> work n y' < work n y \<and> held (y_port y') = held (y_port y)"
proof -
  note D = cosim_invD [OF inv refl]
  consider (events) "w_events (y_port y) \<noteq> []" | (peq) k m where "k < n" "m \<in> set (y_peq y k)"
    | (latency) k where "k < n" "target_done (y_router y k)"
    | (quiet) "w_events (y_port y) = []" "\<forall>k < n. y_peq y k = []" "\<forall>k < n. \<not> target_done (y_router y k)"
    by (metis ex_in_conv set_empty)
  then show ?thesis
  proof cases
    case events
    then have nx: "next_event 0 (y_port y)" by (simp add: next_event_def)
    show ?thesis using event_step_ok [OF inv lib(1) nx, of True] cosim_step.Event [OF nx, of C True] by blast
  next
    case peq
    then show ?thesis using peq_step_ok [OF inv peq, of C] cosim_step.Peq [OF peq] by blast
  next
    case latency
    then show ?thesis using execute_ok [OF inv latency lib(2)] cosim_step.Execute [OF latency] by blast
  next
    case quiet
    have "transaction_in_progress (y_router y k) = held (y_port y) k
        \<and> blocking (helper (y_port y)) Request k = end_req_pending (y_router y k)
        \<and> (held (y_port y) k = None \<longrightarrow> blocking (helper (y_port y)) Request k = None)" if "k < n" for k
      using D(4) [OF that] quiet that
      by (auto simp: sock_ok_def held_def ev_def waiting_def router_ok_def split: option.splits)
    then have "settled n y" unfolding settled_def using quiet by blast
    with assms(4) show ?thesis by simp
  qed
qed

lemma internal_runs_bounded:
  assumes "(internal C n ^^ N) y y'" and "cosim_inv tm n H y"
    and lib: "tlm_lib_ok (cl_tlm C)" "memory_ok (cl_memory C)"
  shows "\<exists>H'. cosim_inv tm n H' y' \<and> N + work n y' \<le> work n y"
  using assms(1)
proof (induction N arbitrary: y')
  case 0
  then show ?case using assms(2) by auto
next
  case (Suc N)
  then obtain z where z: "(internal C n ^^ N) y z" "internal C n z y'" by auto
  obtain Hz where Hz: "cosim_inv tm n Hz z" "N + work n z \<le> work n y" using Suc.IH [OF z(1)] by blast
  from cosim_step_inv [OF z(2) Hz(1) lib] Hz(2) show ?case by auto
qed

lemma stuck_settled:
  assumes "cosim_inv tm n H y" and "tlm_lib_ok (cl_tlm C)" "memory_ok (cl_memory C)"
    and "\<not> (\<exists>z. internal C n y z)"
  shows "settled n y"
  using unsettled_step [OF assms(1-3)] assms(4) by blast

lemma settled_accounted:
  assumes inv: "cosim_inv tm n H y" and settled: "settled n y"
  shows "accounted n y"
  unfolding accounted_def
proof (intro allI impI)
  fix t
  assume "y_refs y t \<noteq> 0"
  note D = cosim_invD [OF inv refl]
  obtain k where k: "live_on H (y_port y) k t" using D(9) \<open>y_refs y t \<noteq> 0\<close> by blast
  then have "k < n" by (rule D(6))
  with k settled D(10) [of t k]
  have "held (y_port y) k = Some t \<or> held (y_port y) k \<noteq> None \<and> end_req_pending (y_router y k) = Some t"
    by (auto simp: live_on_held settled_def)
  with \<open>k < n\<close> show "\<exists>k < n. held (y_port y) k = Some t \<or> held (y_port y) k \<noteq> None \<and> end_req_pending (y_router y k) = Some t"
    by blast
qed

text \<open>
  C5: the port and its routers come to rest, and then every request they have accepted is answered or
  waits for gem5. From any reachable state, however the pending events, queues and latencies are
  interleaved, and whichever responses gem5 takes, at most \<open>work n y\<close> steps follow until gem5 acts again.
  When no step is left, nothing is queued, and a socket is free unless the port holds a response of it
  that gem5 refused: its router then waits for exactly that response, and a request that still blocks the
  socket is the one the router has put off until that response is over. No other transaction is referenced.
\<close>

theorem cosim_comes_to_rest:
  assumes "reachable C tm n y" and "tlm_lib_ok (cl_tlm C)" and "memory_ok (cl_memory C)"
  shows "((internal C n ^^ N) y y' \<longrightarrow> N \<le> work n y)
    \<and> ((internal C n)\<^sup>*\<^sup>* y y' \<longrightarrow> \<not> (\<exists>z. internal C n y' z) \<longrightarrow> settled n y' \<and> accounted n y')"
proof -
  obtain H where inv: "cosim_inv tm n H y" by (rule reachable_inv [OF assms])
  have bound: "\<exists>H'. cosim_inv tm n H' y' \<and> M + work n y' \<le> work n y" if "(internal C n ^^ M) y y'" for M
    by (rule internal_runs_bounded [OF that inv assms(2,3)])
  have "settled n y' \<and> accounted n y'" if "(internal C n)\<^sup>*\<^sup>* y y'" "\<not> (\<exists>z. internal C n y' z)"
    using bound stuck_settled [OF _ assms(2,3) that(2)] settled_accounted that(1) by (metis rtranclp_imp_relpowp)
  with bound show ?thesis by fastforce
qed

lemma runs_to_rest:
  assumes "cosim_inv tm n H y" and lib: "tlm_lib_ok (cl_tlm C)" "memory_ok (cl_memory C)"
  shows "\<exists>H' y'. (internal C n)\<^sup>*\<^sup>* y y' \<and> cosim_inv tm n H' y' \<and> settled n y' \<and> held (y_port y') = held (y_port y)"
  using assms(1)
proof (induction "work n y" arbitrary: H y rule: less_induct)
  case less
  show ?case
  proof (cases "settled n y")
    case True
    then show ?thesis using less.prems by blast
  next
    case False
    obtain H1 y1 where "internal C n y y1" "cosim_inv tm n H1 y1" "work n y1 < work n y" "held (y_port y1) = held (y_port y)"
      using unsettled_step [OF less.prems lib False] by blast
    then show ?thesis using less.hyps [of y1 H1] by (metis converse_rtranclp_into_rtranclp)
  qed
qed

text \<open>All sockets idle and no transaction referenced.\<close>

definition all_idle :: "u32 \<Rightarrow> cosim \<Rightarrow> bool" where
  "all_idle n y \<longleftrightarrow> w_events (y_port y) = [] \<and> (\<forall>t. y_refs y t = 0)
   \<and> (\<forall>k < n. y_peq y k = [] \<and> transaction_in_progress (y_router y k) = None \<and> end_req_pending (y_router y k) = None
       \<and> (\<forall>ty. blocking (helper (y_port y)) ty k = None))"

lemma settled_idle:
  assumes inv: "cosim_inv tm n H y" and "settled n y" and none: "\<And>k. held (y_port y) k = None"
  shows "all_idle n y"
proof -
  note D = cosim_invD [OF inv refl]
  have idle: "transaction_in_progress (y_router y k) = None" "blocking (helper (y_port y)) Request k = None" "y_peq y k = []"
    if "k < n" for k
    using assms(2) that none [of k] unfolding settled_def by metis+
  have "\<not> live_on H (y_port y) k t" for k t
    using D(6) [of k t] D(10) [of t k] idle [of k] none [of k] by (auto simp: live_on_held)
  then have "y_refs y t = 0" for t using D(9) by blast
  moreover have "end_req_pending (y_router y k) = None" if "k < n" for k
    using assms(2) idle(2) [OF that] that unfolding settled_def by metis
  moreover have "blocking (helper (y_port y)) ty k = None" if "k < n" for k ty
    using idle [OF that] none [of k] by (cases ty) (simp_all add: held_def)
  ultimately show ?thesis using assms(2) idle by (simp add: all_idle_def settled_def)
qed

lemma drained:
  assumes inv: "cosim_inv tm n H y" and lib: "tlm_lib_ok (cl_tlm C)" "memory_ok (cl_memory C)"
  shows "\<exists>y1 y2 y3. (internal C n)\<^sup>*\<^sup>* y y1 \<and> sys_resp_retry C (Suc (unat n)) y1 = Inr y2
     \<and> (internal C n)\<^sup>*\<^sup>* y2 y3 \<and> all_idle n y3"
proof -
  obtain H1 y1 where y1: "(internal C n)\<^sup>*\<^sup>* y y1" "cosim_inv tm n H1 y1"
    using runs_to_rest [OF inv lib] by blast
  obtain y2 where y2: "sys_resp_retry C (Suc (unat n)) y1 = Inr y2" "cosim_inv tm n H1 y2" "\<forall>k. held (y_port y2) k = None"
    by (rule resp_retry_ok [OF y1(2) lib(1)]) blast
  obtain H3 y3 where y3: "(internal C n)\<^sup>*\<^sup>* y2 y3" "cosim_inv tm n H3 y3" "settled n y3" "held (y_port y3) = held (y_port y2)"
    using runs_to_rest [OF y2(2) lib] by blast
  have "all_idle n y3" by (rule settled_idle [OF y3(2,3)]) (simp add: y3(4) y2(3))
  with y1(1) y2(1) y3(1) show ?thesis by blast
qed

text \<open>
  The system can always be drained. From every reachable state, the steps of queues and routers
  with at most one retry of the held responses by gem5, which then takes them, lead to a state in
  which every channel of every socket is free, every router is idle, nothing is queued, and no
  transaction is referenced any more: no request is ever lost or stuck, and none is leaked.
\<close>

theorem cosim_drains:
  assumes "reachable C tm n y" and lib: "tlm_lib_ok (cl_tlm C)" "memory_ok (cl_memory C)"
  shows "\<exists>y1 y2 y3. (internal C n)\<^sup>*\<^sup>* y y1 \<and> sys_resp_retry C (Suc (unat n)) y1 = Inr y2
     \<and> (internal C n)\<^sup>*\<^sup>* y2 y3 \<and> all_idle n y3"
proof -
  obtain H where inv: "cosim_inv tm n H y" by (rule reachable_inv [OF assms])
  show ?thesis by (rule drained [OF inv lib])
qed

lemma demo_accepted:
  obtains y0 t where "sys_request demo_lib 0 demo_cosim = Inr (True, y0)" and "reachable demo_lib demo_tm 2 y0"
    and "blocking (helper (y_port y0)) Request 1 = Some t"
proof -
  obtain H where inv: "cosim_inv demo_tm 2 H demo_cosim"
    by (rule reachable_inv [OF demo_cosim_reachable demo_lib_ok])
  have "blocking (helper (y_port demo_cosim)) Request k = None" for k
    by (simp add: demo_cosim_def demo_idle_def demo_blocking)
  then obtain y0 t where y0: "sys_request demo_lib 0 demo_cosim = Inr (True, y0)"
      "blocking (helper (y_port y0)) Request 1 = Some t"
    using request_ok_step [OF inv demo_lib_ok(1) demo_cosim_request] demo_target(2) by (auto simp: demo_cosim_def)
  from cosim_step.Request [OF demo_cosim_request y0(1)] demo_cosim_reachable
  have "reachable demo_lib demo_tm 2 y0" unfolding reachable_def by (blast intro: rtranclp.rtrancl_into_rtrancl)
  with y0 show thesis by (intro that)
qed

lemma settled_stuck: "settled n y \<Longrightarrow> \<not> (\<exists>z. internal C n y z)"
  by (auto simp: settled_def next_event_def elim!: cosim_stepE)

theorem cosim_comes_to_rest_witness:
  "\<exists>y0 y1. sys_request demo_lib 0 demo_cosim = Inr (True, y0) \<and> (internal demo_lib 2)\<^sup>*\<^sup>* y0 y1
     \<and> \<not> (\<exists>z. internal demo_lib 2 y1 z) \<and> settled 2 y1 \<and> accounted 2 y1"
proof -
  obtain y0 where y0: "sys_request demo_lib 0 demo_cosim = Inr (True, y0)" "reachable demo_lib demo_tm 2 y0"
    by (rule demo_accepted)
  obtain H where "cosim_inv demo_tm 2 H y0" by (rule reachable_inv [OF y0(2) demo_lib_ok])
  from runs_to_rest [OF this demo_lib_ok] obtain y1 where
    y1: "(internal demo_lib 2)\<^sup>*\<^sup>* y0 y1" "\<not> (\<exists>z. internal demo_lib 2 y1 z)"
    using settled_stuck by blast
  with cosim_comes_to_rest [OF y0(2) demo_lib_ok] y0(1) show ?thesis by blast
qed

theorem cosim_drains_witness:
  "\<exists>y0 y1 y2 y3. sys_request demo_lib 0 demo_cosim = Inr (True, y0) \<and> (internal demo_lib 2)\<^sup>*\<^sup>* y0 y1
     \<and> sys_resp_retry demo_lib (Suc (unat (2 :: u32))) y1 = Inr y2 \<and> (internal demo_lib 2)\<^sup>*\<^sup>* y2 y3 \<and> all_idle 2 y3"
proof -
  obtain y0 where y0: "sys_request demo_lib 0 demo_cosim = Inr (True, y0)" "reachable demo_lib demo_tm 2 y0"
    by (rule demo_accepted)
  from cosim_drains [OF y0(2) demo_lib_ok] y0(1) show ?thesis by blast
qed

section \<open>References\<close>

text \<open>The places that refer to a transaction and will use it.\<close>

definition in_use :: "u32 \<Rightarrow> cosim \<Rightarrow> ptr \<Rightarrow> bool" where
  "in_use n y t \<longleftrightarrow> (\<exists>e \<in> set (w_events (y_port y)). fst (snd e) = t)
   \<or> (\<exists>k < n. (\<exists>ty. blocking (helper (y_port y)) ty k = Some t) \<or> (t, BEGIN_REQ) \<in> set (y_peq y k)
       \<or> end_req_pending (y_router y k) = Some t
       \<or> transaction_in_progress (y_router y k) = Some t \<and> target_done (y_router y k))"

lemma in_use_live:
  assumes inv: "cosim_inv tm n H y" and "in_use n y t"
  shows "\<exists>k. live_on H (y_port y) k t"
proof -
  note D = cosim_invD [OF inv refl]
  have router: "live_on H (y_port y) k t" if "k < n" and "(t, BEGIN_REQ) \<in> set (y_peq y k)
      \<or> end_req_pending (y_router y k) = Some t
      \<or> transaction_in_progress (y_router y k) = Some t \<and> target_done (y_router y k)" for k
  proof -
    have "blocking (helper (y_port y)) Request k = Some t" if "(t, BEGIN_REQ) \<in> set (y_peq y k)"
      by (rule sock_ok_queued [OF D(4) [OF \<open>k < n\<close>] that]) (use port_ok_request(1,2) [OF D(1)] in auto)
    with that(2) D(4) [OF that(1)] show ?thesis
      by (auto simp: live_on_held sock_ok_def waiting_def router_ok_def split: option.splits if_splits)
  qed
  have event: "\<exists>k. live_on H (y_port y) k t" if "ev (y_port y) t \<noteq> []"
    using D(5) [OF that] by (auto simp: event_ok_def live_on_held)
  show ?thesis
    using assms(2) event router unfolding in_use_def ev_nonempty live_on_def by blast
qed

lemma free_not_live:
  assumes "port_ok n H w" and "t \<in> set (freePayloads (fst (w_pool w)))"
  shows "\<not> live_on H w k t"
proof -
  obtain live where live: "pool_ok live (w_pool w)" "dom H \<subseteq> live" "\<And>ty k u. blocking (helper w) ty k = Some u \<Longrightarrow> u \<in> live"
    using port_okD(2) [OF assms(1)] unfolding pool_owns_def by blast
  have "t \<notin> live" using live(1) assms(2) by (cases "w_pool w") (auto simp: pool_ok_def)
  with live(2,3) show ?thesis by (auto simp: live_on_def)
qed

text \<open>
  C4: references are balanced and nothing is used after it is freed. In every reachable state the
  \<open>acquire\<close> and \<open>release\<close> calls of port and routers leave each transaction with no, one or two
  references; a transaction that an event, a channel, a router or its queue will still use has at
  least one; and one that is back in the pool has none. So the port's \<open>release\<close>, which returns a
  transaction to the pool, is always the last.
\<close>

theorem cosim_references:
  assumes "reachable C tm n y" and "tlm_lib_ok (cl_tlm C)" and "memory_ok (cl_memory C)"
  shows "0 \<le> y_refs y t \<and> y_refs y t \<le> 2 \<and> (in_use n y t \<longrightarrow> 1 \<le> y_refs y t)
    \<and> (t \<in> set (freePayloads (fst (w_pool (y_port y)))) \<longrightarrow> y_refs y t = 0 \<and> \<not> in_use n y t)"
proof -
  obtain H where inv: "cosim_inv tm n H y" by (rule reachable_inv [OF assms])
  note D = cosim_invD [OF inv refl]
  have one: "holds (y_router y k) t \<le> 1" if "live_on H (y_port y) k t" for k
    using D(4) [OF D(6) [OF that]] port_ok_request(1) [OF D(1), of k t]
    by (auto simp: holds_def sock_ok_def waiting_def router_ok_def split: option.splits if_splits)
  have nonneg: "0 \<le> holds r t" for r by (simp add: holds_def)
  show ?thesis
  proof (cases "\<exists>k. live_on H (y_port y) k t")
    case True
    then obtain k where k: "live_on H (y_port y) k t" by blast
    then have "t \<notin> set (freePayloads (fst (w_pool (y_port y))))" using free_not_live [OF D(1)] by blast
    then show ?thesis using D(8) [OF k] one [OF k] nonneg [of "y_router y k"] by simp
  next
    case False
    then show ?thesis using D(9) [of t] in_use_live [OF inv, of t] by auto
  qed
qed

theorem cosim_references_witness:
  "\<exists>y0 t. sys_request demo_lib 0 demo_cosim = Inr (True, y0) \<and> in_use 2 y0 t \<and> 1 \<le> y_refs y0 t \<and> y_refs y0 t \<le> 2"
proof -
  obtain y0 t where y0: "sys_request demo_lib 0 demo_cosim = Inr (True, y0)" "reachable demo_lib demo_tm 2 y0"
      "blocking (helper (y_port y0)) Request 1 = Some t" by (rule demo_accepted)
  have "(1 :: u32) < 2" by simp
  with y0(3) have "in_use 2 y0 t" unfolding in_use_def by blast
  with cosim_references [OF y0(2) demo_lib_ok, of t] y0(1) show ?thesis by blast
qed

end
