(* ===== verification/Co_Simulation_Retry.thy ===== *)
theory Co_Simulation_Retry
  imports Co_Simulation_Properties
begin

text \<open>
  Re-entrant retries in the composed system. When the port owes a retry, gem5 may send a packet again
  before \<open>sendRetryReq\<close> returns. In the composed system a retry is only ever sent by the event
  \<open>END_REQ\<close>, as its last action, so the nested request has the effect of a request that follows the
  event, and what is proved of the sequential system holds of the re-entrant one.
\<close>

definition sys_event_resending :: "cosim_lib \<Rightarrow> bool \<Rightarrow> ptr \<Rightarrow> nat \<Rightarrow> cosim \<Rightarrow> cosim res" where
  "sys_event_resending C accept packet j y =
     (case w_events (y_port y) ! j of (_, t, ph) \<Rightarrow>
        bindr (pec (resending_env (port_env C accept) (\<lambda>_. packet)) t ph
            ((y_port y)\<lparr>w_events := take j (w_events (y_port y)) @ drop (Suc j) (w_events (y_port y))\<rparr>)) (port_done y))"

definition new_calls :: "cosim \<Rightarrow> cosim \<Rightarrow> call list" where
  "new_calls y y' = drop (length (w_log (y_port y))) (w_log (y_port y'))"

section \<open>The retry is the last action of an event\<close>

lemma resending_same:
  "se_tlm (resending_env E r) = se_tlm E" "se_gem5 (resending_env E r) = se_gem5 E"
  "se_nb_transport_fw (resending_env E r) = se_nb_transport_fw E"
  "se_sendTimingResp (resending_env E r) = se_sendTimingResp E"
  "se_release (resending_env E r) = se_release E"
  by (simp_all add: resending_env_def)

lemma resending_calls:
  "respond_if_needed (resending_env E r) = respond_if_needed E" "release (resending_env E r) = release E"
  "call_nb_transport_fw (resending_env E r) = call_nb_transport_fw E" "sendTimingResp (resending_env E r) = sendTimingResp E"
  by (simp_all add: fun_eq_iff respond_if_needed_def release_def call_nb_transport_fw_def sendTimingResp_def resending_same)

lemma resending_begin_resp: "pec_begin_resp (resending_env E r) t w = pec_begin_resp E t w"
  unfolding pec_begin_resp_def offer_response_def finish_transaction_def resending_calls resending_same ..

lemma port_env_calls:
  "se_gem5 (port_env C a) = cl_gem5 C" "se_tlm (port_env C a) = cl_tlm C"
  "call_nb_transport_fw (port_env C a) = call_nb_transport_fw (port_env C True)"
  "release (port_env C a) = release (port_env C True)"
  by (simp_all add: fun_eq_iff call_nb_transport_fw_def release_def port_env_def passive_env_def port_answers_def)

lemma request_env: "recvTimingReq (port_env C a) packet w = recvTimingReq (port_env C True) packet w"
  unfolding recvTimingReq_def prepare_transaction_def after_begin_req_def port_env_calls(1,2)
    port_env_calls(3,4) [of C a] ..

text \<open>The port has gone on from \<open>w1\<close> to \<open>w2\<close> without ending a response, after calls that no router sees.\<close>

lemma port_done_two:
  assumes "w_log w1 = w_log (y_port y) @ cs1" and "w_log w2 = w_log w1 @ cs2"
    and "\<And>g z. to_routers g cs1 z = Inr z"
    and "\<And>z. to_routers (\<lambda>ph. if ph = BEGIN_REQ then gp w2 else gp (y_port y)) cs2 z
      = to_routers (\<lambda>ph. if ph = BEGIN_REQ then gp w2 else gp w1) cs2 z"
  shows "port_done y w1 = Inr (y\<lparr>y_port := w1, y_refs := (\<lambda>t. y_refs y t + port_refs cs1 t)\<rparr>)"
    and "port_done y w2 = bindr (port_done y w1) (\<lambda>y1. port_done y1 w2)"
proof -
  show one: "port_done y w1 = Inr (y\<lparr>y_port := w1, y_refs := (\<lambda>t. y_refs y t + port_refs cs1 t)\<rparr>)"
    using assms(1,3) by (simp add: port_done_def Let_def)
  show "port_done y w2 = bindr (port_done y w1) (\<lambda>y1. port_done y1 w2)"
    unfolding one using assms
    by (simp add: port_done_def Let_def to_routers_append port_refs_append port_refs_def [of "[]"] add.assoc cong: if_cong)
qed

text \<open>The calls of a request: none when it is refused, or a new transaction sent to the target.\<close>

lemma request_calls:
  assumes "recvTimingReq (port_env C a) packet w = Inr (accepted, w')"
  shows "w_log w' = w_log w \<or> (\<exists>s t d. w_log w' = w_log w @ [Acquire t, Nb_transport_fw s t BEGIN_REQ d])"
  using assms
  by (auto simp: recvTimingReq_def prepare_transaction_def take_delay_def after_begin_req_def call_nb_transport_fw_def
      port_env_def passive_env_def port_answers_def acquire_def res_simps frame_simps Let_def
      split: if_splits prod.splits)

lemma begin_req_heap:
  "g BEGIN_REQ = g' BEGIN_REQ \<Longrightarrow> to_routers g [Acquire t, Nb_transport_fw s t BEGIN_REQ d] z
    = to_routers g' [Acquire t, Nb_transport_fw s t BEGIN_REQ d] z"
  by (cases s) simp_all

lemma reachable_step: "reachable C tm n y \<Longrightarrow> cosim_step C n mv y y' \<Longrightarrow> reachable C tm n y'"
  unfolding reachable_def by (blast intro: rtranclp.rtrancl_into_rtrancl)

section \<open>The nested request follows the event\<close>

lemma nested_request:
  assumes "recvTimingReq (port_env C a) packet w1 = Inr (accepted, w2)"
    and "w_log w1 = w_log (y_port y) @ [Send_retry_req]" and "port_done y w1 = Inr y1"
  shows "port_done y w2 = bindr (sys_request C packet y1) (\<lambda>(_, y2). Inr y2)"
proof -
  have y1: "y_port y1 = w1" using assms(2,3) by (simp add: port_done_def Let_def) auto
  obtain cs where cs: "w_log w2 = w_log w1 @ cs"
    and heap: "\<And>g g' z. g BEGIN_REQ = g' BEGIN_REQ \<Longrightarrow> to_routers g cs z = to_routers g' cs z"
  proof -
    from request_calls [OF assms(1)] show thesis
    proof (elim disjE exE)
      assume "w_log w2 = w_log w1"
      then show thesis by (intro that [of "[]"]) simp_all
    next
      fix s t d
      assume "w_log w2 = w_log w1 @ [Acquire t, Nb_transport_fw s t BEGIN_REQ d]"
      then show thesis by (rule that) (rule begin_req_heap)
    qed
  qed
  have "port_done y w2 = bindr (port_done y w1) (\<lambda>y1. port_done y1 w2)"
    by (rule port_done_two(2) [OF assms(2) cs]) (auto intro!: heap)
  also have "\<dots> = bindr (sys_request C packet y1) (\<lambda>(_, y2). Inr y2)"
    using assms(1,3) y1 request_env [of C a packet w1]
    by (simp add: sys_request_def bindr_assoc bindr_right_unit)
  finally show ?thesis .
qed

lemma end_req_tail:
  assumes "pec_end_req E0 t w = Inr v"
  obtains b w1 where "\<And>E. pec_end_req E t w = (if b then sendRetryReq E w1 else Inr w1)" and "w_log w1 = w_log w"
proof -
  have "\<exists>b w1. (\<forall>E. pec_end_req E t w = (if b then sendRetryReq E w1 else Inr w1)) \<and> w_log w1 = w_log w"
  proof (cases "blockingRequest (w_port w) = Some t \<and> usingGem5Cache (w_port w)")
    case True
    let ?w = "upd_port (\<lambda>p. p\<lparr>blockingRequest := None\<rparr>) w"
    show ?thesis
      using True by (intro exI [of _ "needToSendRequestRetry (w_port w)"]
        exI [of _ "if needToSendRequestRetry (w_port w) then upd_port (\<lambda>p. p\<lparr>needToSendRequestRetry := False\<rparr>) ?w else ?w"])
        (simp add: pec_end_req_def frame_simps)
  next
    case False
    then obtain k h b where h: "isBlockingTrans (Some t) Request (helper w)" "core_of t w = Inr k"
        "updateBlockingMap k None Request (helper w) = Inr h" "bph_needToSendRequestRetry k h = Inr b"
        "b \<Longrightarrow> \<exists>h'. updateRetryMap k False h = Inr h'"
      using assms by (auto simp: pec_end_req_def res_simps split: if_splits)
    show ?thesis
    proof (cases b)
      case True
      then obtain h' where "updateRetryMap k False h = Inr h'" using h(5) by blast
      then show ?thesis
        using False True h by (intro exI [of _ True] exI [of _ "set_helper h' w"]) (auto simp: pec_end_req_def frame_simps)
    next
      case nb: False
      show ?thesis
        using False nb h by (intro exI [of _ False] exI [of _ "set_helper h w"]) (auto simp: pec_end_req_def frame_simps)
    qed
  qed
  then show thesis using that by blast
qed

text \<open>The event \<open>END_REQ\<close>, with the retry answered inside or after it.\<close>

lemma end_req_resending:
  assumes ev: "w_events (y_port y) ! j = (c, t, END_REQ)"
    and y1: "sys_event C accept j y = Inr y1" and req: "returns (sys_request C packet y1)"
  shows "sys_event_resending C accept packet j y =
    (if Send_retry_req \<in> set (new_calls y y1) then bindr (sys_request C packet y1) (\<lambda>(_, y2). Inr y2) else Inr y1)"
proof -
  let ?E = "port_env C accept"
  define w0 where "w0 = (y_port y)\<lparr>w_events := take j (w_events (y_port y)) @ drop (Suc j) (w_events (y_port y))\<rparr>"
  have pec: "pec E t END_REQ w0 = pec_end_req E t w0" for E
    by (cases "pec_end_req E t w0") (simp_all add: pec_def)
  obtain v where v: "pec_end_req ?E t w0 = Inr v" "port_done y v = Inr y1"
    using y1 ev by (auto simp: sys_event_def w0_def [symmetric] pec res_simps)
  obtain b w1 where tail: "\<And>E. pec_end_req E t w0 = (if b then sendRetryReq E w1 else Inr w1)" "w_log w1 = w_log w0"
    using end_req_tail [OF v(1)] by blast
  have vw: "v = (if b then note_call Send_retry_req w1 else w1)"
    using v(1) tail(1) [of ?E] by (auto simp: port_env_def split: if_splits)
  have log: "w_log v = w_log (y_port y) @ (if b then [Send_retry_req] else [])"
    using tail(2) by (simp add: vw w0_def frame_simps)
  have y1v: "y_port y1 = v" using v(2) log by (auto simp: port_done_def Let_def split: if_splits)
  have retry: "Send_retry_req \<in> set (new_calls y y1) \<longleftrightarrow> b" using log by (simp add: new_calls_def y1v)
  show ?thesis
  proof (cases b)
    case True
    obtain a w2 where r: "recvTimingReq ?E packet v = Inr (a, w2)"
      using req request_env [of C accept packet v] by (auto simp: sys_request_def returns_iff y1v res_simps)
    have "pec_end_req (resending_env ?E (\<lambda>_. packet)) t w0 = Inr w2"
      using tail(1) True r vw by (simp add: sendRetryReq_def resending_env_def)
    then show ?thesis
      using nested_request [OF r _ v(2)] True retry log ev
      by (simp add: sys_event_resending_def w0_def [symmetric] pec)
  next
    case False
    then show ?thesis
      using tail(1) [of "resending_env ?E (\<lambda>_. packet)"] vw v(2) retry ev
      by (simp add: sys_event_resending_def w0_def [symmetric] pec)
  qed
qed

text \<open>The event \<open>BEGIN_RESP\<close> sends no retry: its request has ended before.\<close>

lemma begin_resp_resending:
  assumes inv: "cosim_inv tm n H y" and lib: "tlm_lib_ok (cl_tlm C)"
    and nx: "next_event j (y_port y)" "w_events (y_port y) ! j = (c, t, BEGIN_RESP)"
    and y1: "sys_event C accept j y = Inr y1"
  shows "sys_event_resending C accept packet j y = Inr y1" and "Send_retry_req \<notin> set (new_calls y y1)"
proof -
  let ?E = "port_env C accept"
  define w where "w = y_port y"
  define w0 where "w0 = w\<lparr>w_events := take j (w_events w) @ drop (Suc j) (w_events w)\<rparr>"
  note D = cosim_invD [OF inv w_def]
  obtain i where i: "i < n" "H t = Some i" "blocking (helper w) Response i = None"
    by (rule event_stage [OF inv w_def next_event_ev(1) [OF nx [folded w_def] w0_def]]) auto
  have w0: "port_ok n H w0" "w_curTick w0 = w_now w0" "bound_to tm n (w_port w0)" "blocking (helper w0) Response i = None"
    using D(1-3) i(3) port_ok_cong [of w0 w] by (simp_all add: w0_def)
  have "\<not> isBlockingTrans (Some t) Request (helper w0)" "blockingRequest (w_port w0) \<noteq> Some t"
    using isBlockingTrans_Some [OF port_ok_not_cache(6) [OF w0(1)]] port_ok_blocking(3) [OF w0(1)] i(2)
      port_ok_not_cache(2) [OF w0(1)] by fastforce+
  then have pec: "pec E t BEGIN_RESP w0 = pec_begin_resp E t w0" for E by (simp add: pec_def)
  obtain v where v: "pec ?E t BEGIN_RESP w0 = Inr v" "port_done y v = Inr y1"
    using y1 nx(2) by (auto simp: sys_event_def w_def [symmetric] w0_def [symmetric] res_simps)
  then show "sys_event_resending C accept packet j y = Inr y1"
    using nx(2) by (simp add: sys_event_resending_def w_def [symmetric] w0_def [symmetric] pec resending_begin_resp)
  obtain offers where "offers = [] \<or> (\<exists>i. offers = [Send_timing_resp i])"
      "w_log v = w_log w @ offers @ [Nb_transport_fw (Socket_of i) t END_RESP 0, Release t] \<or> w_log v = w_log w @ offers"
    by (rule begin_resp_outcome [OF lib w0(1) i(2) w0(2) i(1) w0(3,4), of accept]) (use v(1) in \<open>auto simp: w0_def\<close>)
  moreover have "y_port y1 = v" using v(2) calculation
    by (auto simp: port_done_def Let_def w_def [symmetric] res_simps split: if_splits)
  ultimately show "Send_retry_req \<notin> set (new_calls y y1)" by (auto simp: new_calls_def w_def)
qed

lemma resending_outcome:
  assumes inv: "cosim_inv tm n H y" and lib: "tlm_lib_ok (cl_tlm C)"
    and nx: "next_event j (y_port y)" and y1: "sys_event C accept j y = Inr y1" and req: "returns (sys_request C packet y1)"
  shows "sys_event_resending C accept packet j y =
    (if Send_retry_req \<in> set (new_calls y y1) then bindr (sys_request C packet y1) (\<lambda>(_, y2). Inr y2) else Inr y1)"
proof -
  obtain c t ph where e: "w_events (y_port y) ! j = (c, t, ph)" by (rule prod_cases3)
  have "ph = END_REQ \<or> ph = BEGIN_RESP"
    by (rule event_stage [OF inv refl next_event_ev(1) [OF nx e refl]]) simp_all
  then show ?thesis
    using end_req_resending [OF _ y1 req] begin_resp_resending [OF inv lib nx _ y1] e by auto
qed

text \<open>
  C12: a retry that gem5 answers at once is harmless. In every reachable state of the composed system,
  handling a payload event while gem5 sends a packet from inside \<open>sendRetryReq\<close> returns, and gives the
  state of handling the event and, if it sent a retry, the request after it. So the re-entrant
  system reaches no state that the sequential one does not.
\<close>

theorem reentrant_retry_is_sequential:
  assumes reach: "reachable C tm n y" and lib: "tlm_lib_ok (cl_tlm C)" "memory_ok (cl_memory C)"
    and nx: "next_event j (y_port y)" and y1: "sys_event C accept j y = Inr y1" and req: "request_ok C n packet y1"
  shows "sys_event_resending C accept packet j y =
      (if Send_retry_req \<in> set (new_calls y y1) then bindr (sys_request C packet y1) (\<lambda>(_, y2). Inr y2) else Inr y1)
    \<and> (\<exists>y2. sys_event_resending C accept packet j y = Inr y2 \<and> reachable C tm n y2)"
proof -
  obtain H where inv: "cosim_inv tm n H y" by (rule reachable_inv [OF reach lib])
  have r1: "reachable C tm n y1" by (rule reachable_step [OF reach cosim_step.Event [OF nx y1]])
  obtain H1 where inv1: "cosim_inv tm n H1 y1" by (rule reachable_inv [OF r1 lib])
  obtain a y2 where y2: "sys_request C packet y1 = Inr (a, y2)" using request_ok_step [OF inv1 lib(1) req] by blast
  then have r2: "reachable C tm n y2" by (rule reachable_step [OF r1 cosim_step.Request [OF req]])
  have "sys_event_resending C accept packet j y =
      (if Send_retry_req \<in> set (new_calls y y1) then bindr (sys_request C packet y1) (\<lambda>(_, y2). Inr y2) else Inr y1)"
    using resending_outcome [OF inv lib(1) nx y1] y2 by (simp add: returns_iff)
  with r1 r2 y2 show ?thesis by simp
qed

text \<open>One request is accepted and one refused; the router then ends the first.\<close>

definition demo_retry :: "(cosim \<times> cosim \<times> cosim) res" where
  "demo_retry =
     bindr (sys_request demo_lib 0 demo_cosim) (\<lambda>(_, y).
     bindr (sys_request demo_lib 0 y) (\<lambda>(_, z).
     bindr (sys_peq demo_lib 1 (hd (y_peq z 1)) z) (\<lambda>v.
       Inr (y, z, v))))"

lemma demo_retry_runs:
  "case demo_retry of Inl _ \<Rightarrow> False
   | Inr (y, z, v) \<Rightarrow> request_ok demo_lib 2 0 y \<and> y_peq z 1 \<noteq> [] \<and> next_event 0 (y_port v)
      \<and> (case sys_event demo_lib True 0 v of Inl _ \<Rightarrow> False
         | Inr v1 \<Rightarrow> request_ok demo_lib 2 0 v1 \<and> Send_retry_req \<in> set (new_calls v v1))"
  by code_simp

lemma demo_retry_outcome:
  obtains y z v v1 where "demo_retry = Inr (y, z, v)" and "request_ok demo_lib 2 0 y" and "y_peq z 1 \<noteq> []"
    and "next_event 0 (y_port v)" and "sys_event demo_lib True 0 v = Inr v1" and "request_ok demo_lib 2 0 v1"
    and "Send_retry_req \<in> set (new_calls v v1)"
proof (cases demo_retry)
  case (Inl e)
  show thesis using demo_retry_runs unfolding Inl by simp
next
  case (Inr r)
  obtain y z v where r: "r = (y, z, v)" by (rule prod_cases3)
  note run = demo_retry_runs [unfolded Inr r sum.case prod.case]
  then obtain v1 where "sys_event demo_lib True 0 v = Inr v1" by (cases "sys_event demo_lib True 0 v") simp_all
  with run show thesis by (intro that [OF Inr [unfolded r], of v1]) simp_all
qed

lemma demo_retry_reachable:
  assumes run: "demo_retry = Inr (y, z, v)" and ok: "request_ok demo_lib 2 0 y" "y_peq z 1 \<noteq> []"
  shows "reachable demo_lib demo_tm 2 v"
proof -
  obtain a b where s: "sys_request demo_lib 0 demo_cosim = Inr (a, y)" "sys_request demo_lib 0 y = Inr (b, z)"
      "sys_peq demo_lib 1 (hd (y_peq z 1)) z = Inr v"
    using run by (auto simp: demo_retry_def res_simps)
  have "(1 :: u32) < 2" by simp
  then have "cosim_step demo_lib 2 Internal z v" using ok(2) s(3) by (intro cosim_step.Peq) simp_all
  with cosim_step.Request [OF demo_cosim_request s(1)] cosim_step.Request [OF ok(1) s(2)] demo_cosim_reachable
  show ?thesis by (blast intro: reachable_step)
qed

theorem reentrant_retry_is_sequential_witness:
  "\<exists>y z v v1 v2. demo_retry = Inr (y, z, v) \<and> sys_event demo_lib True 0 v = Inr v1 \<and> Send_retry_req \<in> set (new_calls v v1)
     \<and> sys_event_resending demo_lib True 0 0 v = Inr v2 \<and> (\<exists>a. sys_request demo_lib 0 v1 = Inr (a, v2))"
proof -
  obtain y z v v1 where run: "demo_retry = Inr (y, z, v)" "request_ok demo_lib 2 0 y" "y_peq z 1 \<noteq> []" "next_event 0 (y_port v)"
    and v1: "sys_event demo_lib True 0 v = Inr v1" "request_ok demo_lib 2 0 v1" "Send_retry_req \<in> set (new_calls v v1)"
    by (rule demo_retry_outcome)
  from reentrant_retry_is_sequential [OF demo_retry_reachable [OF run(1-3)] demo_lib_ok run(4) v1(1,2)] v1(3)
  obtain v2 where "sys_event_resending demo_lib True 0 0 v = Inr v2"
      "bindr (sys_request demo_lib 0 v1) (\<lambda>(_, y2). Inr y2) = Inr v2" by metis
  moreover from this(2) obtain a where "sys_request demo_lib 0 v1 = Inr (a, v2)" by (auto simp: res_simps)
  ultimately show ?thesis using run(1) v1(1,3) by blast
qed

end
