(* ===== verification/Co_Timed.thy ===== *)
theory Co_Timed
  imports Co_Simulation_Retry
begin

text \<open>
  The composed system in time. A router's payload event queue releases a phase after the delay it was
  notified with, \<open>target_done_event\<close> happens at the end of its latency, and gem5 serves a payload event
  at its tick; time moves on only when nothing is due. The system of \<open>Co_Simulation\<close> leaves the order of
  all this open, except that it assumes the payload events of one transaction to happen in the order
  in which they were scheduled. Here this follows from the delays, so the timed system refines it.

  The memory behind a router answers at once: its \<open>b_transport\<close> does not call \<open>wait\<close>.
\<close>

section \<open>State\<close>

text \<open>
  \<open>t_peq\<close> holds a router's queue with the times at which its phases come out, \<open>t_done\<close> the time of the
  outstanding notification of \<open>target_done_event\<close>. \<open>t_sent\<close> records when the port sent a request, and
  with which delay.
\<close>

record timed =
  t_sys :: cosim
  t_peq :: "u32 \<Rightarrow> (tick \<times> ptr \<times> tlm_phase) list"
  t_done :: "u32 \<Rightarrow> tick option"
  t_sent :: "ptr \<Rightarrow> tick \<times> tick"

abbreviation now :: "timed \<Rightarrow> tick" where
  "now z \<equiv> w_now (y_port (t_sys z))"

text \<open>What the calls put into the queue of router \<open>k\<close>, the notifications of \<open>target_done_event\<close> (an earlier
  one stays), and the requests sent.\<close>

fun sent_to :: "tick \<Rightarrow> u32 \<Rightarrow> call list \<Rightarrow> (tick \<times> ptr \<times> tlm_phase) list" where
  "sent_to c k [] = []"
| "sent_to c k (Nb_transport_fw (Socket_of j) t ph d # cs) = (if j = k then [(c + d, t, ph)] else []) @ sent_to c k cs"
| "sent_to c k (_ # cs) = sent_to c k cs"

fun queued_at :: "tick \<Rightarrow> rcall list \<Rightarrow> (tick \<times> ptr \<times> tlm_phase) list" where
  "queued_at c [] = []"
| "queued_at c (R_peq_notify t ph d # cs) = (c + d, t, ph) # queued_at c cs"
| "queued_at c (_ # cs) = queued_at c cs"

fun notified_at :: "tick \<Rightarrow> rcall list \<Rightarrow> tick option \<Rightarrow> tick option" where
  "notified_at c [] p = p"
| "notified_at c (R_notify_done d # cs) p = notified_at c cs (Some (case p of None \<Rightarrow> c + d | Some e \<Rightarrow> min e (c + d)))"
| "notified_at c (_ # cs) p = notified_at c cs p"

fun requested :: "tick \<Rightarrow> call list \<Rightarrow> (ptr \<Rightarrow> tick \<times> tick) \<Rightarrow> ptr \<Rightarrow> tick \<times> tick" where
  "requested c [] s = s"
| "requested c (Nb_transport_fw x t BEGIN_REQ d # cs) s = requested c cs (s(t := (c, d)))"
| "requested c (_ # cs) s = requested c cs s"

section \<open>Steps\<close>

text \<open>The port of \<open>z\<close> has gone on to \<open>y'\<close>; the router of socket \<open>k\<close> has gone to \<open>v\<close>.\<close>

definition timed_port :: "timed \<Rightarrow> cosim \<Rightarrow> timed" where
  "timed_port z y' =
     (let calls = new_calls (t_sys z) y'
      in z\<lparr>t_sys := y', t_peq := (\<lambda>k. t_peq z k @ sent_to (now z) k calls), t_sent := requested (now z) calls (t_sent z)\<rparr>)"

definition timed_router :: "u32 \<Rightarrow> rworld \<Rightarrow> timed \<Rightarrow> timed" where
  "timed_router k v z =
     z\<lparr>t_sys := router_done k v (t_sys z), t_peq := (t_peq z)(k := t_peq z k @ queued_at (now z) (r_log v)),
       t_done := (t_done z)(k := notified_at (now z) (r_log v) (t_done z k))\<rparr>"

definition timed_request :: "cosim_lib \<Rightarrow> ptr \<Rightarrow> timed \<Rightarrow> (bool \<times> timed) res" where
  "timed_request C packet z = bindr (sys_request C packet (t_sys z)) (\<lambda>(accepted, y). Inr (accepted, timed_port z y))"

definition timed_event :: "cosim_lib \<Rightarrow> bool \<Rightarrow> nat \<Rightarrow> timed \<Rightarrow> timed res" where
  "timed_event C accept j z = bindr (sys_event C accept j (t_sys z)) (\<lambda>y. Inr (timed_port z y))"

definition timed_resp_retry :: "cosim_lib \<Rightarrow> nat \<Rightarrow> timed \<Rightarrow> timed res" where
  "timed_resp_retry C rounds z = bindr (sys_resp_retry C rounds (t_sys z)) (\<lambda>y. Inr (timed_port z y))"

definition timed_peq :: "cosim_lib \<Rightarrow> u32 \<Rightarrow> tick \<times> ptr \<times> tlm_phase \<Rightarrow> timed \<Rightarrow> timed res" where
  "timed_peq C k e z =
     (let y = t_sys z
      in bindr (r_peq_cb (target_env C) (fst (snd e)) (snd (snd e)) (router_world k (gp (y_port y)) y)) (\<lambda>v.
           Inr (timed_router k v (z\<lparr>t_sys := y\<lparr>y_peq := (y_peq y)(k := remove1 (snd e) (y_peq y k))\<rparr>,
                                   t_peq := (t_peq z)(k := remove1 e (t_peq z k))\<rparr>))))"

definition timed_execute :: "cosim_lib \<Rightarrow> u32 \<Rightarrow> timed \<Rightarrow> timed res" where
  "timed_execute C k z =
     (let y = t_sys z
      in bindr (execute_transaction_process (target_env C) (router_world k (gp (y_port y)) y)) (\<lambda>v.
           Inr (timed_router k v (z\<lparr>t_done := (t_done z)(k := None)\<rparr>))))"

definition timed_advance :: "tick \<Rightarrow> timed \<Rightarrow> timed" where
  "timed_advance c z = z\<lparr>t_sys := (t_sys z)\<lparr>y_port := (y_port (t_sys z))\<lparr>w_now := c, w_curTick := c\<rparr>\<rparr>\<rparr>"

text \<open>Nothing is due before \<open>c\<close>.\<close>

definition quiet_until :: "u32 \<Rightarrow> timed \<Rightarrow> tick \<Rightarrow> bool" where
  "quiet_until n z c \<longleftrightarrow> (\<forall>e \<in> set (w_events (y_port (t_sys z))). c \<le> fst e)
   \<and> (\<forall>k < n. (\<forall>e \<in> set (t_peq z k). c \<le> fst e) \<and> (\<forall>d. t_done z k = Some d \<longrightarrow> c \<le> d))"

text \<open>
  What is due happens, in any order; gem5 sends packets and asks for retries at any time. With \<open>eager\<close>,
  gem5 takes every response. Ticks stay below their limit: no due time is allowed to wrap around.
\<close>

inductive timed_step :: "cosim_lib \<Rightarrow> u32 \<Rightarrow> bool \<Rightarrow> move \<Rightarrow> timed \<Rightarrow> timed \<Rightarrow> bool" for C n eager where
  Advance: "now z \<le> c \<Longrightarrow> quiet_until n z c \<Longrightarrow> unat c + 25000 < 2 ^ 64
     \<Longrightarrow> timed_step C n eager External z (timed_advance c z)"
| New_packets: "timed_step C n eager External z (z\<lparr>t_sys := (t_sys z)\<lparr>y_port := (y_port (t_sys z))\<lparr>w_pkt := pk\<rparr>\<rparr>\<rparr>)"
| Send: "request_ok C n packet (t_sys z) \<Longrightarrow> unat (now z) + unat (pkt_payloadDelay (w_pkt (y_port (t_sys z)) packet)) < 2 ^ 64
     \<Longrightarrow> timed_request C packet z = Inr (accepted, z') \<Longrightarrow> timed_step C n eager External z z'"
| Ask_again: "timed_resp_retry C rounds z = Inr z' \<Longrightarrow> timed_step C n eager External z z'"
| Event_due: "j < length (w_events (y_port (t_sys z))) \<Longrightarrow> fst (w_events (y_port (t_sys z)) ! j) = now z \<Longrightarrow> (eager \<longrightarrow> accept)
     \<Longrightarrow> timed_event C accept j z = Inr z' \<Longrightarrow> timed_step C n eager Internal z z'"
| Peq_due: "k < n \<Longrightarrow> e \<in> set (t_peq z k) \<Longrightarrow> fst e = now z \<Longrightarrow> timed_peq C k e z = Inr z' \<Longrightarrow> timed_step C n eager Internal z z'"
| Done_due: "k < n \<Longrightarrow> t_done z k = Some (now z) \<Longrightarrow> timed_execute C k z = Inr z' \<Longrightarrow> timed_step C n eager Internal z z'"

definition timed_start :: "slave_transactor_multi \<Rightarrow> u32 \<Rightarrow> timed \<Rightarrow> bool" where
  "timed_start tm n z \<longleftrightarrow> cosim_start tm n (t_sys z) \<and> unat (now z) + 25000 < 2 ^ 64
   \<and> (\<forall>k < n. t_peq z k = [] \<and> t_done z k = None)"

definition timed_reachable :: "cosim_lib \<Rightarrow> slave_transactor_multi \<Rightarrow> u32 \<Rightarrow> bool \<Rightarrow> timed \<Rightarrow> bool" where
  "timed_reachable C tm n eager z \<longleftrightarrow>
     (\<exists>z0. timed_start tm n z0 \<and> (\<lambda>z z'. \<exists>mv. timed_step C n eager mv z z')\<^sup>*\<^sup>* z0 z)"

section \<open>Queues with and without times\<close>

lemma sent_to_append: "sent_to c k (xs @ ys) = sent_to c k xs @ sent_to c k ys"
  by (induction c k xs rule: sent_to.induct) simp_all

lemma to_routers_effect:
  "to_routers g cs y = Inr y' \<Longrightarrow> y_port y' = y_port y \<and> y_router y' = y_router y
     \<and> (\<forall>k. y_peq y' k = y_peq y k @ map snd (sent_to c k cs))"
proof (induction g cs y rule: to_routers.induct)
  case (2 g k t ph d cs y)
  then show ?case by (auto simp: res_simps r_nb_transport_fw_def r_note_def router_world_def split: if_splits)
qed auto

lemma port_done_effect:
  assumes "port_done y w = Inr y'"
  shows "y_port y' = w" "y_router y' = y_router y" "y_peq y' k = y_peq y k @ map snd (sent_to c k (new_calls y y'))"
  using assms to_routers_effect [of _ _ _ y' c] by (auto simp: port_done_def Let_def new_calls_def)

end
