(* ===== verification/Co_Timed_Invariant.thy ===== *)
theory Co_Timed_Invariant
  imports Co_Timed "HOL-Library.Multiset"
begin

text \<open>
  What is due when: the invariants of the composed system in time. \<open>timed_ok\<close> bounds the times of what
  is pending and orders the end of a request before its response; \<open>latency_ok\<close>, for a gem5 that takes
  every response, says when the transactions of a socket end.
\<close>

abbreviation events :: "timed \<Rightarrow> (tick \<times> ptr \<times> tlm_phase) list" where
  "events z \<equiv> w_events (y_port (t_sys z))"

abbreviation request :: "timed \<Rightarrow> u32 \<Rightarrow> ptr option" where
  "request z \<equiv> blocking (helper (y_port (t_sys z))) Request"

abbreviation router :: "timed \<Rightarrow> u32 \<Rightarrow> txn_router" where
  "router z \<equiv> y_router (t_sys z)"

section \<open>Due times\<close>

text \<open>
  A socket with the payload events \<open>E\<close>, the request channel \<open>q\<close>, the router \<open>r\<close>, its queue \<open>Y\<close>, with times \<open>P\<close>,
  and the notification \<open>d\<close>. The latency of a request ends 15 ns after the payload event of its end.
\<close>

definition due_ok :: "tick \<Rightarrow> (tick \<times> ptr \<times> tlm_phase) set \<Rightarrow> ptr option \<Rightarrow> txn_router \<Rightarrow> (ptr \<times> tlm_phase) list
    \<Rightarrow> (tick \<times> ptr \<times> tlm_phase) list \<Rightarrow> tick option \<Rightarrow> bool" where
  "due_ok c E q r Y P d \<longleftrightarrow> mset (map snd P) = mset Y
   \<and> (\<forall>e \<in> set P. c \<le> fst e \<and> (snd (snd e) = END_RESP \<longrightarrow> fst e = c))
   \<and> (target_done r \<longleftrightarrow> d \<noteq> None)
   \<and> (\<forall>x. d = Some x \<longrightarrow> c \<le> x \<and> unat x \<le> unat c + 25000
        \<and> (q \<noteq> transaction_in_progress r \<longrightarrow> unat x \<le> unat c + 15000))
   \<and> (\<forall>t e. q = Some t \<longrightarrow> (e, t, END_REQ) \<in> E \<longrightarrow> (\<exists>x. d = Some x \<and> unat x = unat e + 15000))"

definition timed_ok :: "u32 \<Rightarrow> timed \<Rightarrow> bool" where
  "timed_ok n z \<longleftrightarrow> unat (now z) + 25000 < 2 ^ 64
   \<and> (\<forall>e \<in> set (events z). now z \<le> fst e \<and> unat (fst e) \<le> unat (now z) + 10000)
   \<and> (\<forall>k < n. due_ok (now z) (set (events z)) (request z k) (router z k) (y_peq (t_sys z) k) (t_peq z k) (t_done z k))"

lemma timed_okD:
  assumes "timed_ok n z"
  shows "unat (now z) + 25000 < 2 ^ 64"
    "e \<in> set (events z) \<Longrightarrow> now z \<le> fst e" "e \<in> set (events z) \<Longrightarrow> unat (fst e) \<le> unat (now z) + 10000"
    "k < n \<Longrightarrow> due_ok (now z) (set (events z)) (request z k) (router z k) (y_peq (t_sys z) k) (t_peq z k) (t_done z k)"
  using assms by (simp_all add: timed_ok_def)

lemma due_okD:
  assumes "due_ok c E q r Y P d"
  shows "mset (map snd P) = mset Y" "set Y = snd ` set P"
    "e \<in> set P \<Longrightarrow> c \<le> fst e" "e \<in> set P \<Longrightarrow> snd (snd e) = END_RESP \<Longrightarrow> fst e = c"
    "target_done r \<longleftrightarrow> d \<noteq> None" "d = Some x \<Longrightarrow> c \<le> x" "d = Some x \<Longrightarrow> unat x \<le> unat c + 25000"
    "d = Some x \<Longrightarrow> q \<noteq> transaction_in_progress r \<Longrightarrow> unat x \<le> unat c + 15000"
    "q = Some t \<Longrightarrow> (e', t, END_REQ) \<in> E \<Longrightarrow> \<exists>x. d = Some x \<and> unat x = unat e' + 15000"
proof -
  show "mset (map snd P) = mset Y" using assms by (simp add: due_ok_def)
  from arg_cong [OF this, of set_mset] show "set Y = snd ` set P" by simp
qed (use assms in \<open>simp_all add: due_ok_def\<close>)

lemma due_frame:
  assumes "due_ok c E q r Y P d" and "\<And>t e. q = Some t \<Longrightarrow> (e, t, END_REQ) \<in> E' \<Longrightarrow> (e, t, END_REQ) \<in> E"
  shows "due_ok c E' q r Y P d"
  using assms(1) unfolding due_ok_def by (elim conjE, intro conjI) (assumption | use assms(2) in blast)+

lemma now_plus:
  assumes "unat (c :: tick) + unat d < 2 ^ 64"
  shows "unat (c + d) = unat c + unat d" "c \<le> c + d"
proof -
  show "unat (c + d) = unat c + unat d" using assms by (simp add: unat_add_lem [where 'a = 64, simplified])
  then show "c \<le> c + d" by (simp add: word_le_nat_alt)
qed

section \<open>Payload events keep their order\<close>

lemma set_ev: "ph \<in> set (ev w t) \<longleftrightarrow> (\<exists>c. (c, t, ph) \<in> set (w_events w))"
  by (force simp: ev_def)

lemma next_event_single:
  assumes "j < length (w_events w)" and single: "length (ev w (fst (snd (w_events w ! j)))) \<le> 1"
  shows "next_event j w"
proof -
  define t where "t = fst (snd (w_events w ! j))"
  have "fst (snd (w_events w ! i)) \<noteq> t" if "i < j" for i
  proof
    assume t: "fst (snd (w_events w ! i)) = t"
    have "w_events w ! i \<in> set (take j (w_events w))" "w_events w ! j \<in> set (drop j (w_events w))"
      using that assms(1) by (auto simp: in_set_conv_nth intro: exI [of _ i] exI [of _ 0])
    with t t_def have "0 < length (filter (\<lambda>e. fst (snd e) = t) (take j (w_events w)))"
      "0 < length (filter (\<lambda>e. fst (snd e) = t) (drop j (w_events w)))" by (auto simp: filter_empty_conv)
    moreover have "length (ev w t) = length (filter (\<lambda>e. fst (snd e) = t) (take j (w_events w)))
        + length (filter (\<lambda>e. fst (snd e) = t) (drop j (w_events w)))"
      unfolding ev_def length_map by (metis append_take_drop_id filter_append length_append)
    ultimately show False using single unfolding t_def [symmetric] by linarith
  qed
  with assms(1) show ?thesis by (simp add: next_event_def t_def)
qed

lemma single_event:
  assumes inv: "cosim_inv tm n H (t_sys z)" and ok: "timed_ok n z"
  shows "length (ev (y_port (t_sys z)) t) \<le> 1"
proof (cases "ev (y_port (t_sys z)) t")
  case (Cons ph phs)
  show ?thesis
  proof (rule event_stage [OF inv refl Cons])
    fix i
    assume i: "i < n" "ph = END_REQ" "request z i = Some t" "phs = (if target_done (router z i) then [] else [BEGIN_RESP])"
    have "END_REQ \<in> set (ev (y_port (t_sys z)) t)" using Cons i(2) by simp
    then obtain c where "(c, t, END_REQ) \<in> set (events z)" by (auto simp: set_ev)
    then have "target_done (router z i)" using due_okD(5,9) [OF timed_okD(4) [OF ok i(1)]] i(3) by auto
    then show ?thesis using Cons i(4) by simp
  qed (simp add: Cons)
qed simp

lemma due_next_event:
  assumes "cosim_inv tm n H (t_sys z)" and "timed_ok n z" and "j < length (events z)"
  shows "next_event j (y_port (t_sys z))"
  using next_event_single [OF assms(3)] single_event [OF assms(1,2)] by blast

section \<open>The timed steps are steps of the system\<close>

lemma queued_at_notified: "map snd (queued_at c cs) = notified cs"
  by (induction c cs rule: queued_at.induct) simp_all

lemma timed_peq_sys:
  assumes "timed_peq C k e z = Inr z'"
  shows "sys_peq C k (snd e) (t_sys z) = Inr (t_sys z')"
  using assms by (auto simp: timed_peq_def sys_peq_def timed_router_def res_simps Let_def)

lemma timed_execute_sys:
  assumes "timed_execute C k z = Inr z'"
  shows "sys_execute C k (t_sys z) = Inr (t_sys z')"
  using assms by (auto simp: timed_execute_def sys_execute_def timed_router_def res_simps Let_def)

lemma timed_simulates:
  assumes inv: "cosim_inv tm n H (t_sys z)" and ok: "timed_ok n z" and step: "timed_step C n eager mv z z'"
  shows "cosim_step C n mv (t_sys z) (t_sys z')"
  using step
proof (cases rule: timed_step.cases)
  case (Advance c)
  then show ?thesis using cosim_step.Time [of C n "t_sys z" c] by (simp add: timed_advance_def)
next
  case (New_packets pk)
  then show ?thesis using cosim_step.Packets [of C n "t_sys z" pk] by simp
next
  case (Send packet accepted)
  then show ?thesis by (auto simp: timed_request_def timed_port_def Let_def res_simps intro: cosim_step.Request)
next
  case (Ask_again rounds)
  then show ?thesis by (auto simp: timed_resp_retry_def timed_port_def Let_def res_simps intro: cosim_step.Resp_retry)
next
  case (Event_due j accept)
  with cosim_step.Event [OF due_next_event [OF inv ok Event_due(2)]] show ?thesis
    by (auto simp: timed_event_def timed_port_def Let_def res_simps)
next
  case (Peq_due k e)
  have "snd e \<in> set (y_peq (t_sys z) k)" using due_okD(2) [OF timed_okD(4) [OF ok Peq_due(2)]] Peq_due(3) by simp
  with Peq_due timed_peq_sys [OF Peq_due(5)] show ?thesis by (auto intro: cosim_step.Peq)
next
  case (Done_due k)
  have "target_done (router z k)" using due_okD(5) [OF timed_okD(4) [OF ok Done_due(2)]] Done_due(3) by simp
  with Done_due timed_execute_sys [OF Done_due(4)] show ?thesis by (auto intro: cosim_step.Execute)
qed

section \<open>Steps of a router in time\<close>

text \<open>
  An operation of the router of socket \<open>k\<close> adds the payload events \<open>E\<close> and changes the router, its queue
  and its notification.
\<close>

definition router_effect :: "u32 \<Rightarrow> (tick \<times> ptr \<times> tlm_phase) list \<Rightarrow> txn_router \<Rightarrow> (ptr \<times> tlm_phase) list
    \<Rightarrow> (tick \<times> ptr \<times> tlm_phase) list \<Rightarrow> tick option \<Rightarrow> timed \<Rightarrow> timed \<Rightarrow> bool" where
  "router_effect k E r Y P d z z' \<longleftrightarrow> events z' = events z @ E \<and> now z' = now z \<and> request z' = request z
     \<and> held (y_port (t_sys z')) = held (y_port (t_sys z)) \<and> router z' = (router z)(k := r)
     \<and> y_peq (t_sys z') = (y_peq (t_sys z))(k := Y) \<and> t_peq z' = (t_peq z)(k := P)
     \<and> t_done z' = (t_done z)(k := d) \<and> t_sent z' = t_sent z"

lemma peq_rules:
  "timed_peq C k (c, u, BEGIN_REQ) z = Inr z' \<Longrightarrow> transaction_in_progress (router z k) = None \<Longrightarrow> t_done z k = None \<Longrightarrow>
     router_effect k [(now z + ns10, u, END_REQ)] ((router z k)\<lparr>target_done := True, transaction_in_progress := Some u\<rparr>)
       (remove1 (u, BEGIN_REQ) (y_peq (t_sys z) k)) (remove1 (c, u, BEGIN_REQ) (t_peq z k)) (Some (now z + 25000)) z z'"
  "timed_peq C k (c, u, BEGIN_REQ) z = Inr z' \<Longrightarrow> transaction_in_progress (router z k) = Some t \<Longrightarrow>
     router_effect k [] ((router z k)\<lparr>end_req_pending := Some u\<rparr>)
       (remove1 (u, BEGIN_REQ) (y_peq (t_sys z) k)) (remove1 (c, u, BEGIN_REQ) (t_peq z k)) (t_done z k) z z'"
  "timed_peq C k (c, t, END_RESP) z = Inr z' \<Longrightarrow> response_in_progress (router z k) \<Longrightarrow>
   next_response_pending (router z k) = None \<Longrightarrow> end_req_pending (router z k) = None \<Longrightarrow>
     router_effect k [] ((router z k)\<lparr>transaction_in_progress := None, response_in_progress := False\<rparr>)
       (remove1 (t, END_RESP) (y_peq (t_sys z) k)) (remove1 (c, t, END_RESP) (t_peq z k)) (t_done z k) z z'"
  "timed_peq C k (c, t, END_RESP) z = Inr z' \<Longrightarrow> response_in_progress (router z k) \<Longrightarrow>
   next_response_pending (router z k) = None \<Longrightarrow> end_req_pending (router z k) = Some u \<Longrightarrow> t_done z k = None \<Longrightarrow>
     router_effect k [(now z + ns10, u, END_REQ)] ((router z k)\<lparr>transaction_in_progress := Some u,
         response_in_progress := False, target_done := True, end_req_pending := None\<rparr>)
       (remove1 (t, END_RESP) (y_peq (t_sys z) k)) (remove1 (c, t, END_RESP) (t_peq z k)) (Some (now z + 25000)) z z'"
  by (auto simp: timed_peq_def router_world_def peq_begin_idle peq_begin_busy peq_end_idle peq_end_next timed_router_def
      router_done_def router_effect_def nb_transport_bw_def frame_simps held_def fun_eq_iff Let_def)

lemma execute_rule:
  assumes "timed_execute C k z = Inr z'" and "transaction_in_progress (router z k) = Some t" and "\<not> response_in_progress (router z k)"
  shows "router_effect k [(now z + ns10, t, BEGIN_RESP)] ((router z k)\<lparr>target_done := False, response_in_progress := True\<rparr>)
       (y_peq (t_sys z) k) (t_peq z k) None z z'"
  using assms
  by (auto simp: timed_execute_def router_world_def execute_returns timed_router_def router_done_def router_effect_def
      nb_transport_bw_def frame_simps held_def fun_eq_iff Let_def)

lemma router_timed_ok:
  assumes ok: "timed_ok n z" and eff: "router_effect k E r Y P d z z'" and k: "k < n"
    and new: "\<And>e. e \<in> set E \<Longrightarrow> now z \<le> fst e \<and> unat (fst e) \<le> unat (now z) + 10000"
    and other: "\<And>j t e. j \<noteq> k \<Longrightarrow> request z j = Some t \<Longrightarrow> (e, t, END_REQ) \<notin> set E"
    and own: "due_ok (now z) (set (events z) \<union> set E) (request z k) r Y P d"
  shows "timed_ok n z'"
proof -
  have "due_ok (now z) (set (events z) \<union> set E) (request z j) (router z' j) (y_peq (t_sys z') j) (t_peq z' j) (t_done z' j)"
    if "j < n" for j
  proof (cases "j = k")
    case True
    then show ?thesis using own eff by (simp add: router_effect_def)
  next
    case False
    have "due_ok (now z) (set (events z) \<union> set E) (request z j) (router z j) (y_peq (t_sys z) j) (t_peq z j) (t_done z j)"
      by (rule due_frame [OF timed_okD(4) [OF ok that]]) (use other [OF False] in blast)
    then show ?thesis using False eff by (simp add: router_effect_def)
  qed
  then show ?thesis using timed_okD(1-3) [OF ok] new eff unfolding timed_ok_def by (auto simp: router_effect_def)
qed

text \<open>A phase that comes out of a router's queue.\<close>

lemma timed_peq_cases:
  assumes inv: "cosim_inv tm n H (t_sys z)" and ok: "timed_ok n z" and k: "k < n"
    and e: "e \<in> set (t_peq z k)" "fst e = now z" and step: "timed_peq C k e z = Inr z'"
  obtains (idle) u where "e = (now z, u, BEGIN_REQ)" "request z k = Some u" "ev (y_port (t_sys z)) u = []"
      "reqs (y_peq (t_sys z) k) = [u]" "end_req_pending (router z k) = None" "t_done z k = None"
      "router_effect k [(now z + ns10, u, END_REQ)] ((router z k)\<lparr>target_done := True, transaction_in_progress := Some u\<rparr>)
       (remove1 (u, BEGIN_REQ) (y_peq (t_sys z) k)) (remove1 e (t_peq z k)) (Some (now z + 25000)) z z'"
  | (busy) u t where "e = (now z, u, BEGIN_REQ)" "request z k = Some u" "ev (y_port (t_sys z)) u = []"
      "reqs (y_peq (t_sys z) k) = [u]" "end_req_pending (router z k) = None" "transaction_in_progress (router z k) = Some t"
      "router_effect k [] ((router z k)\<lparr>end_req_pending := Some u\<rparr>)
       (remove1 (u, BEGIN_REQ) (y_peq (t_sys z) k)) (remove1 e (t_peq z k)) (t_done z k) z z'"
  | (ended) t where "e = (now z, t, END_RESP)" "t_done z k = None" "end_req_pending (router z k) = None"
      "ends (y_peq (t_sys z) k) = 1"
      "router_effect k [] ((router z k)\<lparr>transaction_in_progress := None, response_in_progress := False\<rparr>)
       (remove1 (t, END_RESP) (y_peq (t_sys z) k)) (remove1 e (t_peq z k)) None z z'"
  | (ended_next) t u where "e = (now z, t, END_RESP)" "t_done z k = None" "end_req_pending (router z k) = Some u"
      "ends (y_peq (t_sys z) k) = 1" "request z k = Some u" "ev (y_port (t_sys z)) u = []" "reqs (y_peq (t_sys z) k) = []"
      "router_effect k [(now z + ns10, u, END_REQ)] ((router z k)\<lparr>transaction_in_progress := Some u,
         response_in_progress := False, target_done := True, end_req_pending := None\<rparr>)
       (remove1 (t, END_RESP) (y_peq (t_sys z) k)) (remove1 e (t_peq z k)) (Some (now z + 25000)) z z'"
proof -
  note due = timed_okD(4) [OF ok k] and D = cosim_invD [OF inv refl]
  note sock = D(4) [OF k]
  have m: "snd e \<in> set (y_peq (t_sys z) k)" using due_okD(2) [OF due] e(1) by simp
  have "snd (snd e) = BEGIN_REQ \<or> snd (snd e) = END_RESP" using sock m by (simp add: sock_ok_def)
  then show thesis
  proof
    assume req: "snd (snd e) = BEGIN_REQ"
    obtain u where u: "snd e = (u, BEGIN_REQ)" "request z k = Some u" "ev (y_port (t_sys z)) u = []"
        "reqs (y_peq (t_sys z) k) = [u]" "end_req_pending (router z k) = None"
      using queued_request [OF inv k m req refl refl] by metis
    have e': "e = (now z, u, BEGIN_REQ)" using u(1) e(2) by (cases e) simp
    show thesis
    proof (cases "transaction_in_progress (router z k)")
      case None
      then have d: "t_done z k = None" using sock due_okD(5) [OF due] by (auto simp: sock_ok_def router_ok_def)
      show thesis
        by (rule idle [OF e' u(2-5) d]) (use peq_rules(1) [OF step [unfolded e'] None d] in \<open>simp add: e'\<close>)
    next
      case (Some t)
      show thesis
        by (rule busy [OF e' u(2-5) Some]) (use peq_rules(2) [OF step [unfolded e'] Some] in \<open>simp add: e'\<close>)
    qed
  next
    assume resp: "snd (snd e) = END_RESP"
    obtain t where t: "\<not> target_done (router z k)" "response_in_progress (router z k)"
        "next_response_pending (router z k) = None" "ends (y_peq (t_sys z) k) = 1"
      and wait: "waiting (ev (y_port (t_sys z))) (request z k) (reqs (y_peq (t_sys z) k)) (end_req_pending (router z k))"
      by (rule sock_ok_ending [OF sock m resp])
    have d: "t_done z k = None" using t(1) due_okD(5) [OF due] by simp
    obtain v where e': "e = (now z, v, END_RESP)" using resp e(2) by (cases e) auto
    show thesis
    proof (cases "end_req_pending (router z k)")
      case None
      show thesis
        by (rule ended [OF e' d None t(4)]) (use peq_rules(3) [OF step [unfolded e'] t(2,3) None] d in \<open>simp add: e'\<close>)
    next
      case (Some u)
      have u: "request z k = Some u" "ev (y_port (t_sys z)) u = []" "reqs (y_peq (t_sys z) k) = []"
        using wait Some by (auto elim!: waiting_cases)
      show thesis
        by (rule ended_next [OF e' d Some t(4) u]) (use peq_rules(4) [OF step [unfolded e'] t(2,3) Some d] in \<open>simp add: e'\<close>)
    qed
  qed
qed

text \<open>The end of a router's latency: the end of the request has been handled before.\<close>

lemma timed_execute_cases:
  assumes inv: "cosim_inv tm n H (t_sys z)" and ok: "timed_ok n z" and k: "k < n"
    and "done": "t_done z k = Some (now z)" and step: "timed_execute C k z = Inr z'"
  obtains t where "transaction_in_progress (router z k) = Some t" "H t = Some k" "ev (y_port (t_sys z)) t = []"
    "ends (y_peq (t_sys z) k) = 0"
    "router_effect k [(now z + ns10, t, BEGIN_RESP)] ((router z k)\<lparr>target_done := False, response_in_progress := True\<rparr>)
       (y_peq (t_sys z) k) (t_peq z k) None z z'"
proof -
  note due = timed_okD(4) [OF ok k] and D = cosim_invD [OF inv refl]
  have td: "target_done (router z k)" using due_okD(5) [OF due] "done" by simp
  obtain t where t: "transaction_in_progress (router z k) = Some t" "\<not> response_in_progress (router z k)"
      "ends (y_peq (t_sys z) k) = 0"
    and st: "request z k = Some t \<and> ev (y_port (t_sys z)) t = [END_REQ] \<or> H t = Some k \<and> ev (y_port (t_sys z)) t = []"
    by (rule sock_ok_executing [OF D(4) [OF k] td]) blast
  have "\<not> (request z k = Some t \<and> ev (y_port (t_sys z)) t = [END_REQ])"
  proof
    assume a: "request z k = Some t \<and> ev (y_port (t_sys z)) t = [END_REQ]"
    then have "END_REQ \<in> set (ev (y_port (t_sys z)) t)" by simp
    then obtain c where c: "(c, t, END_REQ) \<in> set (events z)" by (auto simp: set_ev)
    have "unat (now z) = unat c + 15000" using due_okD(9) [OF due _ c] a "done" by auto
    moreover have "now z \<le> c" using timed_okD(2) [OF ok c] by simp
    ultimately show False by (simp add: word_le_nat_alt)
  qed
  with st t that execute_rule [OF step t(1,2)] show thesis by blast
qed

lemma waiting_event:
  assumes inv: "cosim_inv tm n H (t_sys z)" and "request z j = Some t" and "live_on H (y_port (t_sys z)) k t"
  shows "j = k"
  using live_unique [OF cosim_invD(1) [OF inv refl]] port_ok_request(3) [OF cosim_invD(1) [OF inv refl]] assms(2,3) by metis

lemma mset_map_remove1: "e \<in> set P \<Longrightarrow> mset (map f (remove1 e P)) = mset (map f P) - {#f e#}"
  by (simp add: image_mset_Diff)

lemma due_rest:
  assumes "due_ok c E q r Y P d" and "e \<in> set P"
  shows "mset (map snd (remove1 e P)) = mset (remove1 (snd e) Y)"
    "\<forall>m \<in> set (remove1 e P). c \<le> fst m \<and> (snd (snd m) = END_RESP \<longrightarrow> fst m = c)"
proof -
  show "mset (map snd (remove1 e P)) = mset (remove1 (snd e) Y)"
    using due_okD(1) [OF assms(1)] mset_map_remove1 [OF assms(2), of snd] by simp
  have "set (remove1 e P) \<subseteq> set P" by (rule set_remove1_subset)
  then show "\<forall>m \<in> set (remove1 e P). c \<le> fst m \<and> (snd (snd m) = END_RESP \<longrightarrow> fst m = c)"
    using due_okD(3,4) [OF assms(1)] by blast
qed

text \<open>A router begins with a request at the time \<open>c\<close>, or drops an entry of its queue.\<close>

lemma due_begins:
  assumes due: "due_ok c E q r Y P d" and c: "unat c + 25000 < 2 ^ 64" and e: "e \<in> set P"
    and none: "\<And>a. (a, u, END_REQ) \<notin> E" and q: "q = Some u"
    and r': "target_done r'" "transaction_in_progress r' = Some u"
  shows "due_ok c (E \<union> {(c + ns10, u, END_REQ)}) q r' (remove1 (snd e) Y) (remove1 e P) (Some (c + 25000))"
proof -
  have plus: "unat (c + 25000) = unat c + 25000" "c \<le> c + 25000" "unat (c + ns10) = unat c + 10000"
    using now_plus [of c 25000] now_plus [of c ns10] c by simp_all
  show ?thesis
    using due_rest [OF due e] none q r' plus unfolding due_ok_def by (intro conjI) auto
qed

lemma due_drops:
  assumes due: "due_ok c E q r Y P d" and e: "e \<in> set P"
    and r': "target_done r' = target_done r" "transaction_in_progress r' = transaction_in_progress r \<or> d = None"
  shows "due_ok c E q r' (remove1 (snd e) Y) (remove1 e P) d"
  using due_rest [OF due e] due_okD(5-9) [OF due] r' unfolding due_ok_def by (intro conjI) auto

lemma timed_peq_ok:
  assumes inv: "cosim_inv tm n H (t_sys z)" and ok: "timed_ok n z" and k: "k < n"
    and e: "e \<in> set (t_peq z k)" "fst e = now z" and step: "timed_peq C k e z = Inr z'"
  shows "timed_ok n z'"
proof -
  note due = timed_okD(4) [OF ok k] and fits = timed_okD(1) [OF ok]
  have new: "now z \<le> now z + ns10 \<and> unat (now z + ns10) \<le> unat (now z) + 10000"
    using now_plus [of "now z" ns10] fits by simp
  have fresh: "(a, u, END_REQ) \<notin> set (events z)" if "ev (y_port (t_sys z)) u = []" for a u
    using that set_ev [of END_REQ "y_port (t_sys z)" u] by auto
  have sole: "j = k" if "request z k = Some u" "request z j = Some u" for j u
    using waiting_event [OF inv that(2)] port_ok_request(3) [OF cosim_invD(1) [OF inv refl] that(1)] by simp
  show ?thesis
  proof (rule timed_peq_cases [OF inv ok k e step])
    fix u
    assume u: "e = (now z, u, BEGIN_REQ)" "request z k = Some u" "ev (y_port (t_sys z)) u = []"
      and eff: "router_effect k [(now z + ns10, u, END_REQ)] ((router z k)\<lparr>target_done := True, transaction_in_progress := Some u\<rparr>)
       (remove1 (u, BEGIN_REQ) (y_peq (t_sys z) k)) (remove1 e (t_peq z k)) (Some (now z + 25000)) z z'"
    show ?thesis
      by (rule router_timed_ok [OF ok eff k])
        (use due_begins [OF due fits e(1) fresh [OF u(3)] u(2)] new sole [OF u(2)] u(1) in auto)
  next
    fix u t
    assume u: "e = (now z, u, BEGIN_REQ)"
      and eff: "router_effect k [] ((router z k)\<lparr>end_req_pending := Some u\<rparr>)
       (remove1 (u, BEGIN_REQ) (y_peq (t_sys z) k)) (remove1 e (t_peq z k)) (t_done z k) z z'"
    show ?thesis by (rule router_timed_ok [OF ok eff k]) (use due_drops [OF due e(1)] u in auto)
  next
    fix t
    assume t: "e = (now z, t, END_RESP)" "t_done z k = None"
      and eff: "router_effect k [] ((router z k)\<lparr>transaction_in_progress := None, response_in_progress := False\<rparr>)
       (remove1 (t, END_RESP) (y_peq (t_sys z) k)) (remove1 e (t_peq z k)) None z z'"
    show ?thesis by (rule router_timed_ok [OF ok eff k]) (use due_drops [OF due e(1)] t in auto)
  next
    fix t u
    assume u: "e = (now z, t, END_RESP)" "request z k = Some u" "ev (y_port (t_sys z)) u = []"
      and eff: "router_effect k [(now z + ns10, u, END_REQ)] ((router z k)\<lparr>transaction_in_progress := Some u,
         response_in_progress := False, target_done := True, end_req_pending := None\<rparr>)
       (remove1 (t, END_RESP) (y_peq (t_sys z) k)) (remove1 e (t_peq z k)) (Some (now z + 25000)) z z'"
    show ?thesis
      by (rule router_timed_ok [OF ok eff k])
        (use due_begins [OF due fits e(1) fresh [OF u(3)] u(2)] new sole [OF u(2)] u(1) in auto)
  qed
qed

lemma timed_execute_ok:
  assumes inv: "cosim_inv tm n H (t_sys z)" and ok: "timed_ok n z" and k: "k < n"
    and "done": "t_done z k = Some (now z)" and step: "timed_execute C k z = Inr z'"
  shows "timed_ok n z'"
proof -
  note due = timed_okD(4) [OF ok k] and fits = timed_okD(1) [OF ok]
  obtain t where t: "H t = Some k" "ev (y_port (t_sys z)) t = []"
    and eff: "router_effect k [(now z + ns10, t, BEGIN_RESP)] ((router z k)\<lparr>target_done := False, response_in_progress := True\<rparr>)
       (y_peq (t_sys z) k) (t_peq z k) None z z'"
    by (rule timed_execute_cases [OF inv ok k "done" step])
  have "request z k \<noteq> Some u \<or> (e, u, END_REQ) \<notin> set (events z)" for u e
  proof (rule ccontr)
    assume "\<not> ?thesis"
    then have "unat (now z) = unat e + 15000" "now z \<le> e"
      using due_okD(9) [OF due, of u e] timed_okD(2) [OF ok, of "(e, u, END_REQ)"] "done" by auto
    then show False by (simp add: word_le_nat_alt)
  qed
  then have "due_ok (now z) (set (events z) \<union> {(now z + ns10, t, BEGIN_RESP)}) (request z k)
      ((router z k)\<lparr>target_done := False, response_in_progress := True\<rparr>) (y_peq (t_sys z) k) (t_peq z k) None"
    using due_okD(1,3,4) [OF due] unfolding due_ok_def by auto
  then show ?thesis
    by (intro router_timed_ok [OF ok eff k]) (use now_plus [of "now z" ns10] fits in auto)
qed

section \<open>Steps of the port in time\<close>

text \<open>The port leaves the payload events \<open>E\<close> and the request channels \<open>q\<close>; its calls put \<open>A k\<close> into queue \<open>k\<close>.\<close>

definition port_effect :: "(tick \<times> ptr \<times> tlm_phase) list \<Rightarrow> (u32 \<Rightarrow> ptr option) \<Rightarrow> (u32 \<Rightarrow> (tick \<times> ptr \<times> tlm_phase) list)
    \<Rightarrow> (ptr \<Rightarrow> tick \<times> tick) \<Rightarrow> timed \<Rightarrow> timed \<Rightarrow> bool" where
  "port_effect E q A s z z' \<longleftrightarrow> events z' = E \<and> now z' = now z \<and> request z' = q \<and> router z' = router z
     \<and> y_peq (t_sys z') = (\<lambda>k. y_peq (t_sys z) k @ map snd (A k)) \<and> t_peq z' = (\<lambda>k. t_peq z k @ A k)
     \<and> t_done z' = t_done z \<and> t_sent z' = s"

lemma timed_port_effect:
  assumes "port_done (t_sys z) w = Inr y'" and "w_now (y_port y') = now z"
    and "w_log (y_port y') = w_log (y_port (t_sys z)) @ cs" and "z' = timed_port z y'" and "w_events (y_port y') = E"
    and "blocking (helper (y_port y')) Request = q" and "\<And>k. sent_to (now z) k cs = A k" and "requested (now z) cs (t_sent z) = s"
  shows "port_effect E q A s z z'"
  using port_done_effect(1,2) [OF assms(1)] port_done_effect(3) [OF assms(1), of _ "now z"] assms
  by (simp add: port_effect_def timed_port_def new_calls_def Let_def fun_eq_iff)

lemma sys_port_done:
  "sys_request C packet y = Inr (a, y') \<Longrightarrow> \<exists>w. port_done y w = Inr y'"
  "sys_event C accept j y = Inr y' \<Longrightarrow> \<exists>w. port_done y w = Inr y'"
  "sys_resp_retry C rounds y = Inr y' \<Longrightarrow> \<exists>w. port_done y w = Inr y'"
  by (auto simp: sys_request_def sys_event_def sys_resp_retry_def res_simps split: prod.splits)

lemma timed_request_cases:
  assumes inv: "cosim_inv tm n H (t_sys z)" and lib: "tlm_lib_ok (cl_tlm C)" and req: "request_ok C n packet (t_sys z)"
    and step: "timed_request C packet z = Inr (a, z')"
  obtains (refused) "\<not> a" "port_effect (events z) (request z) (\<lambda>k. []) (t_sent z) z z'"
      "held (y_port (t_sys z')) = held (y_port (t_sys z))" "cosim_inv tm n H (t_sys z')"
  | (accepted) k u d where "a" "k < n" "d = pkt_payloadDelay (w_pkt (y_port (t_sys z)) packet)" "request z k = None"
      "\<And>i. \<not> live_on H (y_port (t_sys z)) i u"
      "port_effect (events z) ((request z)(k := Some u)) ((\<lambda>k. [])(k := [(now z + d, u, BEGIN_REQ)]))
         ((t_sent z)(u := (now z, d))) z z'"
      "held (y_port (t_sys z')) = held (y_port (t_sys z))" "cosim_inv tm n H (t_sys z')"
proof -
  obtain y' where y': "sys_request C packet (t_sys z) = Inr (a, y')" "z' = timed_port z y'"
    using step by (auto simp: timed_request_def res_simps)
  obtain w where w: "port_done (t_sys z) w = Inr y'" using sys_port_done(1) [OF y'(1)] by blast
  have sys: "t_sys z' = y'" by (simp add: y'(2) timed_port_def Let_def)
  let ?k = "target_socket_id (w_pkt (y_port (t_sys z)) packet) (w_port (y_port (t_sys z)))"
  let ?d = "pkt_payloadDelay (w_pkt (y_port (t_sys z)) packet)"
  show thesis
  proof (cases "request z ?k")
    case (Some v)
    have r: "\<not> a" "cosim_inv tm n H y'" "blocking (helper (y_port y')) = blocking (helper (y_port (t_sys z)))"
        "w_log (y_port y') = w_log (y_port (t_sys z)) @ []" "w_events (y_port y') = events z" "w_now (y_port y') = now z"
      using refused_request_ok [OF inv req Some] y'(1) by auto
    show thesis
      by (rule refused [OF r(1)]) (use timed_port_effect [OF w r(6,4) y'(2) r(5)] r(2,3) sys in \<open>simp_all add: held_def fun_eq_iff\<close>)
  next
    case None
    obtain u where r: a "cosim_inv tm n H y'" "?k < n" "\<And>i. \<not> live_on H (y_port (t_sys z)) i u"
        "blocking (helper (y_port y')) = (blocking (helper (y_port (t_sys z))))(Request := (request z)(?k := Some u))"
        "w_log (y_port y') = w_log (y_port (t_sys z)) @ [Acquire u, Nb_transport_fw (Socket_of ?k) u BEGIN_REQ ?d]"
        "w_events (y_port y') = events z" "w_now (y_port y') = now z"
      using accepted_request_ok [OF inv lib req None refl] y'(1) by auto
    have "port_effect (events z) ((request z)(?k := Some u)) ((\<lambda>k. [])(?k := [(now z + ?d, u, BEGIN_REQ)]))
        ((t_sent z)(u := (now z, ?d))) z z'"
      by (rule timed_port_effect [OF w r(8,6) y'(2) r(7)]) (simp_all add: r(5))
    then show thesis
      by (intro accepted [OF r(1,3) refl None r(4)]) (use r(2,5) sys in \<open>simp_all add: held_def fun_eq_iff\<close>)
  qed
qed

lemma timed_event_cases:
  assumes inv: "cosim_inv tm n H (t_sys z)" and lib: "tlm_lib_ok (cl_tlm C)" and nx: "next_event j (y_port (t_sys z))"
    and step: "timed_event C accept j z = Inr z'"
  obtains (end_req) c t q where "events z ! j = (c, t, END_REQ)"
      "\<And>k. q k \<noteq> request z k \<Longrightarrow> q k = None \<and> request z k = Some t"
      "port_effect (take j (events z) @ drop (Suc j) (events z)) q (\<lambda>k. []) (t_sent z) z z'"
      "accept \<Longrightarrow> held (y_port (t_sys z')) = held (y_port (t_sys z))"
  | (begin_resp) c t i where "events z ! j = (c, t, BEGIN_RESP)" "i < n" "transaction_in_progress (router z i) = Some t"
      "ends (y_peq (t_sys z) i) = 0"
      "port_effect (take j (events z) @ drop (Suc j) (events z)) (request z) ((\<lambda>k. [])(i := [(now z, t, END_RESP)])) (t_sent z) z z'"
      "accept \<Longrightarrow> held (y_port (t_sys z')) = held (y_port (t_sys z))"
  | (refused) c t where "events z ! j = (c, t, BEGIN_RESP)" "\<not> accept"
      "port_effect (take j (events z) @ drop (Suc j) (events z)) (request z) (\<lambda>k. []) (t_sent z) z z'"
proof -
  obtain y' where y': "sys_event C accept j (t_sys z) = Inr y'" "z' = timed_port z y'"
    using step by (auto simp: timed_event_def res_simps)
  obtain w where w: "port_done (t_sys z) w = Inr y'" using sys_port_done(2) [OF y'(1)] by blast
  have sys: "t_sys z' = y'" by (simp add: y'(2) timed_port_def Let_def)
  obtain c t ph where e: "events z ! j = (c, t, ph)" by (rule prod_cases3)
  have "ph = END_REQ \<or> ph = BEGIN_RESP"
    by (rule event_stage [OF inv refl next_event_ev(1) [OF nx e refl]]) simp_all
  then show thesis
  proof
    assume ph: "ph = END_REQ"
    from end_req_ok [OF inv lib nx e [unfolded ph], of accept] y'(1)
    have r: "accept \<longrightarrow> held (y_port y') = held (y_port (t_sys z))" "event_effect j (t_sys z) y'"
        "w_log (y_port y') = w_log (y_port (t_sys z)) \<or> w_log (y_port y') = w_log (y_port (t_sys z)) @ [Send_retry_req]" by auto
    then obtain cs where cs: "w_log (y_port y') = w_log (y_port (t_sys z)) @ cs" "cs = [] \<or> cs = [Send_retry_req]" by auto
    note eff = r(2) [unfolded event_effect_def]
    have "port_effect (take j (events z) @ drop (Suc j) (events z)) (blocking (helper (y_port y')) Request) (\<lambda>k. []) (t_sent z) z z'"
      by (rule timed_port_effect [OF w _ cs(1) y'(2)]) (use eff cs(2) in auto)
    then show thesis
      by (rule end_req [OF e [unfolded ph], rotated]) (use eff r(1) sys e ph in auto)
  next
    assume ph: "ph = BEGIN_RESP"
    from begin_resp_ok [OF inv lib nx e [unfolded ph], of accept] y'(1)
    obtain i offers where r: "accept \<longrightarrow> held (y_port y') = held (y_port (t_sys z))" "event_effect j (t_sys z) y'"
        "i < n" "transaction_in_progress (router z i) = Some t" "ends (y_peq (t_sys z) i) = 0" "offers = [] \<or> (\<exists>p. offers = [Send_timing_resp p])"
        "w_log (y_port y') = w_log (y_port (t_sys z)) @ offers @ [Nb_transport_fw (Socket_of i) t END_RESP 0, Release t]
         \<or> w_log (y_port y') = w_log (y_port (t_sys z)) @ offers \<and> \<not> accept" by auto
    note eff = r(2) [unfolded event_effect_def]
    have q: "blocking (helper (y_port y')) Request = request z" using eff e ph by (auto simp: fun_eq_iff)
    from r(7) show thesis
    proof
      assume log: "w_log (y_port y') = w_log (y_port (t_sys z)) @ offers @ [Nb_transport_fw (Socket_of i) t END_RESP 0, Release t]"
      have "port_effect (take j (events z) @ drop (Suc j) (events z)) (request z) ((\<lambda>k. [])(i := [(now z, t, END_RESP)])) (t_sent z) z z'"
        by (rule timed_port_effect [OF w _ log y'(2) _ q]) (use eff r(6) in auto)
      then show thesis by (rule begin_resp [OF e [unfolded ph] r(3-5)]) (use r(1) sys in simp)
    next
      assume log: "w_log (y_port y') = w_log (y_port (t_sys z)) @ offers \<and> \<not> accept"
      have "port_effect (take j (events z) @ drop (Suc j) (events z)) (request z) (\<lambda>k. []) (t_sent z) z z'"
        by (rule timed_port_effect [OF w _ conjunct1 [OF log] y'(2) _ q]) (use eff r(6) in auto)
      then show thesis using refused [OF e [unfolded ph]] log by blast
    qed
  qed
qed

lemma retry_sent:
  "\<exists>es. sent_to c k (concat (map (retry_calls w) ks)) = es \<and> (\<forall>e \<in> set es. fst e = c \<and> snd (snd e) = END_RESP)"
  "requested c (concat (map (retry_calls w) ks)) s = s"
  "\<forall>k. held w k = None \<Longrightarrow> concat (map (retry_calls w) ks) = []"
  by (induction ks) (auto simp: retry_calls_held sent_to_append split: option.splits)

lemma timed_resp_retry_effect:
  assumes inv: "cosim_inv tm n H (t_sys z)" and lib: "tlm_lib_ok (cl_tlm C)" and step: "timed_resp_retry C rounds z = Inr z'"
  obtains A where "port_effect (events z) (request z) A (t_sent z) z z'" "\<And>k. held (y_port (t_sys z')) k = None"
    "\<And>k e. e \<in> set (A k) \<Longrightarrow> fst e = now z \<and> snd (snd e) = END_RESP"
    "(\<And>k. held (y_port (t_sys z)) k = None) \<Longrightarrow> A = (\<lambda>k. [])"
proof -
  note D = cosim_invD [OF inv refl]
  obtain w' where w': "\<forall>w''. recvRespRetry (port_env C True) rounds (y_port (t_sys z)) = Inr w'' \<longrightarrow> w'' = w'"
      "w_events w' = events z" "w_now w' = now z" "\<forall>k. held w' k = None" "blocking (helper w') Request = request z"
      "w_log w' = w_log (y_port (t_sys z)) @ concat (map (retry_calls (y_port (t_sys z))) (sockets_upto n))"
    by (rule retry_outcome [OF lib D(1-3)]) blast
  obtain y' where y': "port_done (t_sys z) w' = Inr y'" "z' = timed_port z y'"
    using step w'(1) by (auto simp: timed_resp_retry_def sys_resp_retry_def res_simps)
  have port: "y_port y' = w'" using port_done_effect(1) [OF y'(1)] .
  show thesis
  proof (rule that)
    show "port_effect (events z) (request z)
        (\<lambda>k. sent_to (now z) k (concat (map (retry_calls (y_port (t_sys z))) (sockets_upto n)))) (t_sent z) z z'"
      by (rule timed_port_effect [OF y'(1) _ _ y'(2)]) (use w' port retry_sent(2) in simp_all)
    show "held (y_port (t_sys z')) k = None" for k using w'(4) port by (simp add: y'(2) timed_port_def Let_def)
    show "fst e = now z \<and> snd (snd e) = END_RESP"
      if "e \<in> set (sent_to (now z) k (concat (map (retry_calls (y_port (t_sys z))) (sockets_upto n))))" for k e
      using retry_sent(1) that by blast
  qed (simp add: retry_sent(3))
qed

lemma port_timed_ok:
  assumes inv: "cosim_inv tm n H (t_sys z)" and ok: "timed_ok n z" and eff: "port_effect E q A s z z'"
    and E: "set E \<subseteq> set (events z)"
    and A: "\<And>k e. e \<in> set (A k) \<Longrightarrow> now z \<le> fst e \<and> (snd (snd e) = END_RESP \<longrightarrow> fst e = now z)"
    and q: "\<And>k. k < n \<Longrightarrow> q k = request z k \<or> q k = None \<and> (\<forall>x. t_done z k = Some x \<longrightarrow> unat x \<le> unat (now z) + 15000)
       \<or> request z k = None \<and> (\<forall>t e. q k = Some t \<longrightarrow> (e, t, END_REQ) \<notin> set (events z))"
  shows "timed_ok n z'"
proof -
  have "due_ok (now z) (set E) (q k) (router z k) (y_peq (t_sys z) k @ map snd (A k)) (t_peq z k @ A k) (t_done z k)"
    if k: "k < n" for k
  proof -
    note due = timed_okD(4) [OF ok k]
    have tip: "transaction_in_progress (router z k) \<noteq> None" if "t_done z k \<noteq> None"
      using that due_okD(5) [OF due] cosim_invD(4) [OF inv refl k] by (auto simp: sock_ok_def router_ok_def)
    have lat: "q k \<noteq> transaction_in_progress (router z k) \<longrightarrow> unat x \<le> unat (now z) + 15000" if "t_done z k = Some x" for x
      using q [OF k] that due_okD(8) [OF due that] tip by auto
    have "\<exists>x. t_done z k = Some x \<and> unat x = unat e + 15000" if "q k = Some t" "(e, t, END_REQ) \<in> set E" for t e
      using q [OF k] that E due_okD(9) [OF due, of t e] by auto
    moreover have "mset (map snd (t_peq z k @ A k)) = mset (y_peq (t_sys z) k @ map snd (A k))"
      using due_okD(1) [OF due] by simp
    ultimately show ?thesis
      unfolding due_ok_def using lat due_okD(3-7) [OF due] A [of _ k] by (intro conjI) auto
  qed
  then show ?thesis
    using timed_okD(1-3) [OF ok] E eff unfolding timed_ok_def port_effect_def by auto
qed

lemma advance_ok:
  assumes ok: "timed_ok n z" and c: "now z \<le> c" "quiet_until n z c" "unat c + 25000 < 2 ^ 64"
  shows "timed_ok n (timed_advance c z)"
proof -
  have le: "unat (now z) \<le> unat c" using c(1) by (simp add: word_le_nat_alt)
  have "due_ok c (set (events z)) (request z k) (router z k) (y_peq (t_sys z) k) (t_peq z k) (t_done z k)" if k: "k < n" for k
  proof -
    note due = timed_okD(4) [OF ok k]
    have P: "c \<le> fst e \<and> (snd (snd e) = END_RESP \<longrightarrow> fst e = c)" if "e \<in> set (t_peq z k)" for e
      using due_okD(4) [OF due that] c(1,2) k that unfolding quiet_until_def by (metis antisym)
    have "c \<le> x \<and> unat x \<le> unat c + 25000 \<and> (request z k \<noteq> transaction_in_progress (router z k) \<longrightarrow> unat x \<le> unat c + 15000)"
      if "t_done z k = Some x" for x
      using due_okD(7,8) [OF due that] c(2) k that le unfolding quiet_until_def by fastforce
    then show ?thesis unfolding due_ok_def using due_okD(1,5,9) [OF due] P by (intro conjI) auto
  qed
  moreover have "c \<le> fst e \<and> unat (fst e) \<le> unat c + 10000" if "e \<in> set (events z)" for e
    using timed_okD(3) [OF ok that] c(2) that le unfolding quiet_until_def by fastforce
  ultimately show ?thesis using c(3) unfolding timed_ok_def by (simp add: timed_advance_def)
qed

lemma event_dropped: "set (take j xs @ drop (Suc j) xs) \<subseteq> set xs"
  using set_take_subset set_drop_subset by fastforce

lemma timed_step_ok:
  assumes inv: "cosim_inv tm n H (t_sys z)" and ok: "timed_ok n z" and lib: "tlm_lib_ok (cl_tlm C)"
    and step: "timed_step C n eager mv z z'"
  shows "timed_ok n z'"
  using step
proof (cases rule: timed_step.cases)
  case (Advance c)
  then show ?thesis using advance_ok [OF ok] by simp
next
  case (New_packets pk)
  then show ?thesis using ok by (simp add: timed_ok_def)
next
  case (Send packet accepted)
  show ?thesis
  proof (rule timed_request_cases [OF inv lib Send(2,4)])
    assume "port_effect (events z) (request z) (\<lambda>k. []) (t_sent z) z z'"
    then show ?thesis by (rule port_timed_ok [OF inv ok]) simp_all
  next
    fix k u d
    assume u: "d = pkt_payloadDelay (w_pkt (y_port (t_sys z)) packet)" "request z k = None" "\<And>i. \<not> live_on H (y_port (t_sys z)) i u"
      and eff: "port_effect (events z) ((request z)(k := Some u)) ((\<lambda>k. [])(k := [(now z + d, u, BEGIN_REQ)]))
         ((t_sent z)(u := (now z, d))) z z'"
    have "(e, u, END_REQ) \<notin> set (events z)" for e
      using dead_quiet(1) [OF inv refl u(3)] set_ev [of END_REQ "y_port (t_sys z)" u] by auto
    moreover have "now z \<le> now z + d" using now_plus(2) Send(3) u(1) by simp
    ultimately show ?thesis using u(2) by (intro port_timed_ok [OF inv ok eff]) (auto split: if_splits)
  qed
next
  case (Ask_again rounds)
  obtain A where A: "port_effect (events z) (request z) A (t_sent z) z z'"
      "\<And>k e. e \<in> set (A k) \<Longrightarrow> fst e = now z \<and> snd (snd e) = END_RESP"
    by (rule timed_resp_retry_effect [OF inv lib Ask_again(2)]) blast
  show ?thesis by (rule port_timed_ok [OF inv ok A(1)]) (use A(2) in auto)
next
  case (Event_due j accept)
  show ?thesis
  proof (rule timed_event_cases [OF inv lib due_next_event [OF inv ok Event_due(2)] Event_due(5)])
    fix c t q
    assume e: "events z ! j = (c, t, END_REQ)" and q: "\<And>k. q k \<noteq> request z k \<Longrightarrow> q k = None \<and> request z k = Some t"
      and eff: "port_effect (take j (events z) @ drop (Suc j) (events z)) q (\<lambda>k. []) (t_sent z) z z'"
    have mem: "(now z, t, END_REQ) \<in> set (events z)" using nth_mem [OF Event_due(2)] Event_due(3) e by simp
    have "unat x \<le> unat (now z) + 15000" if "k < n" "t_done z k = Some x" "q k \<noteq> request z k" for k x
      using due_okD(9) [OF timed_okD(4) [OF ok that(1)] _ mem] q [OF that(3)] that(2) by auto
    then show ?thesis using q by (intro port_timed_ok [OF inv ok eff event_dropped]) auto
  next
    fix t i
    assume "port_effect (take j (events z) @ drop (Suc j) (events z)) (request z) ((\<lambda>k. [])(i := [(now z, t, END_RESP)])) (t_sent z) z z'"
    then show ?thesis by (rule port_timed_ok [OF inv ok _ event_dropped]) (auto split: if_splits)
  next
    assume "port_effect (take j (events z) @ drop (Suc j) (events z)) (request z) (\<lambda>k. []) (t_sent z) z z'"
    then show ?thesis by (rule port_timed_ok [OF inv ok _ event_dropped]) auto
  qed
next
  case (Peq_due k e)
  then show ?thesis using timed_peq_ok [OF inv ok] by blast
next
  case (Done_due k)
  then show ?thesis using timed_execute_ok [OF inv ok] by blast
qed

lemma timed_start_ok: "timed_start tm n z \<Longrightarrow> timed_ok n z"
  by (auto simp: timed_start_def timed_ok_def cosim_start_def due_ok_def TxnRouter_def)

lemma timed_reachable_ok:
  assumes "timed_reachable C tm n eager z" and lib: "tlm_lib_ok (cl_tlm C)" "memory_ok (cl_memory C)"
  obtains H where "reachable C tm n (t_sys z)" "cosim_inv tm n H (t_sys z)" "timed_ok n z"
proof -
  obtain z0 where z0: "timed_start tm n z0" "(\<lambda>z z'. \<exists>mv. timed_step C n eager mv z z')\<^sup>*\<^sup>* z0 z"
    using assms(1) by (auto simp: timed_reachable_def)
  from z0(2) have "reachable C tm n (t_sys z) \<and> timed_ok n z"
  proof (induction rule: rtranclp_induct)
    case base
    have "reachable C tm n (t_sys z0)" using z0(1) by (auto simp: timed_start_def reachable_def)
    then show ?case using timed_start_ok [OF z0(1)] by simp
  next
    case (step z z')
    then obtain mv H where s: "timed_step C n eager mv z z'" "cosim_inv tm n H (t_sys z)"
      using reachable_inv [OF _ lib] by blast
    then show ?case
      using step.IH reachable_step timed_simulates [OF s(2) _ s(1)] timed_step_ok [OF s(2) _ lib(1) s(1)] by blast
  qed
  then show thesis using that reachable_inv [OF _ lib] by blast
qed

end
