(* ===== verification/Co_Latency.thy ===== *)
theory Co_Latency
  imports Co_Timed_Invariant
begin

text \<open>
  The latency of a transaction through port and router, when gem5 takes every response. A request sent
  at \<open>s\<close> with the delay \<open>d\<close> reaches the router at \<open>s + d\<close>; the router ends it, 25 ns later its latency is
  over, and 10 ns later the port handles the response. When the router is still busy with the
  transaction before, which has then had its request ended, it is free again at \<open>s + 25 ns\<close> at the latest.
\<close>

definition arrival :: "tick \<times> tick \<Rightarrow> nat" where
  "arrival p = unat (fst p) + unat (snd p)"

definition served_by :: "tick \<times> tick \<Rightarrow> nat" where
  "served_by p = unat (fst p) + max (unat (snd p)) 25000"

definition latest_response :: "tick \<times> tick \<Rightarrow> nat" where
  "latest_response p = served_by p + 35000"

text \<open>
  When the transaction in progress ends: with a response that is due at \<open>e\<close>, or the latency, or an
  \<open>END_RESP\<close> in the queue. A router with such an entry may point to a transaction that is used again.
\<close>

definition no_ends :: "(tick \<times> ptr \<times> tlm_phase) list \<Rightarrow> bool" where
  "no_ends P \<longleftrightarrow> (\<forall>m \<in> set P. snd (snd m) \<noteq> END_RESP)"

definition response_at :: "(tick \<times> ptr \<times> tlm_phase) set \<Rightarrow> txn_router \<Rightarrow> (tick \<times> ptr \<times> tlm_phase) list \<Rightarrow> tick \<Rightarrow> bool" where
  "response_at E r P e \<longleftrightarrow> no_ends P \<and> (\<exists>t. transaction_in_progress r = Some t \<and> (e, t, BEGIN_RESP) \<in> E)"

definition ends_by :: "nat \<Rightarrow> (tick \<times> ptr \<times> tlm_phase) set \<Rightarrow> txn_router \<Rightarrow> (tick \<times> ptr \<times> tlm_phase) list \<Rightarrow> tick option \<Rightarrow> bool" where
  "ends_by b E r P d \<longleftrightarrow> (\<forall>x. d = Some x \<longrightarrow> unat x + 10000 \<le> b) \<and> (\<forall>e. response_at E r P e \<longrightarrow> unat e \<le> b)
   \<and> (\<forall>m \<in> set P. snd (snd m) = END_RESP \<longrightarrow> unat (fst m) \<le> b)"

text \<open>
  A socket at the time \<open>c\<close>: the transaction in progress responds in its time window; one that waits has
  arrived, or will at its time, and the one before it ends in time.
\<close>

definition lat_ok :: "(ptr \<Rightarrow> tick \<times> tick) \<Rightarrow> tick \<Rightarrow> (tick \<times> ptr \<times> tlm_phase) set \<Rightarrow> txn_router
    \<Rightarrow> (tick \<times> ptr \<times> tlm_phase) list \<Rightarrow> tick option \<Rightarrow> bool" where
  "lat_ok s c E r P d \<longleftrightarrow>
     (\<forall>t x. transaction_in_progress r = Some t \<longrightarrow> d = Some x \<longrightarrow>
        arrival (s t) + 25000 \<le> unat x \<and> unat x + 10000 \<le> latest_response (s t))
   \<and> (\<forall>t e. transaction_in_progress r = Some t \<longrightarrow> response_at E r P e \<longrightarrow>
        arrival (s t) + 35000 \<le> unat e \<and> unat e \<le> latest_response (s t))
   \<and> (\<forall>b u. (b, u, BEGIN_REQ) \<in> set P \<longrightarrow> unat b = arrival (s u) \<and> ends_by (served_by (s u)) E r P d)
   \<and> (\<forall>u. end_req_pending r = Some u \<longrightarrow> arrival (s u) \<le> unat c \<and> ends_by (served_by (s u)) E r P d)"

definition latency_ok :: "u32 \<Rightarrow> timed \<Rightarrow> bool" where
  "latency_ok n z \<longleftrightarrow> (\<forall>k. held (y_port (t_sys z)) k = None)
   \<and> (\<forall>k < n. lat_ok (t_sent z) (now z) (set (events z)) (router z k) (t_peq z k) (t_done z k))"

lemma latency_okD:
  assumes "latency_ok n z"
  shows "held (y_port (t_sys z)) k = None"
    "k < n \<Longrightarrow> lat_ok (t_sent z) (now z) (set (events z)) (router z k) (t_peq z k) (t_done z k)"
  using assms by (simp_all add: latency_ok_def)

lemma lat_okD:
  assumes "lat_ok s c E r P d"
  shows "transaction_in_progress r = Some t \<Longrightarrow> d = Some x \<Longrightarrow> arrival (s t) + 25000 \<le> unat x"
    "transaction_in_progress r = Some t \<Longrightarrow> d = Some x \<Longrightarrow> unat x + 10000 \<le> latest_response (s t)"
    "transaction_in_progress r = Some t \<Longrightarrow> response_at E r P e \<Longrightarrow> arrival (s t) + 35000 \<le> unat e"
    "transaction_in_progress r = Some t \<Longrightarrow> response_at E r P e \<Longrightarrow> unat e \<le> latest_response (s t)"
    "(b, u, BEGIN_REQ) \<in> set P \<Longrightarrow> unat b = arrival (s u)"
    "(b, u, BEGIN_REQ) \<in> set P \<Longrightarrow> ends_by (served_by (s u)) E r P d"
    "end_req_pending r = Some u \<Longrightarrow> arrival (s u) \<le> unat c"
    "end_req_pending r = Some u \<Longrightarrow> ends_by (served_by (s u)) E r P d"
  using assms by (simp_all add: lat_ok_def)

lemma ends_byD:
  assumes "ends_by b E r P d"
  shows "d = Some x \<Longrightarrow> unat x + 10000 \<le> b" "response_at E r P e \<Longrightarrow> unat e \<le> b"
    "m \<in> set P \<Longrightarrow> snd (snd m) = END_RESP \<Longrightarrow> unat (fst m) \<le> b"
  using assms by (simp_all add: ends_by_def)

lemma arrival_served: "arrival p \<le> served_by p"
  by (simp add: arrival_def served_by_def)

text \<open>What a socket still has to do is not affected by other transactions' events and sending times.\<close>

definition mentions :: "txn_router \<Rightarrow> (tick \<times> ptr \<times> tlm_phase) list \<Rightarrow> ptr \<Rightarrow> bool" where
  "mentions r P t \<longleftrightarrow> transaction_in_progress r = Some t \<and> no_ends P \<or> end_req_pending r = Some t \<or> (\<exists>b. (b, t, BEGIN_REQ) \<in> set P)"

lemma ends_by_frame:
  assumes "ends_by b E r P d" and "\<And>t e. mentions r P t \<Longrightarrow> (e, t, BEGIN_RESP) \<in> E' \<Longrightarrow> (e, t, BEGIN_RESP) \<in> E"
  shows "ends_by b E' r P d"
  using assms by (fastforce simp: ends_by_def response_at_def mentions_def)

lemma lat_frame:
  assumes ok: "lat_ok s c E r P d" and td: "d \<noteq> None \<Longrightarrow> no_ends P"
    and E: "\<And>t e. mentions r P t \<Longrightarrow> (e, t, BEGIN_RESP) \<in> E' \<Longrightarrow> (e, t, BEGIN_RESP) \<in> E"
    and s: "\<And>t. mentions r P t \<Longrightarrow> s' t = s t" and c: "unat c \<le> unat c'"
  shows "lat_ok s' c' E' r P d"
  unfolding lat_ok_def
proof (intro conjI allI impI)
  fix t x
  assume t: "transaction_in_progress r = Some t" "d = Some x"
  then have "s' t = s t" using td by (intro s) (simp add: mentions_def)
  then show "arrival (s' t) + 25000 \<le> unat x" "unat x + 10000 \<le> latest_response (s' t)"
    using lat_okD(1,2) [OF ok t] by simp_all
next
  fix t e
  assume t: "transaction_in_progress r = Some t" "response_at E' r P e"
  then have m: "mentions r P t" by (simp add: mentions_def response_at_def)
  with t E have "response_at E r P e" by (auto simp: response_at_def)
  then show "arrival (s' t) + 35000 \<le> unat e" "unat e \<le> latest_response (s' t)"
    using lat_okD(3,4) [OF ok t(1)] s [OF m] by simp_all
next
  fix b u
  assume u: "(b, u, BEGIN_REQ) \<in> set P"
  then have m: "mentions r P u" by (auto simp: mentions_def)
  show "unat b = arrival (s' u)" "ends_by (served_by (s' u)) E' r P d"
    using lat_okD(5) [OF ok u] ends_by_frame [OF lat_okD(6) [OF ok u] E] s [OF m] by simp_all
next
  fix u
  assume u: "end_req_pending r = Some u"
  then have m: "mentions r P u" by (simp add: mentions_def)
  show "arrival (s' u) \<le> unat c'" "ends_by (served_by (s' u)) E' r P d"
    using lat_okD(7) [OF ok u] ends_by_frame [OF lat_okD(8) [OF ok u] E] s [OF m] c by simp_all
qed

text \<open>A transaction that a socket mentions is live there.\<close>

lemma same_entries:
  assumes "mset (map snd P) = mset Y"
  shows "ends Y = 0 \<longleftrightarrow> no_ends P" "(b, u, BEGIN_REQ) \<in> set P \<Longrightarrow> u \<in> set (reqs Y)"
proof -
  have Y: "set Y = snd ` set P" using arg_cong [OF assms, of set_mset] by simp
  show "ends Y = 0 \<longleftrightarrow> no_ends P" by (auto simp: ends_def filter_empty_conv no_ends_def Y)
  show "(b, u, BEGIN_REQ) \<in> set P \<Longrightarrow> u \<in> set (reqs Y)" by (force simp: reqs_def Y)
qed

lemma mentioned_live:
  assumes inv: "cosim_inv tm n H (t_sys z)" and ok: "timed_ok n z" and k: "k < n"
    and "mentions (router z k) (t_peq z k) t"
  shows "live_on H (y_port (t_sys z)) k t"
proof -
  note sock = cosim_invD(4) [OF inv refl k] and Y = due_okD(1) [OF timed_okD(4) [OF ok k]]
  from assms(4) consider (tip) "transaction_in_progress (router z k) = Some t" "ends (y_peq (t_sys z) k) = 0"
    | (pending) "end_req_pending (router z k) = Some t" | (queued) "t \<in> set (reqs (y_peq (t_sys z) k))"
    using same_entries [OF Y] by (auto simp: mentions_def)
  then show ?thesis
  proof cases
    case tip
    with sock show ?thesis by (auto simp: sock_ok_def live_on_held held_def split: if_splits)
  next
    case pending
    then have "request z k = Some t"
      using sock by (auto simp: sock_ok_def waiting_def router_ok_def split: option.splits if_splits)
    then show ?thesis by (simp add: live_on_held)
  next
    case queued
    then have "request z k = Some t"
      using sock by (auto simp: sock_ok_def waiting_def router_ok_def split: option.splits if_splits)
    then show ?thesis by (simp add: live_on_held)
  qed
qed

lemma done_no_ends:
  assumes inv: "cosim_inv tm n H (t_sys z)" and ok: "timed_ok n z" and k: "k < n" and "t_done z k \<noteq> None"
  shows "no_ends (t_peq z k)"
  using cosim_invD(4) [OF inv refl k] due_okD(1,5) [OF timed_okD(4) [OF ok k]] assms(4) same_entries(1)
  by (auto simp: sock_ok_def router_ok_def split: option.splits)

section \<open>Steps of a socket\<close>

text \<open>The router begins with a request: \<open>c\<close> lies between its arrival and the time at which it is served.\<close>

lemma lat_begins:
  assumes r: "transaction_in_progress r = Some u" "end_req_pending r = None" and P: "\<And>b v. (b, v, BEGIN_REQ) \<notin> set P"
    and E: "\<And>e. (e, u, BEGIN_RESP) \<notin> E" and c: "arrival (s u) \<le> unat c" "unat c \<le> served_by (s u)"
    and fits: "unat c + 25000 < 2 ^ 64"
  shows "lat_ok s c E r P (Some (c + 25000))"
  using assms now_plus(1) [of c 25000] by (auto simp: lat_ok_def response_at_def latest_response_def)

text \<open>An entry of a request has no part in the end of the transaction in progress.\<close>

lemma ends_by_requests:
  assumes "{m \<in> set P'. snd (snd m) = END_RESP} = {m \<in> set P. snd (snd m) = END_RESP}"
    and "transaction_in_progress r' = transaction_in_progress r"
  shows "response_at E r' P' = response_at E r P" "ends_by b E r' P' d = ends_by b E r P d"
proof -
  have iff: "m \<in> set P' \<and> snd (snd m) = END_RESP \<longleftrightarrow> m \<in> set P \<and> snd (snd m) = END_RESP" for m using assms(1) by blast
  then have "no_ends P' = no_ends P" unfolding no_ends_def by blast
  then show r: "response_at E r' P' = response_at E r P" using assms(2) by (simp add: response_at_def fun_eq_iff)
  show "ends_by b E r' P' d = ends_by b E r P d" unfolding ends_by_def r using iff by blast
qed

lemma lat_waits:
  assumes ok: "lat_ok s c E r P d" and e: "(c, u, BEGIN_REQ) \<in> set P"
    and only: "\<And>b v. (b, v, BEGIN_REQ) \<notin> set (remove1 (c, u, BEGIN_REQ) P)"
  shows "lat_ok s c E (r\<lparr>end_req_pending := Some u\<rparr>) (remove1 (c, u, BEGIN_REQ) P) d"
proof -
  have same: "{m \<in> set (remove1 (c, u, BEGIN_REQ) P). snd (snd m) = END_RESP} = {m \<in> set P. snd (snd m) = END_RESP}"
    using set_remove1_subset [of "(c, u, BEGIN_REQ)" P] in_set_remove1 by fastforce
  note ends = ends_by_requests [OF same, of "r\<lparr>end_req_pending := Some u\<rparr>" r]
  show ?thesis
    using lat_okD(1-4) [OF ok] lat_okD(5,6) [OF ok e] only unfolding lat_ok_def by (auto simp: ends)
qed

lemma lat_arrives:
  assumes ok: "lat_ok s c E r P d" and "unat b = arrival (s u)" and "ends_by (served_by (s u)) E r P d"
  shows "lat_ok s c E r (P @ [(b, u, BEGIN_REQ)]) d"
proof -
  have same: "{m \<in> set (P @ [(b, u, BEGIN_REQ)]). snd (snd m) = END_RESP} = {m \<in> set P. snd (snd m) = END_RESP}" by auto
  note ends = ends_by_requests [OF same refl]
  show ?thesis using ok assms(2,3) unfolding lat_ok_def by (auto simp: ends simp del: set_append) auto
qed

text \<open>The response has been taken: the end is queued without delay.\<close>

lemma ends_by_taken:
  assumes ends: "ends_by b E r P d" and now: "response_at E r P c"
  shows "ends_by b E' r (P @ [(c, t, END_RESP)]) d"
  using ends_byD(1,3) [OF ends] ends_byD(2) [OF ends now] by (auto simp: ends_by_def response_at_def no_ends_def)

lemma lat_taken:
  assumes ok: "lat_ok s c E r P d" and now: "response_at E r P c"
  shows "lat_ok s c E' r (P @ [(c, t, END_RESP)]) d"
  using lat_okD(1,2,5,7) [OF ok] ends_by_taken [OF lat_okD(6) [OF ok] now] ends_by_taken [OF lat_okD(8) [OF ok] now]
  unfolding lat_ok_def by (auto simp: response_at_def no_ends_def)

lemma lat_ended:
  assumes ok: "lat_ok s c E r P d" and r: "transaction_in_progress r' = None" "end_req_pending r' = None"
  shows "lat_ok s c E r' (remove1 e P) None"
proof -
  have sub: "set (remove1 e P) \<subseteq> set P" by (rule set_remove1_subset)
  have "ends_by b E r' (remove1 e P) None" if "ends_by b E r P d" for b
    using ends_byD(3) [OF that] sub r(1) by (auto simp: ends_by_def response_at_def)
  then show ?thesis using lat_okD(5,6) [OF ok] sub r by (auto simp: lat_ok_def)
qed

lemma lat_executes:
  assumes ok: "lat_ok s c E r P (Some c)" and t: "transaction_in_progress r = Some t" "\<And>e. (e, t, BEGIN_RESP) \<notin> E" "no_ends P"
    and r': "transaction_in_progress r' = Some t" "end_req_pending r' = end_req_pending r" and fits: "unat c + 25000 < 2 ^ 64"
  shows "lat_ok s c (insert (c + ns10, t, BEGIN_RESP) E) r' P None"
proof -
  have plus: "unat (c + ns10) = unat c + 10000" using now_plus(1) [of c ns10] fits by simp
  have resp: "response_at (insert (c + ns10, t, BEGIN_RESP) E) r' P e \<longleftrightarrow> e = c + ns10" for e
    using t(2,3) r'(1) by (auto simp: response_at_def)
  have ends: "ends_by b (insert (c + ns10, t, BEGIN_RESP) E) r' P None" if "ends_by b E r P (Some c)" for b
    using ends_byD(1,3) [OF that] plus by (simp add: ends_by_def resp)
  show ?thesis
    using lat_okD(1,2) [OF ok t(1) refl] lat_okD(5,7) [OF ok] ends [OF lat_okD(6) [OF ok]] ends [OF lat_okD(8) [OF ok]] r' plus
    unfolding lat_ok_def resp by auto
qed

section \<open>Every step keeps the time windows\<close>

lemma router_latency_ok:
  assumes inv: "cosim_inv tm n H (t_sys z)" and ok: "timed_ok n z" and lat: "latency_ok n z"
    and eff: "router_effect k E r Y P d z z'" and k: "k < n"
    and E: "\<And>t e. (e, t, BEGIN_RESP) \<in> set E \<Longrightarrow> live_on H (y_port (t_sys z)) k t"
    and own: "lat_ok (t_sent z) (now z) (set (events z) \<union> set E) r P d"
  shows "latency_ok n z'"
proof -
  have "lat_ok (t_sent z) (now z) (set (events z) \<union> set E) (router z' j) (t_peq z' j) (t_done z' j)" if j: "j < n" for j
  proof (cases "j = k")
    case True
    then show ?thesis using own eff by (simp add: router_effect_def)
  next
    case False
    have "(e, t, BEGIN_RESP) \<notin> set E" if "mentions (router z j) (t_peq z j) t" for t e
      using mentioned_live [OF inv ok j that] E live_unique [OF cosim_invD(1) [OF inv refl]] False by blast
    then have "lat_ok (t_sent z) (now z) (set (events z) \<union> set E) (router z j) (t_peq z j) (t_done z j)"
      by (intro lat_frame [OF latency_okD(2) [OF lat j]]) (use done_no_ends [OF inv ok j] in auto)
    then show ?thesis using False eff by (simp add: router_effect_def)
  qed
  then show ?thesis using latency_okD(1) [OF lat] eff unfolding latency_ok_def by (simp add: router_effect_def)
qed

lemma port_latency_ok:
  assumes inv: "cosim_inv tm n H (t_sys z)" and ok: "timed_ok n z" and lat: "latency_ok n z"
    and eff: "port_effect E q A s z z'" and E: "set E \<subseteq> set (events z)"
    and held: "\<And>k. held (y_port (t_sys z')) k = None"
    and s: "\<And>k t. k < n \<Longrightarrow> live_on H (y_port (t_sys z)) k t \<Longrightarrow> s t = t_sent z t"
    and A: "\<And>k. k < n \<Longrightarrow> A k \<noteq> [] \<Longrightarrow> lat_ok s (now z) (set (events z)) (router z k) (t_peq z k) (t_done z k) \<Longrightarrow>
        lat_ok s (now z) (set E) (router z k) (t_peq z k @ A k) (t_done z k)"
  shows "latency_ok n z'"
proof -
  have "lat_ok s (now z) (set E) (router z k) (t_peq z k @ A k) (t_done z k)" if k: "k < n" for k
  proof -
    have s': "s t = t_sent z t" if "mentions (router z k) (t_peq z k) t" for t
      using s [OF k mentioned_live [OF inv ok k that]] .
    show ?thesis
    proof (cases "A k = []")
      case True
      then show ?thesis
        using lat_frame [OF latency_okD(2) [OF lat k] _ _ s'] E done_no_ends [OF inv ok k] by auto
    next
      case False
      show ?thesis
        by (rule A [OF k False lat_frame [OF latency_okD(2) [OF lat k] _ _ s']]) (use done_no_ends [OF inv ok k] in auto)
    qed
  qed
  then show ?thesis using eff held unfolding latency_ok_def by (simp add: port_effect_def)
qed

lemma latency_peq:
  assumes inv: "cosim_inv tm n H (t_sys z)" and ok: "timed_ok n z" and lat: "latency_ok n z" and k: "k < n"
    and e: "e \<in> set (t_peq z k)" "fst e = now z" and step: "timed_peq C k e z = Inr z'"
  shows "latency_ok n z'"
proof -
  note fits = timed_okD(1) [OF ok] and socket = latency_okD(2) [OF lat k] and Y = due_okD(1) [OF timed_okD(4) [OF ok k]]
  have fresh: "(a, u, BEGIN_RESP) \<notin> set (events z) \<union> set [(now z + ns10, u, END_REQ)]" if "ev (y_port (t_sys z)) u = []" for a u
    using that set_ev [of BEGIN_RESP "y_port (t_sys z)" u] by auto
  have no_reqs: "(b, v, BEGIN_REQ) \<notin> set (remove1 e (t_peq z k))"
    if "reqs (remove1 (snd e) (y_peq (t_sys z) k)) = []" for b v
  proof -
    have "mset (map snd (remove1 e (t_peq z k))) = mset (remove1 (snd e) (y_peq (t_sys z) k))"
      using mset_map_remove1 [OF e(1), of snd] Y by simp
    from same_entries(2) [OF this, of b v] that show ?thesis by auto
  qed
  have m: "snd e \<in> set (y_peq (t_sys z) k)" using due_okD(2) [OF timed_okD(4) [OF ok k]] e(1) by simp
  show ?thesis
  proof (rule timed_peq_cases [OF inv ok k e step])
    fix u
    assume u: "e = (now z, u, BEGIN_REQ)" "ev (y_port (t_sys z)) u = []" "reqs (y_peq (t_sys z) k) = [u]"
        "end_req_pending (router z k) = None"
      and eff: "router_effect k [(now z + ns10, u, END_REQ)] ((router z k)\<lparr>target_done := True, transaction_in_progress := Some u\<rparr>)
       (remove1 (u, BEGIN_REQ) (y_peq (t_sys z) k)) (remove1 e (t_peq z k)) (Some (now z + 25000)) z z'"
    have "reqs (remove1 (snd e) (y_peq (t_sys z) k)) = []" using reqs_remove1(2) [OF m _ u(3)] u(1) by simp
    then have "lat_ok (t_sent z) (now z) (set (events z) \<union> set [(now z + ns10, u, END_REQ)])
       ((router z k)\<lparr>target_done := True, transaction_in_progress := Some u\<rparr>) (remove1 e (t_peq z k)) (Some (now z + 25000))"
      using lat_okD(5) [OF socket e(1) [unfolded u(1)]] arrival_served [of "t_sent z u"] u(4) fresh [OF u(2)] no_reqs fits
      by (intro lat_begins [where u = u]) auto
    then show ?thesis by (intro router_latency_ok [OF inv ok lat eff k]) auto
  next
    fix u t
    assume u: "e = (now z, u, BEGIN_REQ)" "reqs (y_peq (t_sys z) k) = [u]"
      and eff: "router_effect k [] ((router z k)\<lparr>end_req_pending := Some u\<rparr>)
       (remove1 (u, BEGIN_REQ) (y_peq (t_sys z) k)) (remove1 e (t_peq z k)) (t_done z k) z z'"
    have "reqs (remove1 (snd e) (y_peq (t_sys z) k)) = []" using reqs_remove1(2) [OF m _ u(2)] u(1) by simp
    then show ?thesis
      using lat_waits [OF socket e(1) [unfolded u(1)]] no_reqs u(1)
      by (intro router_latency_ok [OF inv ok lat eff k]) auto
  next
    fix t
    assume "end_req_pending (router z k) = None"
      and eff: "router_effect k [] ((router z k)\<lparr>transaction_in_progress := None, response_in_progress := False\<rparr>)
       (remove1 (t, END_RESP) (y_peq (t_sys z) k)) (remove1 e (t_peq z k)) None z z'"
    then show ?thesis using lat_ended [OF socket] by (intro router_latency_ok [OF inv ok lat eff k]) auto
  next
    fix t u
    assume u: "e = (now z, t, END_RESP)" "end_req_pending (router z k) = Some u" "ev (y_port (t_sys z)) u = []"
        "reqs (y_peq (t_sys z) k) = []"
      and eff: "router_effect k [(now z + ns10, u, END_REQ)] ((router z k)\<lparr>transaction_in_progress := Some u,
         response_in_progress := False, target_done := True, end_req_pending := None\<rparr>)
       (remove1 (t, END_RESP) (y_peq (t_sys z) k)) (remove1 e (t_peq z k)) (Some (now z + 25000)) z z'"
    have "reqs (remove1 (snd e) (y_peq (t_sys z) k)) = []" using ends_remove1(2) [OF m] u(1,4) by simp
    then have "lat_ok (t_sent z) (now z) (set (events z) \<union> set [(now z + ns10, u, END_REQ)])
       ((router z k)\<lparr>transaction_in_progress := Some u, response_in_progress := False, target_done := True, end_req_pending := None\<rparr>)
       (remove1 e (t_peq z k)) (Some (now z + 25000))"
      using lat_okD(7) [OF socket u(2)] ends_byD(3) [OF lat_okD(8) [OF socket u(2)] e(1)] u(1) fresh [OF u(3)] no_reqs fits
      by (intro lat_begins [where u = u]) auto
    then show ?thesis by (intro router_latency_ok [OF inv ok lat eff k]) auto
  qed
qed

lemma latency_execute:
  assumes inv: "cosim_inv tm n H (t_sys z)" and ok: "timed_ok n z" and lat: "latency_ok n z" and k: "k < n"
    and "done": "t_done z k = Some (now z)" and step: "timed_execute C k z = Inr z'"
  shows "latency_ok n z'"
proof -
  obtain t where t: "transaction_in_progress (router z k) = Some t" "H t = Some k" "ev (y_port (t_sys z)) t = []"
    and eff: "router_effect k [(now z + ns10, t, BEGIN_RESP)] ((router z k)\<lparr>target_done := False, response_in_progress := True\<rparr>)
       (y_peq (t_sys z) k) (t_peq z k) None z z'"
    by (rule timed_execute_cases [OF inv ok k "done" step])
  have "(e, t, BEGIN_RESP) \<notin> set (events z)" for e
    using t(3) set_ev [of BEGIN_RESP "y_port (t_sys z)" t] by auto
  then have "lat_ok (t_sent z) (now z) (insert (now z + ns10, t, BEGIN_RESP) (set (events z)))
      ((router z k)\<lparr>target_done := False, response_in_progress := True\<rparr>) (t_peq z k) None"
    using latency_okD(2) [OF lat k] "done" t(1) done_no_ends [OF inv ok k] timed_okD(1) [OF ok] by (intro lat_executes) simp_all
  then show ?thesis
    using t(2) by (intro router_latency_ok [OF inv ok lat eff k]) (auto simp: live_on_def)
qed

end
