(* ===== verification/Co_Timed_Properties.thy ===== *)
theory Co_Timed_Properties
  imports Co_Latency
begin

text \<open>
  The properties of the composed system in time: it refines the system without time, it always goes on,
  and when gem5 takes every response, a request is answered in a time window that only depends on when
  it was sent.
\<close>

section \<open>The time windows are kept\<close>

lemma latency_request:
  assumes inv: "cosim_inv tm n H (t_sys z)" and ok: "timed_ok n z" and lat: "latency_ok n z" and lib: "tlm_lib_ok (cl_tlm C)"
    and req: "request_ok C n packet (t_sys z)"
    and fits: "unat (now z) + unat (pkt_payloadDelay (w_pkt (y_port (t_sys z)) packet)) < 2 ^ 64"
    and step: "timed_request C packet z = Inr (accepted, z')"
  shows "latency_ok n z'"
proof (rule timed_request_cases [OF inv lib req step])
  assume "port_effect (events z) (request z) (\<lambda>k. []) (t_sent z) z z'" "held (y_port (t_sys z')) = held (y_port (t_sys z))"
  then show ?thesis by (intro port_latency_ok [OF inv ok lat]) (auto simp: latency_okD(1) [OF lat])
next
  fix k u d
  assume u: "k < n" "d = pkt_payloadDelay (w_pkt (y_port (t_sys z)) packet)" "request z k = None"
      "\<And>i. \<not> live_on H (y_port (t_sys z)) i u" "held (y_port (t_sys z')) = held (y_port (t_sys z))"
    and eff: "port_effect (events z) ((request z)(k := Some u)) ((\<lambda>k. [])(k := [(now z + d, u, BEGIN_REQ)]))
         ((t_sent z)(u := (now z, d))) z z'"
  note due = timed_okD(4) [OF ok u(1)]
  have tip: "transaction_in_progress (router z k) \<noteq> None" if "t_done z k \<noteq> None"
    using that due_okD(5) [OF due] cosim_invD(4) [OF inv refl u(1)] by (auto simp: sock_ok_def router_ok_def)
  have "unat x \<le> unat (now z) + 15000" if "t_done z k = Some x" for x
    using due_okD(8) [OF due that] tip that u(3) by auto
  moreover have "unat e \<le> unat (now z) + 10000" if "response_at (set (events z)) (router z k) (t_peq z k) e" for e
    using timed_okD(3) [OF ok] that by (fastforce simp: response_at_def)
  moreover have "fst m = now z" if "m \<in> set (t_peq z k)" "snd (snd m) = END_RESP" for m
    using due_okD(4) [OF due that] .
  ultimately have ends: "ends_by (served_by (now z, d)) (set (events z)) (router z k) (t_peq z k) (t_done z k)"
    unfolding ends_by_def served_by_def by fastforce
  have "unat (now z + d) = arrival (now z, d)" using now_plus(1) [of "now z" d] fits u(2) by (simp add: arrival_def)
  then show ?thesis
    using ends u(4) latency_okD(1) [OF lat]
    by (intro port_latency_ok [OF inv ok lat eff]) (auto simp: u(5) intro: lat_arrives split: if_splits)
qed

lemma latency_event:
  assumes inv: "cosim_inv tm n H (t_sys z)" and ok: "timed_ok n z" and lat: "latency_ok n z" and lib: "tlm_lib_ok (cl_tlm C)"
    and j: "j < length (events z)" "fst (events z ! j) = now z" and step: "timed_event C True j z = Inr z'"
  shows "latency_ok n z'"
proof (rule timed_event_cases [OF inv lib due_next_event [OF inv ok j(1)] step])
  fix q
  assume "port_effect (take j (events z) @ drop (Suc j) (events z)) q (\<lambda>k. []) (t_sent z) z z'"
    and "True \<Longrightarrow> held (y_port (t_sys z')) = held (y_port (t_sys z))"
  then show ?thesis by (intro port_latency_ok [OF inv ok lat _ event_dropped]) (auto simp: latency_okD(1) [OF lat])
next
  fix c t i
  assume e: "events z ! j = (c, t, BEGIN_RESP)" "i < n" "transaction_in_progress (router z i) = Some t"
      "ends (y_peq (t_sys z) i) = 0" "True \<Longrightarrow> held (y_port (t_sys z')) = held (y_port (t_sys z))"
    and eff: "port_effect (take j (events z) @ drop (Suc j) (events z)) (request z) ((\<lambda>k. [])(i := [(now z, t, END_RESP)])) (t_sent z) z z'"
  have "response_at (set (events z)) (router z i) (t_peq z i) (now z)"
    using same_entries(1) [OF due_okD(1) [OF timed_okD(4) [OF ok e(2)]]] e(1,3,4) j nth_mem [OF j(1)]
    by (auto simp: response_at_def)
  then show ?thesis
    using latency_okD(1) [OF lat] e(5)
    by (intro port_latency_ok [OF inv ok lat eff event_dropped]) (auto intro: lat_taken split: if_splits)
qed simp

lemma latency_step:
  assumes inv: "cosim_inv tm n H (t_sys z)" and ok: "timed_ok n z" and lat: "latency_ok n z" and lib: "tlm_lib_ok (cl_tlm C)"
    and step: "timed_step C n True mv z z'"
  shows "latency_ok n z'"
  using step
proof (cases rule: timed_step.cases)
  case (Advance c)
  have "lat_ok (t_sent z) c (set (events z)) (router z k) (t_peq z k) (t_done z k)" if "k < n" for k
    by (rule lat_frame [OF latency_okD(2) [OF lat that]])
      (use done_no_ends [OF inv ok that] Advance(3) in \<open>auto simp: word_le_nat_alt\<close>)
  then show ?thesis using latency_okD(1) [OF lat] Advance(2) by (simp add: latency_ok_def timed_advance_def held_def)
next
  case (New_packets pk)
  then show ?thesis using lat by (simp add: latency_ok_def held_def)
next
  case (Send packet accepted)
  then show ?thesis using latency_request [OF inv ok lat lib] by blast
next
  case (Ask_again rounds)
  obtain A where A: "port_effect (events z) (request z) A (t_sent z) z z'" "\<And>k. held (y_port (t_sys z')) k = None"
      "(\<And>k. held (y_port (t_sys z)) k = None) \<Longrightarrow> A = (\<lambda>k. [])"
    by (rule timed_resp_retry_effect [OF inv lib Ask_again(2)]) blast
  show ?thesis by (rule port_latency_ok [OF inv ok lat A(1)]) (use A(2,3) latency_okD(1) [OF lat] in auto)
next
  case (Event_due j accept)
  then show ?thesis using latency_event [OF inv ok lat lib Event_due(2,3)] by simp
next
  case (Peq_due k e)
  then show ?thesis using latency_peq [OF inv ok lat] by blast
next
  case (Done_due k)
  then show ?thesis using latency_execute [OF inv ok lat] by blast
qed

lemma timed_start_latency: "timed_start tm n z \<Longrightarrow> latency_ok n z"
  by (auto simp: timed_start_def latency_ok_def cosim_start_def held_def lat_ok_def TxnRouter_def)

lemma eager_reachable_ok:
  assumes "timed_reachable C tm n True z" and lib: "tlm_lib_ok (cl_tlm C)" "memory_ok (cl_memory C)"
  shows "latency_ok n z"
proof -
  obtain z0 where z0: "timed_start tm n z0" "(\<lambda>z z'. \<exists>mv. timed_step C n True mv z z')\<^sup>*\<^sup>* z0 z"
    using assms(1) by (auto simp: timed_reachable_def)
  from z0(2) show ?thesis
  proof (induction rule: rtranclp_induct)
    case base
    then show ?case by (rule timed_start_latency [OF z0(1)])
  next
    case (step z z')
    have "timed_reachable C tm n True z" using z0(1) step.hyps(1) by (auto simp: timed_reachable_def)
    then obtain H where H: "cosim_inv tm n H (t_sys z)" "timed_ok n z" by (rule timed_reachable_ok [OF _ lib])
    then show ?case using latency_step [OF H step.IH lib(1)] step.hyps(2) by blast
  qed
qed

section \<open>Refinement\<close>

text \<open>
  C6: the timed system refines the one without time. With the delays of port and routers, a state that
  the timed system reaches is reachable without time, every timed step is a step of the system, and a
  payload event that is due is always the next one of its transaction: the order of events that the
  system assumes is the one that the delays give. So what is proved of the system holds in time.
\<close>

theorem timed_refines:
  assumes "timed_reachable C tm n eager z" and "tlm_lib_ok (cl_tlm C)" "memory_ok (cl_memory C)"
  shows "reachable C tm n (t_sys z)
    \<and> (timed_step C n eager mv z z' \<longrightarrow> cosim_step C n mv (t_sys z) (t_sys z'))
    \<and> (j < length (w_events (y_port (t_sys z))) \<longrightarrow> next_event j (y_port (t_sys z)))"
proof -
  obtain H where H: "reachable C tm n (t_sys z)" "cosim_inv tm n H (t_sys z)" "timed_ok n z"
    by (rule timed_reachable_ok [OF assms])
  show ?thesis using H(1) timed_simulates [OF H(2,3)] due_next_event [OF H(2,3)] by blast
qed

section \<open>Latency\<close>

lemma busy_now:
  assumes inv: "cosim_inv tm n H (t_sys z)" and ok: "timed_ok n z" and lat: "latency_ok n z" and k: "k < n"
    and tip: "transaction_in_progress (router z k) = Some t"
    and ends: "ends_by b (set (events z)) (router z k) (t_peq z k) (t_done z k)"
  shows "unat (now z) \<le> b"
proof -
  note due = timed_okD(4) [OF ok k]
  have none: "held (y_port (t_sys z)) k = None" by (rule latency_okD(1) [OF lat])
  from cosim_invD(4) [OF inv refl k] tip none consider (latency) "target_done (router z k)"
    | (response) "BEGIN_RESP \<in> set (ev (y_port (t_sys z)) t)" "ends (y_peq (t_sys z) k) = 0"
    | (ending) "ends (y_peq (t_sys z) k) \<noteq> 0"
    by (auto simp: sock_ok_def held_def split: if_splits)
  then show ?thesis
  proof cases
    case latency
    then obtain x where "t_done z k = Some x" using due_okD(5) [OF due] by auto
    with due_okD(6) [OF due] ends_byD(1) [OF ends] show ?thesis by (fastforce simp: word_le_nat_alt)
  next
    case response
    then obtain e where e: "(e, t, BEGIN_RESP) \<in> set (events z)" by (auto simp: set_ev)
    have "response_at (set (events z)) (router z k) (t_peq z k) e"
      using same_entries(1) [OF due_okD(1) [OF due]] response(2) tip e by (auto simp: response_at_def)
    with ends_byD(2) [OF ends] timed_okD(2) [OF ok e] show ?thesis by (fastforce simp: word_le_nat_alt)
  next
    case ending
    then obtain m where "m \<in> set (t_peq z k)" "snd (snd m) = END_RESP"
      using same_entries(1) [OF due_okD(1) [OF due]] by (auto simp: no_ends_def)
    with ends_byD(3) [OF ends] due_okD(4) [OF due] show ?thesis by metis
  qed
qed

lemma live_deadline:
  assumes inv: "cosim_inv tm n H (t_sys z)" and ok: "timed_ok n z" and lat: "latency_ok n z"
    and live: "live_on H (y_port (t_sys z)) k t"
  shows "unat (now z) \<le> latest_response (t_sent z t)"
proof -
  note D = cosim_invD [OF inv refl]
  have k: "k < n" by (rule D(6) [OF live])
  note due = timed_okD(4) [OF ok k] and socket = latency_okD(2) [OF lat k] and sock = D(4) [OF k]
  have none: "held (y_port (t_sys z)) k = None" by (rule latency_okD(1) [OF lat])
  have le: "arrival (t_sent z t) \<le> latest_response (t_sent z t)" "served_by (t_sent z t) \<le> latest_response (t_sent z t)"
    using arrival_served [of "t_sent z t"] by (simp_all add: latest_response_def)
  consider (tip) "transaction_in_progress (router z k) = Some t" "ends (y_peq (t_sys z) k) = 0"
    | (queued) "(t, BEGIN_REQ) \<in> set (y_peq (t_sys z) k)" | (pending) "end_req_pending (router z k) = Some t"
  proof -
    have req: "t \<in> set (reqs P) \<Longrightarrow> (t, BEGIN_REQ) \<in> set P" for P by (auto simp: reqs_def)
    from live none have "H t = Some k \<or> request z k = Some t" by (auto simp: live_on_held)
    then show thesis
    proof
      assume "H t = Some k"
      then show thesis using D(10) sock tip by (auto simp: sock_ok_def split: if_splits)
    next
      assume "request z k = Some t"
      then show thesis
        using sock tip pending queued req [of "y_peq (t_sys z) k"] by (auto simp: sock_ok_def waiting_def split: option.splits if_splits)
    qed
  qed
  then show ?thesis
  proof cases
    case tip
    then have "no_ends (t_peq z k)" using same_entries(1) [OF due_okD(1) [OF due]] by simp
    then have "ends_by (latest_response (t_sent z t)) (set (events z)) (router z k) (t_peq z k) (t_done z k)"
      using lat_okD(2,4) [OF socket tip(1)] by (auto simp: ends_by_def no_ends_def)
    then show ?thesis by (rule busy_now [OF inv ok lat k tip(1)])
  next
    case queued
    then obtain b where b: "(b, t, BEGIN_REQ) \<in> set (t_peq z k)" using due_okD(2) [OF due] by auto
    have "unat (now z) \<le> unat b" using due_okD(3) [OF due b] by (simp add: word_le_nat_alt)
    then show ?thesis using lat_okD(5) [OF socket b] le(1) by simp
  next
    case pending
    then obtain u where "transaction_in_progress (router z k) = Some u"
      using sock by (auto simp: sock_ok_def router_ok_def split: option.splits)
    from busy_now [OF inv ok lat k this lat_okD(8) [OF socket pending]] le(2) show ?thesis by simp
  qed
qed

text \<open>
  C3: a request is answered in time. When gem5 takes every response, a transaction that the port sent
  at \<open>s\<close> with the delay \<open>d\<close> is not in use any more later than 35 ns after \<open>d\<close> or 25 ns, whichever is
  longer, have passed: by then gem5 has its response and the router is free of it. The response is
  never early: it is given to gem5 at least \<open>d\<close> and 35 ns after the request was sent.
\<close>

theorem response_in_time:
  assumes "timed_reachable C tm n True z" and "tlm_lib_ok (cl_tlm C)" "memory_ok (cl_memory C)"
    and sent: "t_sent z t = (s, d)"
  shows "(in_use n (t_sys z) t \<longrightarrow> unat (now z) \<le> unat s + max (unat d) 25000 + 35000)
    \<and> ((e, t, BEGIN_RESP) \<in> set (w_events (y_port (t_sys z))) \<longrightarrow>
         unat s + unat d + 35000 \<le> unat e \<and> unat e \<le> unat s + max (unat d) 25000 + 35000)"
proof -
  obtain H where H: "cosim_inv tm n H (t_sys z)" "timed_ok n z" by (rule timed_reachable_ok [OF assms(1-3)])
  have lat: "latency_ok n z" by (rule eager_reachable_ok [OF assms(1-3)])
  have latest: "latest_response (t_sent z t) = unat s + max (unat d) 25000 + 35000"
      "arrival (t_sent z t) = unat s + unat d"
    by (simp_all add: sent latest_response_def served_by_def arrival_def)
  have "unat (now z) \<le> latest_response (t_sent z t)" if "in_use n (t_sys z) t"
    using in_use_live [OF H(1) that] live_deadline [OF H lat] by blast
  moreover have "arrival (t_sent z t) + 35000 \<le> unat e \<and> unat e \<le> latest_response (t_sent z t)"
    if "(e, t, BEGIN_RESP) \<in> set (events z)"
  proof -
    have "BEGIN_RESP \<in> set (ev (y_port (t_sys z)) t)" using that by (auto simp: set_ev)
    moreover have "length (ev (y_port (t_sys z)) t) \<le> 1" by (rule single_event [OF H])
    ultimately have ev: "ev (y_port (t_sys z)) t = [BEGIN_RESP]" by (cases "ev (y_port (t_sys z)) t") auto
    obtain i where i: "i < n" "transaction_in_progress (router z i) = Some t" "ends (y_peq (t_sys z) i) = 0"
      by (rule event_stage [OF H(1) refl ev]) auto
    have "response_at (set (events z)) (router z i) (t_peq z i) e"
      using same_entries(1) [OF due_okD(1) [OF timed_okD(4) [OF H(2) i(1)]]] i(2,3) that by (auto simp: response_at_def)
    then show ?thesis using lat_okD(3,4) [OF latency_okD(2) [OF lat i(1)] i(2)] by blast
  qed
  ultimately show ?thesis unfolding latest by blast
qed

section \<open>Progress\<close>

definition due_times :: "u32 \<Rightarrow> timed \<Rightarrow> tick set" where
  "due_times n z = fst ` set (w_events (y_port (t_sys z)))
     \<union> (\<Union>k \<in> {k. k < n}. fst ` set (t_peq z k) \<union> set_option (t_done z k))"

lemma quiet_until_iff: "quiet_until n z c \<longleftrightarrow> (\<forall>x \<in> due_times n z. c \<le> x)"
  by (auto simp: quiet_until_def due_times_def)

lemma peq_due_ok:
  assumes "cosim_inv tm n H (t_sys z)" "timed_ok n z" and "k < n" and "e \<in> set (t_peq z k)"
  shows "\<exists>z'. timed_peq C k e z = Inr z'"
proof -
  have "snd e \<in> set (y_peq (t_sys z) k)" using due_okD(2) [OF timed_okD(4) [OF assms(2,3)]] assms(4) by simp
  from peq_step_ok [OF assms(1,3) this, of C] show ?thesis
    by (auto simp: sys_peq_def timed_peq_def res_simps Let_def)
qed

lemma done_due_ok:
  assumes "cosim_inv tm n H (t_sys z)" "timed_ok n z" and "k < n" and "t_done z k = Some c" and "memory_ok (cl_memory C)"
  shows "\<exists>z'. timed_execute C k z = Inr z'"
proof -
  have "target_done (router z k)" using due_okD(5) [OF timed_okD(4) [OF assms(2,3)]] assms(4) by simp
  from execute_ok [OF assms(1,3) this assms(5)] show ?thesis
    by (auto simp: sys_execute_def timed_execute_def res_simps Let_def)
qed

text \<open>
  C7: time never stops. In every state that the timed system reaches with something due, there is a
  next due time; nothing is due before it, so time may move on to it; and what is due now can happen:
  no assertion or fatal report is in the way.
\<close>

theorem timed_goes_on:
  assumes "timed_reachable C tm n eager z" and "tlm_lib_ok (cl_tlm C)" "memory_ok (cl_memory C)"
    and some: "due_times n z \<noteq> {}"
  shows "\<exists>c \<in> due_times n z. now z \<le> c \<and> quiet_until n z c \<and> (c = now z \<longrightarrow> (\<exists>z'. timed_step C n eager Internal z z'))"
proof -
  obtain H where H: "cosim_inv tm n H (t_sys z)" "timed_ok n z" by (rule timed_reachable_ok [OF assms(1-3)])
  have fin: "finite (due_times n z)" by (rule finite_subset [OF subset_UNIV]) simp
  define c where "c = Min (due_times n z)"
  have c: "c \<in> due_times n z" "quiet_until n z c"
    using Min_in [OF fin some] Min_le [OF fin] by (simp_all add: c_def quiet_until_iff)
  have "now z \<le> c"
    using c(1) timed_okD(2) [OF H(2)] due_okD(3,6) [OF timed_okD(4) [OF H(2)]] by (fastforce simp: due_times_def)
  moreover have "\<exists>z'. timed_step C n eager Internal z z'" if now: "c = now z"
  proof -
    from c(1) consider (event) j where "j < length (events z)" "fst (events z ! j) = c"
      | (peq) k e where "k < n" "e \<in> set (t_peq z k)" "fst e = c" | (latency) k where "k < n" "t_done z k = Some c"
      by (auto simp: due_times_def in_set_conv_nth image_iff)
    then show ?thesis
    proof cases
      case event
      obtain y' where "sys_event C True j (t_sys z) = Inr y'"
        using event_step_ok [OF H(1) assms(2) due_next_event [OF H event(1)], of True] by blast
      then have "timed_event C True j z = Inr (timed_port z y')" by (simp add: timed_event_def)
      with event now show ?thesis by (auto intro: timed_step.Event_due)
    next
      case peq
      obtain z' where "timed_peq C k e z = Inr z'" using peq_due_ok [OF H peq(1,2)] by blast
      with peq now show ?thesis by (auto intro: timed_step.Peq_due)
    next
      case latency
      obtain z' where "timed_execute C k z = Inr z'" using done_due_ok [OF H latency assms(3)] by blast
      with latency now show ?thesis by (auto intro: timed_step.Done_due)
    qed
  qed
  ultimately show ?thesis using c by blast
qed

section \<open>A request from start to response\<close>

definition demo_timed :: timed where
  "demo_timed = \<lparr>t_sys = demo_cosim, t_peq = (\<lambda>k. []), t_done = (\<lambda>k. None), t_sent = (\<lambda>t. (0, 0))\<rparr>"

definition due_list :: "timed \<Rightarrow> tick list" where
  "due_list z = map fst (w_events (y_port (t_sys z)))
     @ concat (map (\<lambda>k. map fst (t_peq z k) @ (case t_done z k of None \<Rightarrow> [] | Some d \<Rightarrow> [d])) [0, 1])"

lemma quiet_two: "quiet_until 2 z c \<longleftrightarrow> list_all (\<lambda>x. c \<le> x) (due_list z)"
proof -
  have "(k :: u32) < 2 \<longleftrightarrow> k = 0 \<or> k = 1" for k by unat_arith
  then show ?thesis by (auto simp: quiet_until_def due_list_def list_all_iff split: option.splits)
qed

text \<open>The request is sent at 0 with the delay 3, arrives, is ended at 10003, and served at 25003.\<close>

definition wait_until :: "tick \<Rightarrow> timed \<Rightarrow> timed res" where
  "wait_until c z = (if now z \<le> c \<and> list_all (\<lambda>x. c \<le> x) (due_list z) then Inr (timed_advance c z) else Inl Assert_failed)"

definition demo_timed_run :: "timed res" where
  "demo_timed_run =
     bindr (timed_request demo_lib 0 demo_timed) (\<lambda>(_, z).
     bindr (wait_until 3 z) (\<lambda>z.
     if t_peq z 1 = [(3, 0, BEGIN_REQ)] then
     bindr (timed_peq demo_lib 1 (3, 0, BEGIN_REQ) z) (\<lambda>z.
     bindr (wait_until 10003 z) (\<lambda>z.
     if map fst (w_events (y_port (t_sys z))) = [10003] then
     bindr (timed_event demo_lib True 0 z) (\<lambda>z.
     bindr (wait_until 25003 z) (\<lambda>z.
     if t_done z 1 = Some 25003 then timed_execute demo_lib 1 z else Inl Assert_failed)) else Inl Assert_failed)) else Inl Assert_failed))"

lemma demo_timed_runs:
  "case demo_timed_run of Inl _ \<Rightarrow> False
   | Inr z \<Rightarrow> w_events (y_port (t_sys z)) = [(35003, 0, BEGIN_RESP)] \<and> t_sent z 0 = (0, 3)"
  by code_simp

lemma timed_reachable_step:
  "timed_reachable C tm n eager z \<Longrightarrow> timed_step C n eager mv z z' \<Longrightarrow> timed_reachable C tm n eager z'"
  unfolding timed_reachable_def by (blast intro: rtranclp.rtrancl_into_rtrancl)

lemma wait_until_reachable:
  assumes "timed_reachable C tm 2 eager z" and "wait_until c z = Inr z'" and "unat c + 25000 < 2 ^ 64"
  shows "timed_reachable C tm 2 eager z'"
proof -
  have "timed_step C 2 eager External z z'"
    using assms(2,3) timed_step.Advance [of z c 2 C eager]
    by (simp add: wait_until_def quiet_two split: if_splits)
  then show ?thesis by (rule timed_reachable_step [OF assms(1)])
qed

lemma demo_timed_starts: "timed_start demo_tm 2 demo_timed"
proof -
  have "now demo_timed = 0" by (simp add: demo_timed_def demo_cosim_def demo_idle_def demo_start_def)
  moreover have "\<forall>ty k. blocking (helper demo_idle) ty k = None"
    by (auto simp: demo_idle_def demo_blocking split: pktType.split)
  moreover have "w_events demo_idle = []" "w_curTick demo_idle = w_now demo_idle"
    by (simp_all add: demo_idle_def demo_start_def)
  ultimately show ?thesis
    using demo_idle_ok demo_bound_to(1) by (auto simp: timed_start_def cosim_start_def demo_timed_def demo_cosim_def)
qed

lemma demo_timed_start: "timed_reachable demo_lib demo_tm 2 eager demo_timed"
  using demo_timed_starts by (auto simp: timed_reachable_def)

lemma demo_timed_reachable:
  assumes "demo_timed_run = Inr z"
  shows "timed_reachable demo_lib demo_tm 2 True z"
proof -
  obtain a z1 z1' z2 z2' z3 z3' where run: "timed_request demo_lib 0 demo_timed = Inr (a, z1)"
      "wait_until 3 z1 = Inr z1'" "t_peq z1' 1 = [(3, 0, BEGIN_REQ)]"
      "timed_peq demo_lib 1 (3, 0, BEGIN_REQ) z1' = Inr z2" "wait_until 10003 z2 = Inr z2'" "map fst (events z2') = [10003]"
      "timed_event demo_lib True 0 z2' = Inr z3" "wait_until 25003 z3 = Inr z3'" "t_done z3' 1 = Some 25003"
      "timed_execute demo_lib 1 z3' = Inr z"
    using assms by (auto simp: demo_timed_run_def res_simps split: if_splits)
  have now: "now z1' = 3" "now z2' = 10003" "now z3' = 25003"
    using run(2,5,8) by (auto simp: wait_until_def timed_advance_def split: if_splits)
  have one: "(1 :: u32) < 2" by simp
  have "timed_step demo_lib 2 True External demo_timed z1"
    using demo_cosim_request run(1)
    by (intro timed_step.Send) (simp_all add: demo_timed_def demo_cosim_def demo_idle_def demo_start_def demo_packet_def)
  note r1 = wait_until_reachable [OF timed_reachable_step [OF demo_timed_start this] run(2), simplified]
  have "timed_step demo_lib 2 True Internal z1' z2" using run(3,4) now(1) one by (intro timed_step.Peq_due) simp_all
  note r2 = wait_until_reachable [OF timed_reachable_step [OF r1 this] run(5), simplified]
  have "0 < length (events z2')" "fst (events z2' ! 0) = 10003" using run(6) by (auto simp: map_eq_Cons_conv)
  then have "timed_step demo_lib 2 True Internal z2' z3" using run(7) now(2) by (intro timed_step.Event_due) simp_all
  note r3 = wait_until_reachable [OF timed_reachable_step [OF r2 this] run(8), simplified]
  have "timed_step demo_lib 2 True Internal z3' z" using run(9,10) now(3) one by (intro timed_step.Done_due) simp_all
  then show ?thesis by (rule timed_reachable_step [OF r3])
qed

lemma demo_timed_outcome:
  obtains z where "demo_timed_run = Inr z" "timed_reachable demo_lib demo_tm 2 True z"
    "w_events (y_port (t_sys z)) = [(35003, 0, BEGIN_RESP)]" "t_sent z 0 = (0, 3)"
proof (cases demo_timed_run)
  case (Inl e)
  show thesis using demo_timed_runs unfolding Inl by simp
next
  case (Inr z)
  show thesis using demo_timed_runs unfolding Inr by (intro that [OF Inr demo_timed_reachable [OF Inr]]) simp_all
qed

theorem timed_refines_witness:
  "\<exists>z. demo_timed_run = Inr z \<and> reachable demo_lib demo_tm 2 (t_sys z) \<and> next_event 0 (y_port (t_sys z))"
proof -
  obtain z where z: "demo_timed_run = Inr z" "timed_reachable demo_lib demo_tm 2 True z"
      "w_events (y_port (t_sys z)) = [(35003, 0, BEGIN_RESP)]" by (rule demo_timed_outcome)
  from timed_refines [OF z(2) demo_lib_ok, of undefined undefined 0] z(1,3) show ?thesis by auto
qed

theorem response_in_time_witness:
  "\<exists>z. demo_timed_run = Inr z \<and> in_use 2 (t_sys z) 0 \<and> unat (now z) \<le> 60000
     \<and> (35003, 0, BEGIN_RESP) \<in> set (w_events (y_port (t_sys z)))"
proof -
  obtain z where z: "demo_timed_run = Inr z" "timed_reachable demo_lib demo_tm 2 True z"
      "w_events (y_port (t_sys z)) = [(35003, 0, BEGIN_RESP)]" "t_sent z 0 = (0, 3)" by (rule demo_timed_outcome)
  have "in_use 2 (t_sys z) 0" using z(3) by (simp add: in_use_def)
  with response_in_time [OF z(2) demo_lib_ok z(4), of 35003] z(1,3) show ?thesis by auto
qed

theorem timed_goes_on_witness:
  "\<exists>z c. demo_timed_run = Inr z \<and> c \<in> due_times 2 z \<and> now z \<le> c \<and> quiet_until 2 z c"
proof -
  obtain z where z: "demo_timed_run = Inr z" "timed_reachable demo_lib demo_tm 2 True z"
      "w_events (y_port (t_sys z)) = [(35003, 0, BEGIN_RESP)]" by (rule demo_timed_outcome)
  have "due_times 2 z \<noteq> {}" using z(3) by (simp add: due_times_def)
  from timed_goes_on [OF z(2) demo_lib_ok this] z(1) show ?thesis by auto
qed

end
