(* ===== verification/Co_Simulation_Reentrant.thy ===== *)
theory Co_Simulation_Reentrant
  imports Co_Timed
begin

text \<open>
  gem5 may also send a request before \<open>sendTimingResp\<close> returns: a response that reaches a cache or a core
  often lets the next request go at once. In the composed system the nested request touches nothing that the
  response still needs, so it has the effect of a request before the event, up to the place of its calls in
  the log. When the nested request ends the simulation, so does the response.
\<close>

section \<open>The nested request\<close>

definition sys_event_asking :: "cosim_lib \<Rightarrow> bool \<Rightarrow> ptr \<Rightarrow> nat \<Rightarrow> cosim \<Rightarrow> cosim res" where
  "sys_event_asking C accept packet j y =
     (case w_events (y_port y) ! j of (_, t, ph) \<Rightarrow>
        bindr (pec (asking_env (port_env C accept) packet) t ph
            ((y_port y)\<lparr>w_events := take j (w_events (y_port y)) @ drop (Suc j) (w_events (y_port y))\<rparr>)) (port_done y))"

text \<open>What the requests of the composed system neither read nor write.\<close>

definition elsewhere :: "ptr \<Rightarrow> packet \<Rightarrow> (tick \<times> ptr \<times> tlm_phase) list \<Rightarrow> call list \<Rightarrow> world \<Rightarrow> world" where
  "elsewhere i p es l w = w\<lparr>w_pkt := (w_pkt w)(i := p), w_events := es, w_log := l\<rparr>"

lemma elsewhere_same [simp]:
  "w_port (elsewhere i p es l w) = w_port w" "w_pool (elsewhere i p es l w) = w_pool w" "gp (elsewhere i p es l w) = gp w"
  "w_curTick (elsewhere i p es l w) = w_curTick w" "w_now (elsewhere i p es l w) = w_now w"
  "w_log (elsewhere i p es l w) = l" "w_events (elsewhere i p es l w) = es" "w_pkt (elsewhere i p es l w) = (w_pkt w)(i := p)"
  by (simp_all add: elsewhere_def gp_def)

lemma elsewhere_frame:
  "set_helper h (elsewhere i p es l w) = elsewhere i p es l (set_helper h w)"
  "note_call c (elsewhere i p es l w) = elsewhere i p es (l @ [c]) (note_call c w)"
  "set_gp t q (elsewhere i p es l w) = elsewhere i p es l (set_gp t q w)"
  "(elsewhere i p es l w)\<lparr>w_pool := pool\<rparr> = elsewhere i p es l (w\<lparr>w_pool := pool\<rparr>)"
  "j \<noteq> i \<Longrightarrow> set_pkt j r (elsewhere i p es l w) = elsewhere i p es l (set_pkt j r w)"
  by (simp_all add: elsewhere_def set_helper_def upd_port_def note_call_def set_gp_def set_pkt_def fun_upd_twist)

lemma prepare_elsewhere:
  assumes "prepare_transaction E packet k w = Inr (t, w1)" and "packet \<noteq> i"
  shows "prepare_transaction E packet k (elsewhere i p es l w) = Inr (t, elsewhere i p es (l @ [Acquire t]) w1)"
    and "w_log w1 = w_log w @ [Acquire t]" "w_events w1 = w_events w" "w_pkt w1 = w_pkt w"
  using assms
  by (auto simp: prepare_transaction_def acquire_def elsewhere_frame frame_simps res_simps gp_def split: prod.splits)

lemma fw_call:
  "call_nb_transport_fw (port_env C a) s t ph d w = ((TLM_ACCEPTED, ph, d), note_call (Nb_transport_fw s t ph d) w)"
  by (simp add: port_env_def port_answers_def calm_calls)

lemma release_call:
  "release (port_env C a) t w = (note_call (Release t) w)\<lparr>w_pool := mm_free (cl_tlm C) t (w_pool w)\<rparr>"
  by (simp add: release_def port_env_def passive_env_def note_call_def)

lemma accepted_elsewhere:
  "after_begin_req (port_env C a) t k (TLM_ACCEPTED, BEGIN_REQ, d) (elsewhere i p es l w) =
     bindr (after_begin_req (port_env C a) t k (TLM_ACCEPTED, BEGIN_REQ, d) w) (\<lambda>(b, w'). Inr (b, elsewhere i p es l w'))"
  by (simp add: after_begin_req_def elsewhere_frame bindr_assoc) (simp add: elsewhere_def upd_port_def)

lemma accepted_frame:
  "after_begin_req (port_env C a) t k (TLM_ACCEPTED, BEGIN_REQ, d) w = Inr (b, w') \<Longrightarrow>
     w_log w' = w_log w \<and> w_events w' = w_events w \<and> w_pkt w' = w_pkt w \<and> gp w' = gp w"
  by (auto simp: after_begin_req_def frame_simps res_simps gp_def split: if_splits)

lemma request_elsewhere:
  assumes lib: "tlm_lib_ok (cl_tlm C)" and ok: "port_ok n H w" and adm: "admissible (port_env C a) packet w" and other: "packet \<noteq> i"
    and k: "k = target_socket_id (w_pkt w packet) (w_port w)" "k < n"
    and r: "recvTimingReq (port_env C a) packet w = Inr (accepted, w1)"
  obtains cs where "w_log w1 = w_log w @ cs" "w_events w1 = w_events w" "w_pkt w1 i = w_pkt w i"
    "recvTimingReq (port_env C a) packet (elsewhere i p es l w) = Inr (accepted, elsewhere i p es (l @ cs) w1)"
    "cs = [] \<or> (\<exists>s t d. H t = None \<and> cs = [Acquire t, Nb_transport_fw s t BEGIN_REQ d])" "\<And>u. H u \<noteq> None \<Longrightarrow> gp w1 u = gp w u"
proof -
  let ?E = "port_env C a" and ?w = "elsewhere i p es l w"
  have "port_ok n H ?w" using ok port_ok_cong [of ?w w] by simp
  moreover have "admissible ?E packet ?w" using adm other by (simp add: admissible_def)
  ultimately have there: "recvTimingReq ?E packet ?w =
    (if blocking (helper w) Request k \<noteq> None
     then bindr (updateRetryMap k True (helper w)) (\<lambda>h. Inr (False, set_helper h ?w))
     else bindr (prepare_transaction ?E packet k ?w) (\<lambda>(txn, w).
       case take_delay packet w of (delay, w) \<Rightarrow>
         bindr (select_socket k (w_port w)) (\<lambda>s.
           case call_nb_transport_fw ?E s txn BEGIN_REQ delay w of (answer, w) \<Rightarrow>
             after_begin_req ?E txn k answer w)))"
    using port_ok_recvTimingReq [of n H ?w ?E packet k] k other by simp
  note here = port_ok_recvTimingReq [OF ok adm k]
  show thesis
  proof (cases "blocking (helper w) Request k = None")
    case False
    then show ?thesis
      using r there here by (intro that [of "[]"]) (auto simp: res_simps frame_simps elsewhere_frame gp_def)
  next
    case True
    obtain t w2 s where p: "prepare_transaction ?E packet k w = Inr (t, w2)"
      and s: "select_socket k (w_port w2) = Inr s"
      and c: "after_begin_req ?E t k (TLM_ACCEPTED, BEGIN_REQ, fst (take_delay packet w2))
          (note_call (Nb_transport_fw s t BEGIN_REQ (fst (take_delay packet w2))) (snd (take_delay packet w2))) = Inr (accepted, w1)"
      using r [unfolded here] True by (auto simp: res_simps fw_call frame_simps take_delay_def)
    note pe1 = prepare_elsewhere(1) [OF p other, of p es l] and pe = prepare_elsewhere(2-4) [OF p other]
    have "recvTimingReq ?E packet ?w = Inr (accepted,
        elsewhere i p es (l @ [Acquire t, Nb_transport_fw s t BEGIN_REQ (fst (take_delay packet w2))]) w1)"
      using there True pe1 s c other
      by (simp add: take_delay_def fw_call elsewhere_frame frame_simps accepted_elsewhere)
    moreover have Ht: "H t = None" using prepare_transaction_ok(1) [OF _ ok p] lib by (simp add: port_env_calls)
    moreover have "gp w1 u = gp w u" if "H u \<noteq> None" for u
    proof -
      have "u \<noteq> t" using that Ht by auto
      then show ?thesis using prepare_transaction_others [OF p, of u] accepted_frame [OF c] by (simp add: take_delay_def frame_simps)
    qed
    ultimately show ?thesis
      using pe accepted_frame [OF c] other
      by (intro that [of "[Acquire t, Nb_transport_fw s t BEGIN_REQ (fst (take_delay packet w2))]"])
        (auto simp: take_delay_def frame_simps set_pkt_def)
  qed
qed

section \<open>The rest of the response\<close>

text \<open>
  What follows the offer, at a state that is the request's except for the response's packet, the event
  taken and the log: it adds the same calls \<open>ds\<close> to any log.
\<close>

lemma after_offer:
  assumes ok: "port_ok n H w" and tm: "bound_to tm n (w_port w)" and k: "k < n"
  obtains ds v where
    "\<And>p l. (if need_retry then hold_response t k (elsewhere i p es l w)
        else finish_transaction (port_env C a) t k (elsewhere i p es l w)) = Inr (elsewhere i p es (l @ ds) v)"
    "ds = [] \<or> ds = [Nb_transport_fw (Socket_of k) t END_RESP 0, Release t]" "\<forall>u. u \<noteq> t \<longrightarrow> gp v u = gp w u"
proof -
  note nc = port_ok_not_cache [OF ok]
  have "\<exists>ds v. (\<forall>p l. (if need_retry then hold_response t k (elsewhere i p es l w)
        else finish_transaction (port_env C a) t k (elsewhere i p es l w)) = Inr (elsewhere i p es (l @ ds) v))
    \<and> (ds = [] \<or> ds = [Nb_transport_fw (Socket_of k) t END_RESP 0, Release t]) \<and> (\<forall>u. u \<noteq> t \<longrightarrow> gp v u = gp w u)"
  proof (cases need_retry)
    case True
    obtain h where "updateBlockingMap k (Some t) Response (helper w) = Inr h"
      using helper_ok_put [OF nc(6) less_imp_le [OF k], of "Some t" Response] by blast
    then show ?thesis
      using True nc(1)
      by (intro exI [of _ "[]"] exI [of _ "set_helper h w"]) (simp add: hold_response_def elsewhere_frame frame_simps)
  next
    case False
    let ?v = "w\<lparr>w_pool := mm_free (cl_tlm C) t (w_pool w)\<rparr>"
    have "gp ?v u = gp w u" if "u \<noteq> t" for u using that by (cases "w_pool w") (simp add: gp_def mm_free_def)
    moreover have "finish_transaction (port_env C a) t k (elsewhere i p es l w)
        = Inr (elsewhere i p es (l @ [Nb_transport_fw (Socket_of k) t END_RESP 0, Release t]) ?v)" for p l
      using bound_select [OF tm k]
      by (simp add: finish_transaction_def fw_call release_call elsewhere_def note_call_def)
    ultimately show ?thesis
      using False by (intro exI [of _ "[Nb_transport_fw (Socket_of k) t END_RESP 0, Release t]"] exI [of _ ?v]) simp
  qed
  then show thesis using that by blast
qed

lemma asking_calls:
  "finish_transaction (asking_env (port_env C a) packet) = finish_transaction (port_env C a)"
  "respond_if_needed (asking_env (port_env C a) packet) = respond_if_needed (port_env C a)"
  "se_gem5 (asking_env E packet) = se_gem5 E"
  by (simp_all add: fun_eq_iff finish_transaction_def respond_if_needed_def call_nb_transport_fw_def release_def asking_env_def)

text \<open>The packet as the port offers it, and whether it does.\<close>

definition response_of :: "cosim_lib \<Rightarrow> packet \<Rightarrow> packet" where
  "response_of C q = (if g_needsResponse (cl_gem5 C) (pkt_cmd q) then g_makeResponse (cl_gem5 C) q else q)"

definition offered :: "cosim_lib \<Rightarrow> packet \<Rightarrow> bool" where
  "offered C q \<longleftrightarrow> g_isResponse (cl_gem5 C) (pkt_cmd (response_of C q))"

lemma offer_elsewhere:
  assumes "w_log w = l"
  shows "offer_response (port_env C a) i (w\<lparr>w_events := es\<rparr>) =
      (if offered C (w_pkt w i) then Inr (\<not> a, elsewhere i (response_of C (w_pkt w i)) es (l @ [Send_timing_resp i]) w)
       else Inr (False, elsewhere i (response_of C (w_pkt w i)) es l w))"
    and "recvTimingReq (port_env C a) packet (elsewhere i (response_of C (w_pkt w i)) es (l @ [Send_timing_resp i]) w) = Inr (b, w2) \<Longrightarrow>
      offer_response (asking_env (port_env C a) packet) i (w\<lparr>w_events := es\<rparr>) =
      (if offered C (w_pkt w i) then Inr (\<not> a, w2) else Inr (False, elsewhere i (response_of C (w_pkt w i)) es l w))"
proof -
  let ?p = "response_of C (w_pkt w i)"
  have r: "respond_if_needed (port_env C a) i (w\<lparr>w_events := es\<rparr>) = elsewhere i ?p es l w"
    using assms by (auto simp: respond_if_needed_def port_env_calls response_of_def elsewhere_def set_pkt_def)
  have n: "note_call c (elsewhere i p es l w) = elsewhere i p es (l @ [c]) w" for c p
    by (simp add: elsewhere_def note_call_def)
  show "offer_response (port_env C a) i (w\<lparr>w_events := es\<rparr>) =
      (if offered C (w_pkt w i) then Inr (\<not> a, elsewhere i ?p es (l @ [Send_timing_resp i]) w) else Inr (False, elsewhere i ?p es l w))"
    by (simp add: offer_response_def r port_env_calls n sendTimingResp_def offered_def)
      (simp add: port_env_def passive_env_def port_answers_def)
  show "offer_response (asking_env (port_env C a) packet) i (w\<lparr>w_events := es\<rparr>) =
      (if offered C (w_pkt w i) then Inr (\<not> a, w2) else Inr (False, elsewhere i ?p es l w))"
    if "recvTimingReq (port_env C a) packet (elsewhere i ?p es (l @ [Send_timing_resp i]) w) = Inr (b, w2)"
    using that
    by (simp add: offer_response_def r asking_calls port_env_calls n sendTimingResp_def offered_def)
      (simp add: asking_env_def, simp add: port_env_def passive_env_def port_answers_def)
qed

section \<open>The request comes first\<close>

lemma event_taken:
  assumes inv: "cosim_inv tm n H y" and nx: "next_event j (y_port y)" "w_events (y_port y) ! j = (c, t, BEGIN_RESP)"
  obtains k where "k < n" "H t = Some k"
    "\<And>E es. pec E t BEGIN_RESP ((y_port y)\<lparr>w_events := es\<rparr>) =
      bindr (offer_response E (packet_of (gp (y_port y) t)) ((y_port y)\<lparr>w_events := es\<rparr>)) (\<lambda>(need_retry, v).
        if need_retry then hold_response t k v else finish_transaction E t k v)"
proof -
  note D = cosim_invD [OF inv refl]
  obtain k where k: "k < n" "H t = Some k" "blocking (helper (y_port y)) Response k = None"
    by (rule event_stage [OF inv refl next_event_ev(1) [OF nx refl]]) auto
  have "pec E t BEGIN_RESP ((y_port y)\<lparr>w_events := es\<rparr>) =
      bindr (offer_response E (packet_of (gp (y_port y) t)) ((y_port y)\<lparr>w_events := es\<rparr>)) (\<lambda>(need_retry, v).
        if need_retry then hold_response t k v else finish_transaction E t k v)" for E es
  proof -
    let ?w = "(y_port y)\<lparr>w_events := es\<rparr>"
    have "port_ok n H ?w" using D(1) port_ok_cong [of ?w "y_port y"] by simp
    from begin_resp_parts [OF this k(2) _ k(1), of E] show ?thesis using D(3) k(3) by (simp add: gp_def)
  qed
  with k show thesis by (intro that)
qed

lemma nested_response:
  assumes inv: "cosim_inv tm n H y" and lib: "tlm_lib_ok (cl_tlm C)"
    and nx: "next_event j (y_port y)" "w_events (y_port y) ! j = (c, t, BEGIN_RESP)"
    and req: "request_ok C n packet y" and i: "i = packet_of (gp (y_port y) t)" "packet \<noteq> i"
    and y1: "sys_request C packet y = Inr (b, y1)"
    and offer: "offered C (w_pkt (y_port y) i)"
  obtains cs ds v p where "w_log (y_port y1) = w_log (y_port y) @ cs" "w_events (y_port y1) = w_events (y_port y)"
    "pec (asking_env (port_env C accept) packet) t BEGIN_RESP ((y_port y)\<lparr>w_events := es\<rparr>)
      = Inr (elsewhere i p es (w_log (y_port y) @ Send_timing_resp i # cs @ ds) v)"
    "pec (port_env C accept) t BEGIN_RESP ((y_port y1)\<lparr>w_events := es\<rparr>)
      = Inr (elsewhere i p es (w_log (y_port y) @ cs @ Send_timing_resp i # ds) v)"
    "cs = [] \<or> (\<exists>s u d. H u = None \<and> cs = [Acquire u, Nb_transport_fw s u BEGIN_REQ d])"
    "ds = [] \<or> (\<exists>s. ds = [Nb_transport_fw s t END_RESP 0, Release t])"
    "\<forall>u. u \<noteq> t \<longrightarrow> gp v u = gp (y_port y1) u" "gp (y_port y1) t = gp (y_port y) t" "H t \<noteq> None"
proof -
  define w where "w = y_port y"
  note D = cosim_invD [OF inv w_def]
  obtain w1 where r: "recvTimingReq (port_env C accept) packet w = Inr (b, w1)" "port_done y w1 = Inr y1"
    using y1 request_env [of C accept packet w] by (auto simp: sys_request_def w_def [symmetric] res_simps)
  have w1: "y_port y1 = w1" by (rule port_done_effect(1) [OF r(2)])
  obtain b' y1' where "sys_request C packet y = Inr (b', y1')" "cosim_inv tm n H y1'"
    using request_ok_step [OF inv lib req] by blast
  with y1 have inv1: "cosim_inv tm n H y1" by simp
  note D1 = cosim_invD [OF inv1 w1 [symmetric]]
  define m where "m = target_socket_id (w_pkt w packet) (w_port w)"
  have m: "m < n" and adm: "admissible (port_env C accept) packet w"
    using req D(3) by (simp_all add: request_ok_def Let_def admissible_def w_def m_def port_env_calls)
  let ?p = "response_of C (w_pkt w i)"
  obtain cs where cs: "w_log w1 = w_log w @ cs" "w_events w1 = w_events w" "w_pkt w1 i = w_pkt w i"
    "recvTimingReq (port_env C accept) packet (elsewhere i ?p es (w_log w @ [Send_timing_resp i]) w)
      = Inr (b, elsewhere i ?p es ((w_log w @ [Send_timing_resp i]) @ cs) w1)"
    "cs = [] \<or> (\<exists>s u d. H u = None \<and> cs = [Acquire u, Nb_transport_fw s u BEGIN_REQ d])" "\<And>u. H u \<noteq> None \<Longrightarrow> gp w1 u = gp w u"
    by (rule request_elsewhere [OF lib D(1) adm i(2) m_def m r(1), where p = ?p and es = es and l = "w_log w @ [Send_timing_resp i]"])
      (rule that)
  obtain k where k: "k < n" "H t = Some k" "\<And>E es. pec E t BEGIN_RESP (w\<lparr>w_events := es\<rparr>) =
      bindr (offer_response E i (w\<lparr>w_events := es\<rparr>)) (\<lambda>(need_retry, v).
        if need_retry then hold_response t k v else finish_transaction E t k v)"
    by (rule event_taken [OF inv nx]) (simp add: w_def i(1))
  have g: "gp w1 t = gp w t" using cs(6) k(2) by simp
  have nx1: "next_event j (y_port y1)" "w_events (y_port y1) ! j = (c, t, BEGIN_RESP)"
    using nx cs(2) by (simp_all add: next_event_def w1 w_def)
  obtain k' where k': "H t = Some k'" "\<And>E es. pec E t BEGIN_RESP (w1\<lparr>w_events := es\<rparr>) =
      bindr (offer_response E i (w1\<lparr>w_events := es\<rparr>)) (\<lambda>(need_retry, v).
        if need_retry then hold_response t k' v else finish_transaction E t k' v)"
    by (rule event_taken [OF inv1 nx1]) (simp add: w1 g i(1) w_def)
  have "k' = k" using k(2) k'(1) by simp
  obtain ds v where ds: "\<And>p l. (if \<not> accept then hold_response t k (elsewhere i p es l w1)
        else finish_transaction (port_env C accept) t k (elsewhere i p es l w1)) = Inr (elsewhere i p es (l @ ds) v)"
      "ds = [] \<or> ds = [Nb_transport_fw (Socket_of k) t END_RESP 0, Release t]" "\<forall>u. u \<noteq> t \<longrightarrow> gp v u = gp w1 u"
    by (rule after_offer [OF D1(1,2) k(1), where need_retry = "\<not> accept" and t = t and i = i and es = es and C = C and a = accept])
      (rule that)
  note off = offer [folded w_def]
  have "pec (asking_env (port_env C accept) packet) t BEGIN_RESP (w\<lparr>w_events := es\<rparr>)
      = Inr (elsewhere i ?p es (w_log w @ Send_timing_resp i # cs @ ds) v)"
    using ds(1) [of ?p "w_log w @ Send_timing_resp i # cs"] offer_elsewhere(2) [OF refl cs(4)] off
    by (cases accept) (simp_all add: k(3) asking_calls)
  moreover have "pec (port_env C accept) t BEGIN_RESP (w1\<lparr>w_events := es\<rparr>)
      = Inr (elsewhere i ?p es (w_log w @ cs @ Send_timing_resp i # ds) v)"
    using ds(1) [of ?p "w_log w @ cs @ [Send_timing_resp i]"] offer_elsewhere(1) [of w1, OF refl] off cs(1,3)
    by (cases accept) (simp_all add: k'(2) \<open>k' = k\<close>)
  ultimately show thesis
    using cs(1,2,5) ds(2,3) g k(2) by (intro that) (auto simp: w1 w_def)
qed

text \<open>The routers see of a call only its phase and the address of its payload.\<close>

definition rebase :: "world \<Rightarrow> (ptr \<Rightarrow> int) \<Rightarrow> cosim \<Rightarrow> cosim" where
  "rebase w r z = z\<lparr>y_port := w, y_refs := r\<rparr>"

lemma to_routers_base: "to_routers g cs (rebase w r z) = bindr (to_routers g cs z) (\<lambda>z'. Inr (rebase w r z'))"
proof (induction g cs z rule: to_routers.induct)
  case (2 g k t ph d cs y)
  have "r_nb_transport_fw t ph d (router_world k (g ph) (rebase w r y)) = r_nb_transport_fw t ph d (router_world k (g ph) y)"
    "y_peq (rebase w r y) = y_peq y" "(rebase w r y)\<lparr>y_peq := q\<rparr> = rebase w r (y\<lparr>y_peq := q\<rparr>)" for q
    by (simp_all add: router_world_def rebase_def)
  then show ?case
    using 2 by (cases "r_nb_transport_fw t ph d (router_world k (g ph) y)") (auto simp: bindr_assoc)
qed simp_all

fun same_address :: "(tlm_phase \<Rightarrow> ptr \<Rightarrow> payload) \<Rightarrow> (tlm_phase \<Rightarrow> ptr \<Rightarrow> payload) \<Rightarrow> call \<Rightarrow> bool" where
  "same_address g g' (Nb_transport_fw s t ph d) = (gp_address (g ph t) = gp_address (g' ph t))"
| "same_address g g' _ = True"

lemma to_routers_heap: "list_all (same_address g g') cs \<Longrightarrow> to_routers g cs z = to_routers g' cs z"
proof (induction g cs z rule: to_routers.induct)
  case (2 g k t ph d cs y)
  then have "ToMem (g ph t) (y_router y k) = ToMem (g' ph t) (y_router y k)" by (simp add: ToMem_def)
  then show ?case using 2 by (auto simp: r_nb_transport_fw_def router_world_def r_note_def)
qed auto

lemma nested_done:
  assumes y1: "port_done y w1 = Inr y1" and y2: "port_done y1 w2 = Inr y2"
    and logs: "w_log w1 = w_log (y_port y) @ cs" "w_log w2 = w_log w1 @ Send_timing_resp i # ds"
      "w_log w = w_log (y_port y) @ Send_timing_resp i # cs @ ds"
    and heap: "list_all (same_address (\<lambda>ph. if ph = BEGIN_REQ then gp w else gp (y_port y)) (\<lambda>ph. if ph = BEGIN_REQ then gp w1 else gp (y_port y))) cs"
      "list_all (same_address (\<lambda>ph. if ph = BEGIN_REQ then gp w else gp (y_port y)) (\<lambda>ph. if ph = BEGIN_REQ then gp w2 else gp w1)) ds"
  shows "port_done y w = Inr (y2\<lparr>y_port := w\<rparr>)"
proof -
  let ?g = "\<lambda>w v ph. if ph = BEGIN_REQ then gp w else gp v"
  obtain z1 where z1: "to_routers (?g w1 (y_port y)) cs y = Inr z1"
      "y1 = rebase w1 (\<lambda>t. y_refs y t + port_refs cs t) z1"
    using y1 logs(1) by (auto simp: port_done_def Let_def rebase_def [symmetric] to_routers_base res_simps)
  have "y_port y1 = w1" "y1\<lparr>y_port := w2, y_refs := r\<rparr> = rebase w2 r z1" for r by (simp_all add: z1(2) rebase_def)
  then obtain z2 where z2: "to_routers (?g w2 w1) ds z1 = Inr z2"
      "y2 = rebase w2 (\<lambda>t. y_refs y1 t + port_refs (Send_timing_resp i # ds) t) z2"
    using y2 logs(2) by (auto simp: port_done_def Let_def to_routers_base res_simps)
  have "to_routers (?g w (y_port y)) cs y = Inr z1"
    using to_routers_heap [OF heap(1)] z1(1) by simp
  moreover have "to_routers (?g w (y_port y)) ds z1 = Inr z2"
    using to_routers_heap [OF heap(2)] z2(1) by simp
  moreover have "(\<lambda>t. y_refs y1 t + port_refs (Send_timing_resp i # ds) t)
      = (\<lambda>t. y_refs y t + port_refs (Send_timing_resp i # cs @ ds) t)"
    by (simp add: z1(2) rebase_def fun_eq_iff port_refs_def)
  ultimately have "port_done y w = Inr (rebase w (\<lambda>t. y_refs y1 t + port_refs (Send_timing_resp i # ds) t) z2)"
    using logs(3) by (simp add: port_done_def Let_def rebase_def [symmetric] to_routers_base to_routers_append)
  then show ?thesis by (simp add: z2(2) rebase_def)
qed

text \<open>A request inside the response has the effect of the request and then the event, but for the log's order.\<close>

lemma asking_outcome:
  assumes inv: "cosim_inv tm n H y" and lib: "tlm_lib_ok (cl_tlm C)"
    and nx: "next_event j (y_port y)" "w_events (y_port y) ! j = (c, t, BEGIN_RESP)"
    and req: "request_ok C n packet y" and other: "packet \<noteq> packet_of (gp (y_port y) t)"
    and offer: "offered C (w_pkt (y_port y) (packet_of (gp (y_port y) t)))"
  obtains b y1 y2 cs ds where "sys_request C packet y = Inr (b, y1)" "sys_event C accept j y1 = Inr y2"
    "w_log (y_port y1) = w_log (y_port y) @ cs" "w_log (y_port y2) = w_log (y_port y1) @ Send_timing_resp (packet_of (gp (y_port y) t)) # ds"
    "sys_event_asking C accept packet j y = Inr (y2\<lparr>y_port := (y_port y2)\<lparr>w_log :=
       w_log (y_port y) @ Send_timing_resp (packet_of (gp (y_port y) t)) # cs @ ds\<rparr>\<rparr>)" "cosim_inv tm n H y1" "next_event j (y_port y1)"
proof -
  let ?i = "packet_of (gp (y_port y) t)" and ?es = "take j (w_events (y_port y)) @ drop (Suc j) (w_events (y_port y))"
  obtain b y1 where y1: "sys_request C packet y = Inr (b, y1)" "cosim_inv tm n H y1"
    using request_ok_step [OF inv lib req] by blast
  obtain cs ds v p where r: "w_log (y_port y1) = w_log (y_port y) @ cs" "w_events (y_port y1) = w_events (y_port y)"
    "pec (asking_env (port_env C accept) packet) t BEGIN_RESP ((y_port y)\<lparr>w_events := ?es\<rparr>)
      = Inr (elsewhere ?i p ?es (w_log (y_port y) @ Send_timing_resp ?i # cs @ ds) v)"
    "pec (port_env C accept) t BEGIN_RESP ((y_port y1)\<lparr>w_events := ?es\<rparr>)
      = Inr (elsewhere ?i p ?es (w_log (y_port y) @ cs @ Send_timing_resp ?i # ds) v)"
    "cs = [] \<or> (\<exists>s u d. H u = None \<and> cs = [Acquire u, Nb_transport_fw s u BEGIN_REQ d])"
    "ds = [] \<or> (\<exists>s. ds = [Nb_transport_fw s t END_RESP 0, Release t])"
    "\<forall>u. u \<noteq> t \<longrightarrow> gp v u = gp (y_port y1) u" "gp (y_port y1) t = gp (y_port y) t" "H t \<noteq> None"
    by (rule nested_response [OF inv lib nx req refl other y1(1) offer, of accept ?es]) (rule that)
  let ?w2 = "elsewhere ?i p ?es (w_log (y_port y) @ cs @ Send_timing_resp ?i # ds) v"
  let ?w = "elsewhere ?i p ?es (w_log (y_port y) @ Send_timing_resp ?i # cs @ ds) v"
  have nx1: "next_event j (y_port y1)" "w_events (y_port y1) ! j = (c, t, BEGIN_RESP)"
    using nx r(2) by (simp_all add: next_event_def)
  obtain y2 where y2: "sys_event C accept j y1 = Inr y2" using event_step_ok [OF y1(2) lib nx1(1), of accept] by blast
  then have d2: "port_done y1 ?w2 = Inr y2" using r(2,4) nx1(2) by (simp add: sys_event_def)
  obtain w1 where d1: "port_done y w1 = Inr y1" using y1(1) by (auto simp: sys_request_def res_simps)
  have w1: "y_port y1 = w1" by (rule port_done_effect(1) [OF d1])
  have "port_done y ?w = Inr (y2\<lparr>y_port := ?w\<rparr>)"
  proof (rule nested_done [OF d1 d2])
    show "w_log w1 = w_log (y_port y) @ cs" "w_log ?w2 = w_log w1 @ Send_timing_resp ?i # ds" using r(1) w1 by simp_all
    show "w_log ?w = w_log (y_port y) @ Send_timing_resp ?i # cs @ ds" by simp
    have "gp v u = gp w1 u" if "H u = None" for u using r(7,9) w1 that by metis
    then show "list_all (same_address (\<lambda>ph. if ph = BEGIN_REQ then gp ?w else gp (y_port y))
        (\<lambda>ph. if ph = BEGIN_REQ then gp w1 else gp (y_port y))) cs" using r(5) by auto
    show "list_all (same_address (\<lambda>ph. if ph = BEGIN_REQ then gp ?w else gp (y_port y))
        (\<lambda>ph. if ph = BEGIN_REQ then gp ?w2 else gp w1)) ds" using r(6,8) w1 by auto
  qed
  moreover have "?w = (y_port y2)\<lparr>w_log := w_log ?w\<rparr>" using port_done_effect(1) [OF d2] by (simp add: elsewhere_def)
  ultimately have "sys_event_asking C accept packet j y = Inr (y2\<lparr>y_port := (y_port y2)\<lparr>w_log := w_log ?w\<rparr>\<rparr>)"
    using r(3) nx(2) by (simp add: sys_event_asking_def)
  moreover have "w_log (y_port y2) = w_log (y_port y1) @ Send_timing_resp ?i # ds"
    using port_done_effect(1) [OF d2] r(1) by simp
  ultimately show thesis using y1 y2 nx1(1) r(1) by (intro that) simp_all
qed

text \<open>A response that the port does not offer is the plain event.\<close>

lemma asking_not_offered:
  assumes inv: "cosim_inv tm n H y" and nx: "next_event j (y_port y)" "w_events (y_port y) ! j = (c, t, BEGIN_RESP)"
    and offer: "\<not> offered C (w_pkt (y_port y) (packet_of (gp (y_port y) t)))"
  shows "sys_event_asking C accept packet j y = sys_event C accept j y"
proof -
  let ?i = "packet_of (gp (y_port y) t)"
  obtain k where k: "\<And>E es. pec E t BEGIN_RESP ((y_port y)\<lparr>w_events := es\<rparr>) =
      bindr (offer_response E ?i ((y_port y)\<lparr>w_events := es\<rparr>)) (\<lambda>(need_retry, v).
        if need_retry then hold_response t k v else finish_transaction E t k v)"
    by (rule event_taken [OF inv nx]) (rule that)
  have "\<not> g_isResponse (cl_gem5 C) (pkt_cmd (response_of C (w_pkt (y_port y) ?i)))" using offer by (simp add: offered_def)
  then have "offer_response (asking_env (port_env C accept) packet) ?i ((y_port y)\<lparr>w_events := es\<rparr>)
      = offer_response (port_env C accept) ?i ((y_port y)\<lparr>w_events := es\<rparr>)" for es
    by (simp add: offer_response_def asking_calls port_env_calls Let_def)
      (auto simp: respond_if_needed_def port_env_calls response_of_def set_pkt_def split: if_splits)
  then show ?thesis using nx(2) by (simp add: sys_event_asking_def sys_event_def k asking_calls case_prod_unfold cong: if_cong)
qed

section \<open>The re-entrant system\<close>

text \<open>
  The steps of the composed system, and those in which gem5 sends a packet from inside \<open>sendRetryReq\<close> or
  \<open>sendTimingResp\<close>. The packet sent inside a response is not the response's own.
\<close>

inductive reent_step :: "cosim_lib \<Rightarrow> u32 \<Rightarrow> move \<Rightarrow> cosim \<Rightarrow> cosim \<Rightarrow> bool" for C n where
  Sequential: "cosim_step C n mv y y' \<Longrightarrow> reent_step C n mv y y'"
| In_retry: "next_event j (y_port y) \<Longrightarrow> sys_event C accept j y = Inr y1 \<Longrightarrow> request_ok C n packet y1 \<Longrightarrow>
    sys_event_resending C accept packet j y = Inr y' \<Longrightarrow> reent_step C n Internal y y'"
| In_response: "next_event j (y_port y) \<Longrightarrow> w_events (y_port y) ! j = (c, t, BEGIN_RESP) \<Longrightarrow> request_ok C n packet y \<Longrightarrow>
    packet \<noteq> packet_of (gp (y_port y) t) \<Longrightarrow> sys_event_asking C accept packet j y = Inr y' \<Longrightarrow> reent_step C n Internal y y'"

definition reent_reachable :: "cosim_lib \<Rightarrow> slave_transactor_multi \<Rightarrow> u32 \<Rightarrow> cosim \<Rightarrow> bool" where
  "reent_reachable C tm n y \<longleftrightarrow> (\<exists>y0. cosim_start tm n y0 \<and> (\<lambda>y y'. \<exists>mv. reent_step C n mv y y')\<^sup>*\<^sup>* y0 y)"

lemma log_ok: "cosim_inv tm n H y \<Longrightarrow> cosim_inv tm n H (y\<lparr>y_port := (y_port y)\<lparr>w_log := l\<rparr>\<rparr>)"
  by (simp add: cosim_inv_def Let_def live_on_def event_ok_def gp_def ev_cong [of "(y_port y)\<lparr>w_log := l\<rparr>" "y_port y"]
      port_ok_cong [of "(y_port y)\<lparr>w_log := l\<rparr>" "y_port y"])

lemma in_retry_ok:
  assumes inv: "cosim_inv tm n H y" and lib: "tlm_lib_ok (cl_tlm C)" and nx: "next_event j (y_port y)"
    and y1: "sys_event C accept j y = Inr y1" and req: "request_ok C n packet y1"
  shows "\<exists>H' y'. sys_event_resending C accept packet j y = Inr y' \<and> cosim_inv tm n H' y'"
proof -
  obtain H1 where inv1: "cosim_inv tm n H1 y1" using event_step_ok [OF inv lib nx, of accept] y1 by auto
  obtain a y2 where y2: "sys_request C packet y1 = Inr (a, y2)" "cosim_inv tm n H1 y2"
    using request_ok_step [OF inv1 lib req] by blast
  then show ?thesis using resending_outcome [OF inv lib nx y1] inv1 by (auto simp: returns_iff)
qed

lemma in_response_ok:
  assumes inv: "cosim_inv tm n H y" and lib: "tlm_lib_ok (cl_tlm C)"
    and nx: "next_event j (y_port y)" "w_events (y_port y) ! j = (c, t, BEGIN_RESP)"
    and req: "request_ok C n packet y" and other: "packet \<noteq> packet_of (gp (y_port y) t)"
  shows "\<exists>H' y'. sys_event_asking C accept packet j y = Inr y' \<and> cosim_inv tm n H' y'"
proof (cases "offered C (w_pkt (y_port y) (packet_of (gp (y_port y) t)))")
  case True
  obtain y1 y2 l where y: "sys_event C accept j y1 = Inr y2" "cosim_inv tm n H y1" "next_event j (y_port y1)"
      "sys_event_asking C accept packet j y = Inr (y2\<lparr>y_port := (y_port y2)\<lparr>w_log := l\<rparr>\<rparr>)"
    by (rule asking_outcome [OF inv lib nx req other True, of accept thesis]) (auto intro: that)
  obtain H' where "cosim_inv tm n H' y2" using event_step_ok [OF y(2) lib y(3), of accept] y(1) by auto
  with y(4) log_ok show ?thesis by blast
next
  case False
  then show ?thesis using asking_not_offered [OF inv nx] event_step_ok [OF inv lib nx(1), of accept] by metis
qed

lemma reent_reachable_inv:
  assumes "reent_reachable C tm n y" and lib: "tlm_lib_ok (cl_tlm C)" "memory_ok (cl_memory C)"
  obtains H where "cosim_inv tm n H y"
proof -
  obtain y0 where y0: "cosim_start tm n y0" "(\<lambda>y y'. \<exists>mv. reent_step C n mv y y')\<^sup>*\<^sup>* y0 y"
    using assms(1) by (auto simp: reent_reachable_def)
  from y0(2) have "\<exists>H. cosim_inv tm n H y"
  proof (induction rule: rtranclp_induct)
    case base
    then show ?case using cosim_start_inv [OF y0(1)] by blast
  next
    case (step y y')
    then obtain mv H where s: "reent_step C n mv y y'" and inv: "cosim_inv tm n H y" by blast
    from s show ?case
    proof (cases rule: reent_step.cases)
      case Sequential
      then show ?thesis using cosim_step_inv [OF _ inv lib] by blast
    next
      case (In_retry j accept y1 packet)
      then show ?thesis using in_retry_ok [OF inv lib(1) In_retry(2-4)] by auto
    next
      case (In_response j c t packet accept)
      then show ?thesis using in_response_ok [OF inv lib(1) In_response(2-5), of accept] by auto
    qed
  qed
  then show thesis using that by blast
qed

lemma reent_reachable_step: "reent_reachable C tm n y \<Longrightarrow> cosim_step C n mv y y' \<Longrightarrow> reent_reachable C tm n y'"
  unfolding reent_reachable_def by (blast intro: rtranclp.rtrancl_into_rtrancl reent_step.Sequential)

lemma reachable_reent:
  assumes "reachable C tm n y"
  shows "reent_reachable C tm n y"
proof -
  obtain y0 where y0: "cosim_start tm n y0" "(\<lambda>y y'. \<exists>mv. cosim_step C n mv y y')\<^sup>*\<^sup>* y0 y"
    using assms by (auto simp: reachable_def)
  from y0(2) show ?thesis
  proof (induction rule: rtranclp_induct)
    case base
    then show ?case using y0(1) by (auto simp: reent_reachable_def)
  next
    case (step y z)
    then show ?case by (blast intro: reent_reachable_step)
  qed
qed

text \<open>
  C11: a request that gem5 sends from inside \<open>sendTimingResp\<close> is harmless. In every state that the re-entrant
  system can reach, handling the start of a response while gem5 sends another packet from inside the
  call returns, and gives the state of the request followed by the event. Only the log differs, and only in
  where the calls of the request, \<open>cs\<close>, stand: inside, they follow the offer of the response; before,
  they precede it. When the packet is not offered as a response it is the event alone.
\<close>

theorem reentrant_request_is_sequential:
  assumes "reent_reachable C tm n y" and lib: "tlm_lib_ok (cl_tlm C)" "memory_ok (cl_memory C)"
    and nx: "next_event j (y_port y)" "w_events (y_port y) ! j = (c, t, BEGIN_RESP)"
    and req: "request_ok C n packet y" and other: "packet \<noteq> packet_of (gp (y_port y) t)"
  shows "if offered C (w_pkt (y_port y) (packet_of (gp (y_port y) t)))
    then \<exists>b y1 y2 cs ds. sys_request C packet y = Inr (b, y1) \<and> sys_event C accept j y1 = Inr y2
      \<and> w_log (y_port y1) = w_log (y_port y) @ cs
      \<and> w_log (y_port y2) = w_log (y_port y1) @ Send_timing_resp (packet_of (gp (y_port y) t)) # ds
      \<and> sys_event_asking C accept packet j y = Inr (y2\<lparr>y_port := (y_port y2)\<lparr>w_log :=
           w_log (y_port y) @ Send_timing_resp (packet_of (gp (y_port y) t)) # cs @ ds\<rparr>\<rparr>)
    else sys_event_asking C accept packet j y = sys_event C accept j y"
proof -
  obtain H where inv: "cosim_inv tm n H y" by (rule reent_reachable_inv [OF assms(1) lib])
  show ?thesis using asking_outcome [OF inv lib(1) nx req other] asking_not_offered [OF inv nx] by metis
qed


text \<open>
  C1: the re-entrant system can always be drained. From every state that it can reach, the steps of queues and
  routers with at most one retry of the held responses by gem5, which then takes them, lead to a
  state in which every channel of every socket is free, every router is idle, nothing is queued, and no
  transaction is referenced any more: no request is ever lost or stuck, and none is leaked.
\<close>

theorem reentrant_drains:
  assumes "reent_reachable C tm n y" and lib: "tlm_lib_ok (cl_tlm C)" "memory_ok (cl_memory C)"
  shows "\<exists>y1 y2 y3. (internal C n)\<^sup>*\<^sup>* y y1 \<and> sys_resp_retry C (Suc (unat n)) y1 = Inr y2
     \<and> (internal C n)\<^sup>*\<^sup>* y2 y3 \<and> all_idle n y3"
proof -
  obtain H where inv: "cosim_inv tm n H y" by (rule reent_reachable_inv [OF assms])
  show ?thesis by (rule drained [OF inv lib])
qed

section \<open>A run\<close>

text \<open>A request of packet \<open>0\<close>, up to the event that begins its response.\<close>

definition demo_asking :: "cosim res" where
  "demo_asking =
     bindr (sys_request demo_lib 0 demo_cosim) (\<lambda>(_, y).
     if y_peq y 1 = [] then Inl Assert_failed else
     bindr (sys_peq demo_lib 1 (hd (y_peq y 1)) y) (\<lambda>y.
     if \<not> next_event 0 (y_port y) then Inl Assert_failed else
     bindr (sys_event demo_lib True 0 y) (\<lambda>y.
     if \<not> target_done (y_router y 1) then Inl Assert_failed else sys_execute demo_lib 1 y)))"

lemma demo_asking_runs:
  "case demo_asking of Inl _ \<Rightarrow> False
   | Inr y \<Rightarrow> next_event 0 (y_port y) \<and> snd (w_events (y_port y) ! 0) = (0, BEGIN_RESP) \<and> request_ok demo_lib 2 1 y
      \<and> packet_of (gp (y_port y) 0) = 0 \<and> offered demo_lib (w_pkt (y_port y) 0)"
  by code_simp

lemma demo_asking_outcome:
  obtains y c where "demo_asking = Inr y" "reent_reachable demo_lib demo_tm 2 y" "next_event 0 (y_port y)"
    "w_events (y_port y) ! 0 = (c, 0, BEGIN_RESP)" "request_ok demo_lib 2 1 y" "(1 :: ptr) \<noteq> packet_of (gp (y_port y) 0)"
    "offered demo_lib (w_pkt (y_port y) (packet_of (gp (y_port y) 0)))"
proof -
  obtain y where y: "demo_asking = Inr y" "next_event 0 (y_port y)" "snd (w_events (y_port y) ! 0) = (0, BEGIN_RESP)"
      "request_ok demo_lib 2 1 y" "packet_of (gp (y_port y) 0) = 0" "offered demo_lib (w_pkt (y_port y) 0)"
    using demo_asking_runs by (auto split: sum.splits)
  obtain b y1 y2 y3 where r: "sys_request demo_lib 0 demo_cosim = Inr (b, y1)" "y_peq y1 1 \<noteq> []"
      "sys_peq demo_lib 1 (hd (y_peq y1 1)) y1 = Inr y2" "next_event 0 (y_port y2)" "sys_event demo_lib True 0 y2 = Inr y3"
      "target_done (y_router y3 1)" "sys_execute demo_lib 1 y3 = Inr y"
    using y(1) by (auto simp: demo_asking_def res_simps split: if_splits)
  have one: "(1 :: u32) < 2" by simp
  from reent_reachable_step [OF reachable_reent [OF demo_cosim_reachable] cosim_step.Request [OF demo_cosim_request r(1)]]
  have "reent_reachable demo_lib demo_tm 2 y1" .
  moreover have "cosim_step demo_lib 2 Internal y1 y2" using r(2,3) by (intro cosim_step.Peq [OF one]) simp_all
  ultimately have "reent_reachable demo_lib demo_tm 2 y2" by (rule reent_reachable_step)
  from reent_reachable_step [OF reent_reachable_step [OF this cosim_step.Event [OF r(4,5)]] cosim_step.Execute [OF one r(6,7)]]
  have reach: "reent_reachable demo_lib demo_tm 2 y" .
  obtain c where "w_events (y_port y) ! 0 = (c, 0, BEGIN_RESP)" using y(3) by (metis prod.collapse)
  then show thesis by (rule that [OF y(1) reach y(2) _ y(4)]) (simp_all add: y(5,6))
qed

theorem reentrant_request_is_sequential_witness:
  "\<exists>y b y1 y2 cs ds. demo_asking = Inr y \<and> sys_request demo_lib 1 y = Inr (b, y1) \<and> sys_event demo_lib True 0 y1 = Inr y2
     \<and> w_log (y_port y1) = w_log (y_port y) @ cs \<and> w_log (y_port y2) = w_log (y_port y1) @ Send_timing_resp 0 # ds
     \<and> sys_event_asking demo_lib True 1 0 y = Inr (y2\<lparr>y_port := (y_port y2)\<lparr>w_log :=
          w_log (y_port y) @ Send_timing_resp 0 # cs @ ds\<rparr>\<rparr>)"
proof -
  obtain y c where y: "demo_asking = Inr y" "reent_reachable demo_lib demo_tm 2 y" "next_event 0 (y_port y)"
    "w_events (y_port y) ! 0 = (c, 0, BEGIN_RESP)" "request_ok demo_lib 2 1 y" "(1 :: ptr) \<noteq> packet_of (gp (y_port y) 0)"
    "offered demo_lib (w_pkt (y_port y) (packet_of (gp (y_port y) 0)))"
    by (rule demo_asking_outcome)
  have zero: "packet_of (gp (y_port y) 0) = 0" using demo_asking_runs by (simp add: y(1))
  from reentrant_request_is_sequential [OF y(2) demo_lib_ok y(3-6), of True] y(7)
  show ?thesis by (simp only: if_True zero) (use y(1) in blast)
qed


theorem reentrant_drains_witness:
  "\<exists>y y1 y2 y3. demo_asking = Inr y \<and> (internal demo_lib 2)\<^sup>*\<^sup>* y y1
     \<and> sys_resp_retry demo_lib (Suc (unat (2 :: u32))) y1 = Inr y2 \<and> (internal demo_lib 2)\<^sup>*\<^sup>* y2 y3 \<and> all_idle 2 y3"
proof -
  obtain y where y: "demo_asking = Inr y" "reent_reachable demo_lib demo_tm 2 y" by (rule demo_asking_outcome)
  from reentrant_drains [OF y(2) demo_lib_ok] y(1) show ?thesis by blast
qed

end
