(* ===== verification/Simple_Bus.thy ===== *)
theory Simple_Bus
  imports Tlm_Gem5
begin

text \<open>
  \<open>SimpleBus\<close> and \<open>PortMapping\<close> of \<open>simple_bus.h\<close>: a bus that forwards blocking and debug transport to the
  target whose address range contains the transaction's address. \<open>ports\<close> is an array of pointers that
  the code using the bus fills in; an element it left unset is indeterminate.
\<close>

section \<open>State and operations\<close>

record port_mapping =
  pm_start :: u64
  pm_end :: u64

definition PortMapping :: "u64 \<Rightarrow> u64 \<Rightarrow> port_mapping res" where
  "PortMapping s e = (if \<not> e \<ge> s then Inl Assert_failed else Inr \<lparr>pm_start = s, pm_end = e\<rparr>)"

definition contains :: "u64 \<Rightarrow> port_mapping \<Rightarrow> bool" where
  "contains addr p \<longleftrightarrow> addr \<ge> pm_start p \<and> addr \<le> pm_end p"

definition global_to_local :: "u64 \<Rightarrow> port_mapping \<Rightarrow> u64" where
  "global_to_local addr p = addr - pm_start p"

datatype bcall = Bus_b_transport nat ptr tick | Bus_transport_dbg nat ptr

record simple_bus =
  ports :: "port_mapping ptr_field list"
  b_gp :: "ptr \<Rightarrow> payload"
  b_log :: "bcall list"

record bus_env =
  be_b_transport :: "nat \<Rightarrow> ptr \<Rightarrow> tick \<Rightarrow> simple_bus \<Rightarrow> tick \<times> simple_bus"
  be_transport_dbg :: "nat \<Rightarrow> ptr \<Rightarrow> simple_bus \<Rightarrow> u32 \<times> simple_bus"

text \<open>The loop of \<open>decode\<close> from index \<open>i\<close> on; \<open>None\<close> is the C++ value \<open>-1\<close>.\<close>

fun decode_from :: "u64 \<Rightarrow> nat \<Rightarrow> port_mapping ptr_field list \<Rightarrow> nat option res" where
  "decode_from addr i [] = Inr None"
| "decode_from addr i (Obj p # ps) = (if contains addr p then Inr (Some i) else decode_from addr (Suc i) ps)"
| "decode_from addr i (_ # ps) = Inl (Undefined_behaviour ''ports'')"

definition decode :: "u64 \<Rightarrow> simple_bus \<Rightarrow> nat option res" where
  "decode addr b = decode_from addr 0 (ports b)"

definition b_set_address_error :: "ptr \<Rightarrow> simple_bus \<Rightarrow> simple_bus" where
  "b_set_address_error t b =
     b\<lparr>b_gp := (b_gp b)(t := (b_gp b t)\<lparr>gp_response_status := TLM_ADDRESS_ERROR_RESPONSE\<rparr>)\<rparr>"

definition bus_transport :: "bus_env \<Rightarrow> ptr \<Rightarrow> tick \<Rightarrow> simple_bus \<Rightarrow> (tick \<times> simple_bus) res" where
  "bus_transport E t delay b =
     bindr (decode (gp_address (b_gp b t)) b) (\<lambda>target.
       case target of
         None \<Rightarrow> Inr (delay, b_set_address_error t b)
       | Some i \<Rightarrow> Inr (be_b_transport E i t delay (b\<lparr>b_log := b_log b @ [Bus_b_transport i t delay]\<rparr>)))"

definition bus_transport_dbg :: "bus_env \<Rightarrow> ptr \<Rightarrow> simple_bus \<Rightarrow> (u32 \<times> simple_bus) res" where
  "bus_transport_dbg E t b =
     bindr (decode (gp_address (b_gp b t)) b) (\<lambda>target.
       case target of
         None \<Rightarrow> Inr (0, b_set_address_error t b)
       | Some i \<Rightarrow> Inr (be_transport_dbg E i t (b\<lparr>b_log := b_log b @ [Bus_transport_dbg i t]\<rparr>)))"

section \<open>Properties\<close>

lemma decode_from_first:
  "decode_from addr i (map Obj ps) =
     Inr (let k = length (takeWhile (\<lambda>p. \<not> contains addr p) ps) in if k < length ps then Some (i + k) else None)"
  by (induction ps arbitrary: i) (simp_all add: Let_def)

text \<open>The target of an address over ranges that have all been set.\<close>

definition target_of :: "u64 \<Rightarrow> port_mapping list \<Rightarrow> nat option" where
  "target_of addr ps = (let k = length (takeWhile (\<lambda>p. \<not> contains addr p) ps) in if k < length ps then Some k else None)"

lemma decode_target: "ports b = map Obj ps \<Longrightarrow> decode addr b = Inr (target_of addr ps)"
  by (simp add: decode_def decode_from_first target_of_def Let_def)

lemma target_of_Some:
  assumes "target_of addr ps = Some i"
  shows "i < length ps" "contains addr (ps ! i)" "\<forall>j < i. \<not> contains addr (ps ! j)"
proof -
  have i: "i = length (takeWhile (\<lambda>p. \<not> contains addr p) ps)" and lt: "i < length ps"
    using assms by (auto simp: target_of_def Let_def split: if_splits)
  show "i < length ps" by (rule lt)
  show "contains addr (ps ! i)"
    using nth_length_takeWhile [of "\<lambda>p. \<not> contains addr p" ps] lt i by simp
  show "\<forall>j < i. \<not> contains addr (ps ! j)"
    using i by (metis nth_mem set_takeWhileD takeWhile_nth)
qed

lemma target_of_None: "target_of addr ps = None \<longleftrightarrow> (\<forall>p \<in> set ps. \<not> contains addr p)"
proof
  assume "target_of addr ps = None"
  then have "length (takeWhile (\<lambda>p. \<not> contains addr p) ps) = length ps"
    using length_takeWhile_le [of "\<lambda>p. \<not> contains addr p" ps]
    by (auto simp: target_of_def Let_def split: if_splits)
  then have "takeWhile (\<lambda>p. \<not> contains addr p) ps = ps"
    by (metis append_Nil2 append_eq_append_conv takeWhile_dropWhile_id)
  then show "\<forall>p \<in> set ps. \<not> contains addr p" by (metis takeWhile_eq_all_conv)
next
  assume "\<forall>p \<in> set ps. \<not> contains addr p"
  then have "takeWhile (\<lambda>p. \<not> contains addr p) ps = ps" by (simp add: takeWhile_eq_all_conv)
  then have "length (takeWhile (\<lambda>p. \<not> contains addr p) ps) = length ps" by (rule arg_cong)
  then show "target_of addr ps = None" unfolding target_of_def Let_def by simp
qed

text \<open>
  Once every range is set, the bus calls exactly one target, the first whose range contains the
  address, with the transaction unchanged (also its address); an address in no range makes no call
  and leaves the address error in the transaction. Debug transport is routed the same way. If no two
  ranges overlap, the target is the only one whose range contains the address.
\<close>

theorem bus_routes:
  assumes set_up: "ports b = map Obj ps" and addr: "addr = gp_address (b_gp b t)"
  shows "(\<forall>i. target_of addr ps = Some i \<longrightarrow>
       bus_transport E t d b = Inr (be_b_transport E i t d (b\<lparr>b_log := b_log b @ [Bus_b_transport i t d]\<rparr>))
     \<and> bus_transport_dbg E t b = Inr (be_transport_dbg E i t (b\<lparr>b_log := b_log b @ [Bus_transport_dbg i t]\<rparr>))
     \<and> i < length ps \<and> contains addr (ps ! i)
     \<and> ((\<forall>j k. j < k \<and> k < length ps \<longrightarrow> \<not> (contains addr (ps ! j) \<and> contains addr (ps ! k))) \<longrightarrow>
          (\<forall>j < length ps. contains addr (ps ! j) \<longrightarrow> j = i)))
    \<and> ((\<forall>p \<in> set ps. \<not> contains addr p) \<longrightarrow>
       bus_transport E t d b = Inr (d, b_set_address_error t b)
     \<and> bus_transport_dbg E t b = Inr (0, b_set_address_error t b)
     \<and> gp_response_status (b_gp (b_set_address_error t b) t) = TLM_ADDRESS_ERROR_RESPONSE)"
proof -
  have d: "decode (gp_address (b_gp b t)) b = Inr (target_of addr ps)"
    unfolding addr by (rule decode_target [OF set_up])
  have unique: "j = i" if "target_of addr ps = Some i" "j < length ps" "contains addr (ps ! j)"
      "\<forall>j k. j < k \<and> k < length ps \<longrightarrow> \<not> (contains addr (ps ! j) \<and> contains addr (ps ! k))" for i j
    using target_of_Some [OF that(1)] that(2-4) by (metis linorder_neqE_nat)
  show ?thesis
    using unique target_of_Some(1,2) target_of_None [of addr ps]
    by (auto simp: bus_transport_def bus_transport_dbg_def d b_set_address_error_def)
qed

definition demo_bus :: simple_bus where
  "demo_bus = \<lparr>ports = map Obj [\<lparr>pm_start = 0, pm_end = 255\<rparr>, \<lparr>pm_start = 4096, pm_end = 8191\<rparr>],
     b_gp = (\<lambda>t. (tl_new demo_tlm)\<lparr>gp_address := if t = 0 then 5000 else 300\<rparr>), b_log = []\<rparr>"

definition demo_bus_env :: bus_env where
  "demo_bus_env = \<lparr>be_b_transport = (\<lambda>i t d b. (d + 2, b)), be_transport_dbg = (\<lambda>i t b. (4, b))\<rparr>"

theorem bus_routes_witness:
  "(\<exists>b. bus_transport demo_bus_env 0 7 demo_bus = Inr (9, b) \<and> b_log b = [Bus_b_transport 1 0 7])
   \<and> bus_transport demo_bus_env 1 7 demo_bus = Inr (7, b_set_address_error 1 demo_bus)"
proof -
  let ?ps = "[\<lparr>pm_start = 0, pm_end = 255\<rparr>, \<lparr>pm_start = 4096, pm_end = 8191\<rparr>]"
  have p: "ports demo_bus = map Obj ?ps" by (simp add: demo_bus_def)
  have "target_of 5000 ?ps = Some 1" "\<forall>p \<in> set ?ps. \<not> contains 300 p"
    by (simp_all add: target_of_def contains_def)
  moreover have "gp_address (b_gp demo_bus 0) = 5000" "gp_address (b_gp demo_bus 1) = 300"
    by (simp_all add: demo_bus_def)
  ultimately have "bus_transport demo_bus_env 0 7 demo_bus
      = Inr (be_b_transport demo_bus_env 1 0 7 (demo_bus\<lparr>b_log := b_log demo_bus @ [Bus_b_transport 1 0 7]\<rparr>))"
    and "bus_transport demo_bus_env 1 7 demo_bus = Inr (7, b_set_address_error 1 demo_bus)"
    using bus_routes [OF p, of 5000 0 demo_bus_env 7] bus_routes [OF p, of 300 1 demo_bus_env 7] by metis+
  then show ?thesis by (simp add: demo_bus_env_def demo_bus_def)
qed

end
