(* ===== verification/Memory_Path.thy ===== *)
theory Memory_Path
  imports Co_Simulation_Steps Simple_Bus
begin

text \<open>
  Atomic and functional accesses of gem5 from the slave port to the storage: the port's socket leads to a
  \<open>TxnRouter\<close>, whose \<open>isock_mem\<close> leads to the memory and whose \<open>isock_bus\<close> to the \<open>SimpleBus\<close>, as
  \<open>bindTxnRouter2Transactor\<close> and \<open>bindTxnRouter2Bus\<close> connect them. These calls return their answer, so
  each of the three runs inside the one before it. The targets are not part of the library: what they
  do to a payload at the moment of the access is the parameter \<open>targets\<close>.
\<close>

section \<open>The path\<close>

record targets =
  tg_memory :: "u32 \<Rightarrow> payload \<Rightarrow> tick \<Rightarrow> tick \<times> payload"
  tg_device :: "nat \<Rightarrow> payload \<Rightarrow> tick \<Rightarrow> tick \<times> payload"
  tg_debug :: "nat \<Rightarrow> payload \<Rightarrow> u32 \<times> payload"

definition device_env :: "targets \<Rightarrow> bus_env" where
  "device_env T = \<lparr>
     be_b_transport = (\<lambda>i t d b. case tg_device T i (b_gp b t) d of (d', p) \<Rightarrow> (d', b\<lparr>b_gp := (b_gp b)(t := p)\<rparr>)),
     be_transport_dbg = (\<lambda>i t b. case tg_debug T i (b_gp b t) of (bytes, p) \<Rightarrow> (bytes, b\<lparr>b_gp := (b_gp b)(t := p)\<rparr>))\<rparr>"

definition bus_at :: "port_mapping ptr_field list \<Rightarrow> (ptr \<Rightarrow> payload) \<Rightarrow> simple_bus" where
  "bus_at P g = \<lparr>ports = P, b_gp = g, b_log = []\<rparr>"

lemma b_gp_bus_at [simp]: "b_gp (bus_at P g) = g"
  by (simp add: bus_at_def)

text \<open>The environment of the router of socket \<open>k\<close>. An access without delays makes no other call.\<close>

definition route_env :: "targets \<Rightarrow> port_mapping ptr_field list \<Rightarrow> u32 \<Rightarrow> router_env" where
  "route_env T P k = \<lparr>
     re_nb_transport_bw = (\<lambda>t ph d v. ((TLM_ACCEPTED, ph, d), v)),
     re_mem_b_transport = (\<lambda>t d v. case tg_memory T k (r_gp v t) d of (d', p) \<Rightarrow> (d', v\<lparr>r_gp := (r_gp v)(t := p)\<rparr>)),
     re_bus_b_transport = (\<lambda>t d v. bindr (bus_transport (device_env T) t d (bus_at P (r_gp v))) (\<lambda>(d', b).
        Inr (d', v\<lparr>r_gp := b_gp b\<rparr>))),
     re_bus_transport_dbg = (\<lambda>t v. bindr (bus_transport_dbg (device_env T) t (bus_at P (r_gp v))) (\<lambda>(bytes, b).
        Inr (bytes, v\<lparr>r_gp := b_gp b\<rparr>))),
     re_release = (\<lambda>t v. v)\<rparr>"

definition router_at :: "(u32 \<Rightarrow> txn_router) \<Rightarrow> u32 \<Rightarrow> world \<Rightarrow> rworld" where
  "router_at R k w = \<lparr>r_router = R k, r_gp = gp w, r_log = []\<rparr>"

definition path_env :: "tlm_lib \<Rightarrow> gem5_lib \<Rightarrow> answers \<Rightarrow> targets \<Rightarrow> port_mapping ptr_field list
    \<Rightarrow> (u32 \<Rightarrow> txn_router) \<Rightarrow> slave_env" where
  "path_env L G a T P R = (passive_env L G a)\<lparr>
     se_b_transport := (\<lambda>s t d w. case s of
        Single_socket \<Rightarrow> Inr (a_b_transport a s t d w, w)
      | Socket_of k \<Rightarrow> bindr (r_b_transport (route_env T P k) t d (router_at R k w)) (\<lambda>(d', v).
          Inr (d', set_heap (r_gp v) w))),
     se_transport_dbg := (\<lambda>s t w. case s of
        Single_socket \<Rightarrow> Inr (a_transport_dbg a s t w, w)
      | Socket_of k \<Rightarrow> bindr (r_transport_dbg (route_env T P k) t (router_at R k w)) (\<lambda>(bytes, v).
          Inr (bytes, set_heap (r_gp v) w)))\<rparr>"

section \<open>The address map\<close>

text \<open>
  What an access to a payload \<open>p\<close> gives: the memory of the router's region, else the device in whose range
  the address lies, else an address error. Debug accesses are only let through for the router's
  region, and always go to the bus.
\<close>

definition access :: "targets \<Rightarrow> port_mapping list \<Rightarrow> u32 \<Rightarrow> txn_router \<Rightarrow> payload \<Rightarrow> tick \<times> payload" where
  "access T ps k r p =
     (if ToMem p r then (case tg_memory T k p 0 of (d, q) \<Rightarrow> (d, q\<lparr>gp_response_status := TLM_OK_RESPONSE\<rparr>))
      else case target_of (gp_address p) ps of
             Some i \<Rightarrow> tg_device T i p 0
           | None \<Rightarrow> (0, p\<lparr>gp_response_status := TLM_ADDRESS_ERROR_RESPONSE\<rparr>))"

definition debug_access :: "targets \<Rightarrow> port_mapping list \<Rightarrow> payload \<Rightarrow> u32 \<times> payload" where
  "debug_access T ps p =
     (case target_of (gp_address p) ps of
        Some i \<Rightarrow> tg_debug T i p
      | None \<Rightarrow> (0, p\<lparr>gp_response_status := TLM_ADDRESS_ERROR_RESPONSE\<rparr>))"

text \<open>The path implements the address map.\<close>

lemma bus_at_access:
  "bus_transport (device_env T) t d (bus_at (map Obj ps) g) =
     Inr (case target_of (gp_address (g t)) ps of
            Some i \<Rightarrow> (case tg_device T i (g t) d of (d', p) \<Rightarrow> (d', \<lparr>ports = map Obj ps, b_gp = g(t := p), b_log = [Bus_b_transport i t d]\<rparr>))
          | None \<Rightarrow> (d, bus_at (map Obj ps) (g(t := (g t)\<lparr>gp_response_status := TLM_ADDRESS_ERROR_RESPONSE\<rparr>))))"
  "bus_transport_dbg (device_env T) t (bus_at (map Obj ps) g) =
     Inr (case target_of (gp_address (g t)) ps of
            Some i \<Rightarrow> (case tg_debug T i (g t) of (bytes, p) \<Rightarrow> (bytes, \<lparr>ports = map Obj ps, b_gp = g(t := p), b_log = [Bus_transport_dbg i t]\<rparr>))
          | None \<Rightarrow> (0, bus_at (map Obj ps) (g(t := (g t)\<lparr>gp_response_status := TLM_ADDRESS_ERROR_RESPONSE\<rparr>))))"
  using decode_target [of "bus_at (map Obj ps) g" ps]
  by (auto simp: bus_transport_def bus_transport_dbg_def bus_at_def device_env_def b_set_address_error_def
      split: option.splits prod.splits)

lemma router_access:
  assumes "access T ps k (R k) (gp w t) = (d, q)"
  shows "\<exists>v. r_b_transport (route_env T (map Obj ps) k) t 0 (router_at R k w) = Inr (d, v) \<and> r_gp v = (gp w)(t := q)"
  using assms
  by (auto simp: r_b_transport_def access_def router_at_def route_env_def bus_at_access r_note_def r_set_ok_def
      split: if_splits option.splits prod.splits)

lemma router_debug_access:
  assumes "debug_access T ps (gp w t) = (bytes, q)" and "ToMem (gp w t) (R k)"
  shows "\<exists>v. r_transport_dbg (route_env T (map Obj ps) k) t (router_at R k w) = Inr (bytes, v) \<and> r_gp v = (gp w)(t := q)"
  using assms
  by (auto simp: r_transport_dbg_def debug_access_def router_at_def route_env_def bus_at_access r_note_def
      split: option.splits prod.splits)

lemma path_calls:
  assumes "P = map Obj ps"
  shows "access T ps k (R k) (gp w t) = (d, q) \<Longrightarrow>
      call_b_transport (path_env L G a T P R) (Socket_of k) t 0 w
        = Inr (d, set_heap ((gp w)(t := q)) (note_call (B_transport (Socket_of k) t 0) w))"
    and "\<not> ToMem (gp w t) (R k) \<Longrightarrow> call_transport_dbg (path_env L G a T P R) (Socket_of k) t w
        = Inl (Sc_report_fatal ''TXN_ROUTER'' ''Address out of range. Please check'')"
    and "debug_access T ps (gp w t) = (bytes, q) \<Longrightarrow> ToMem (gp w t) (R k) \<Longrightarrow>
      call_transport_dbg (path_env L G a T P R) (Socket_of k) t w
        = Inr (bytes, set_heap ((gp w)(t := q)) (note_call (Transport_dbg (Socket_of k) t) w))"
    and "se_tlm (path_env L G a T P R) = L" "se_gem5 (path_env L G a T P R) = G"
    and "release (path_env L G a T P R) = release (passive_env L G a)"
    and "respond_if_needed (path_env L G a T P R) = respond_if_needed (passive_env L G a)"
proof -
  show "call_b_transport (path_env L G a T P R) (Socket_of k) t 0 w
      = Inr (d, set_heap ((gp w)(t := q)) (note_call (B_transport (Socket_of k) t 0) w))"
    if "access T ps k (R k) (gp w t) = (d, q)"
    using router_access [of T ps k R "note_call (B_transport (Socket_of k) t 0) w" t d q] that
    by (auto simp: call_b_transport_def path_env_def assms frame_simps)
  show "call_transport_dbg (path_env L G a T P R) (Socket_of k) t w
      = Inr (bytes, set_heap ((gp w)(t := q)) (note_call (Transport_dbg (Socket_of k) t) w))"
    if "debug_access T ps (gp w t) = (bytes, q)" "ToMem (gp w t) (R k)"
    using router_debug_access [of T ps "note_call (Transport_dbg (Socket_of k) t) w" t bytes q R k] that
    by (auto simp: call_transport_dbg_def path_env_def assms frame_simps)
  show "call_transport_dbg (path_env L G a T P R) (Socket_of k) t w
      = Inl (Sc_report_fatal ''TXN_ROUTER'' ''Address out of range. Please check'')" if "\<not> ToMem (gp w t) (R k)"
    using that by (simp add: call_transport_dbg_def path_env_def r_transport_dbg_def router_at_def frame_simps)
qed (simp_all add: fun_eq_iff path_env_def passive_env_def release_def respond_if_needed_def)

section \<open>Targets that keep the payload's bookkeeping\<close>

definition same_owner :: "payload \<Rightarrow> payload \<Rightarrow> bool" where
  "same_owner q p \<longleftrightarrow> gp_extension q = gp_extension p \<and> gp_has_mm q = gp_has_mm p"

definition targets_ok :: "targets \<Rightarrow> bool" where
  "targets_ok T \<longleftrightarrow> (\<forall>k p d. same_owner (snd (tg_memory T k p d)) p) \<and> (\<forall>i p d. same_owner (snd (tg_device T i p d)) p)
     \<and> (\<forall>i p. same_owner (snd (tg_debug T i p)) p)"

lemma targets_okD:
  assumes "targets_ok T"
  shows "tg_memory T k p d = (d', q) \<Longrightarrow> same_owner q p" "tg_device T i p d = (d', q) \<Longrightarrow> same_owner q p"
    "tg_debug T i p = (bytes, q) \<Longrightarrow> same_owner q p"
  using assms unfolding targets_ok_def by (metis snd_conv)+

lemma same_owner_status [simp]:
  "same_owner (q\<lparr>gp_response_status := s\<rparr>) p \<longleftrightarrow> same_owner q p" "same_owner p p"
  by (simp_all add: same_owner_def)

lemma access_same_owner:
  assumes "targets_ok T"
  shows "access T ps k r p = (d, q) \<Longrightarrow> same_owner q p" and "debug_access T ps p = (bytes, q) \<Longrightarrow> same_owner q p"
  by (auto simp: access_def debug_access_def split: if_splits option.splits prod.splits dest: targets_okD [OF assms])

lemma port_ok_accessed:
  assumes "port_ok n H w" and "same_owner q (gp w t)"
  shows "port_ok n H (set_heap ((gp w)(t := q)) w)"
  by (rule port_ok_set_heap [OF assms(1)]) (use assms(2) in \<open>auto simp: same_owner_def\<close>)

lemma env_rely_blocking:
  assumes "env_rely n E" and "\<And>H w s t d. port_ok n H w \<Longrightarrow> ensures (b s t d w) (\<lambda>(d', w'). port_ok n H w')"
    and "\<And>H w s t. port_ok n H w \<Longrightarrow> ensures (dbg s t w) (\<lambda>(bytes, w'). port_ok n H w')"
  shows "env_rely n (E\<lparr>se_b_transport := b, se_transport_dbg := dbg\<rparr>)"
  using assms by (auto simp: env_rely_def)

lemma routed_same_owner:
  assumes T: "targets_ok T"
  shows "ensures (r_b_transport (route_env T (map Obj ps) k) t d (router_at R k w))
      (\<lambda>(d', v). r_gp v = (gp w)(t := r_gp v t) \<and> same_owner (r_gp v t) (gp w t))"
    and "ensures (r_transport_dbg (route_env T (map Obj ps) k) t (router_at R k w))
      (\<lambda>(bytes, v). r_gp v = (gp w)(t := r_gp v t) \<and> same_owner (r_gp v t) (gp w t))"
  by (auto simp: r_b_transport_def r_transport_dbg_def router_at_def route_env_def bus_at_access r_note_def r_set_ok_def
      split: option.splits prod.splits dest: targets_okD [OF T])

lemma accessed_ensures:
  assumes "port_ok n H w" and "ensures r (\<lambda>(x, v). r_gp v = (gp w)(t := r_gp v t) \<and> same_owner (r_gp v t) (gp w t))"
  shows "ensures (bindr r (\<lambda>(x, v). Inr (x, set_heap (r_gp v) w))) (\<lambda>(x, w'). port_ok n H w')"
proof -
  have "port_ok n H (set_heap (r_gp v) w)" if "r = Inr (x, v)" for x v
    using assms(2) that port_ok_accessed [OF assms(1), of "r_gp v t" t] by (metis (mono_tags, lifting) case_prod_conv ensures_Inr)
  then show ?thesis by (auto simp: ensures_bindr_eq intro!: ensuresI)
qed

lemma path_env_rely:
  assumes lib: "tlm_lib_ok L" and T: "targets_ok T"
  shows "env_rely n (path_env L G a T (map Obj ps) R)"
  unfolding path_env_def
proof (rule env_rely_blocking [OF passive_env_rely [OF lib]], goal_cases)
  case (1 H w s t d)
  then show ?case using accessed_ensures [OF 1 routed_same_owner(1) [OF T]] by (cases s) simp_all
next
  case (2 H w s t)
  then show ?case using accessed_ensures [OF 2 routed_same_owner(2) [OF T]] by (cases s) simp_all
qed

section \<open>Properties\<close>

lemma set_heap_same [simp]:
  "w_port (set_heap g w) = w_port w" "w_log (set_heap g w) = w_log w" "w_pkt (set_heap g w) = w_pkt w"
  by (simp_all add: set_heap_def)

lemma responded:
  "w_pkt (respond_if_needed E packet w) = (w_pkt w)(packet := (if g_needsResponse (se_gem5 E) (pkt_cmd (w_pkt w packet))
     then g_makeResponse (se_gem5 E) (w_pkt w packet) else w_pkt w packet))"
  "w_log (respond_if_needed E packet w) = w_log w" "w_port (respond_if_needed E packet w) = w_port w"
  by (simp_all add: respond_if_needed_def set_pkt_def)

text \<open>
  C17: an atomic access reaches the target that the address map names. A packet that is no mere invalidation, on
  a bound port whose socket leads through a router to the memory and the bus, is turned into a
  transaction with its address, size, data and command. The memory of the router's region answers it,
  or the first device in whose range the address lies, or no target at all; the delay is that
  target's. Whatever the target's response status is, also when the bus found no target, gem5 gets
  the packet back as an ordinary response. The transaction has been given back.
\<close>

theorem atomic_access_routed:
  assumes lib: "tlm_lib_ok L" and T: "targets_ok T" and ok: "port_ok n H w"
    and adm: "admissible (path_env L G a T (map Obj ps) R) packet w" and cmd: "pkt_cmd (w_pkt w packet) \<noteq> SwapReq"
      "g_isRead G (pkt_cmd (w_pkt w packet)) \<or> \<not> g_isInvalidate G (pkt_cmd (w_pkt w packet))"
    and k: "k = getSocketId (pkt_requestorId (w_pkt w packet)) (w_port w)" "k < n" and tm: "bound_to tm n (w_port w)"
  shows "\<exists>t p w'. H t = None \<and> describes G packet (w_pkt w packet) k p
     \<and> recvAtomic (path_env L G a T (map Obj ps) R) packet w = Inr (fst (access T ps k (R k) p), w')
     \<and> (\<not> ToMem p (R k) \<and> target_of (pkt_addr (w_pkt w packet)) ps = None \<longrightarrow> fst (access T ps k (R k) p) = 0)
     \<and> w_log w' = w_log w @ [Acquire t, B_transport (Socket_of k) t 0, Release t]
     \<and> w_pkt w' = (w_pkt w)(packet := (if g_needsResponse G (pkt_cmd (w_pkt w packet))
         then g_makeResponse G (w_pkt w packet) else w_pkt w packet))
     \<and> w_port w' = w_port w \<and> port_ok n H w'"
proof -
  let ?E = "path_env L G a T (map Obj ps) R"
  have rw: "readOrWrite ?E (w_pkt w packet)" and lib': "tlm_lib_ok (se_tlm ?E)"
    using adm lib by (simp_all add: admissible_def path_calls [OF refl])
  obtain t w1 where p: "prepare_transaction ?E packet k w = Inr (t, w1)" "prepared G H packet k w t w1"
    by (rule prepare_transaction_total [OF lib' ok rw, of k, unfolded path_calls [OF refl]])
  obtain d q where dq: "access T ps k (R k) (gp w1 t) = (d, q)" by (cases "access T ps k (R k) (gp w1 t)")
  define w2 where "w2 = set_heap ((gp w1)(t := q)) (note_call (B_transport (Socket_of k) t 0) w1)"
  have call: "call_b_transport ?E (Socket_of k) t 0 w1 = Inr (d, w2)" using path_calls(1) [of _ ps, OF refl] dq w2_def by metis
  have "bound_to tm n (w_port w1)" using tm p(2) by (simp add: prepared_def)
  then have r: "recvAtomic ?E packet w = Inr (d, release ?E t (respond_if_needed ?E packet w2))"
    using adm cmd p(1) bound_select k(2) call
    by (auto simp: recvAtomic_def admissible_def Let_def k(1) [symmetric] path_calls [OF refl])
  have w2: "w_log w2 = w_log w @ [Acquire t, B_transport (Socket_of k) t 0]" "w_pkt w2 = w_pkt w" "w_port w2 = w_port w"
    using p(2) by (simp_all add: w2_def prepared_def frame_simps)
  have "port_ok n H (release ?E t (respond_if_needed ?E packet w2))"
    by (rule slave_rely.recvAtomic_keeps [OF path_env_rely [OF lib T, unfolded env_rely_iff] ok r])
  moreover have "gp_address (gp w1 t) = pkt_addr (w_pkt w packet)" using p(2) by (simp add: prepared_def describes_def)
  then have "\<not> ToMem (gp w1 t) (R k) \<and> target_of (pkt_addr (w_pkt w packet)) ps = None \<longrightarrow> d = 0"
    using dq by (auto simp: access_def)
  ultimately show ?thesis
    using r dq p(2)
    by (intro exI [of _ t] exI [of _ "gp w1 t"] exI [of _ "release ?E t (respond_if_needed ?E packet w2)"])
      (simp add: prepared_def calm_release responded calm_calls path_calls [OF refl] w2)
qed

text \<open>
  C18: a functional access reaches the device of the bus, or ends the simulation. It is let through only for
  an address in the router's region, and then always goes to the bus, also for the addresses that
  timing and atomic accesses send to the memory directly. When the device moves all the bytes, the
  access returns with the transaction given back and port and packet unchanged; when it moves fewer, or
  no device has the address, the port reports a fatal error.
\<close>

theorem functional_access_routed:
  assumes lib: "tlm_lib_ok L" and T: "targets_ok T" and ok: "port_ok n H w"
    and rw: "readOrWrite (path_env L G a T (map Obj ps) R) (w_pkt w packet)"
    and k: "k = getSocketId (pkt_requestorId (w_pkt w packet)) (w_port w)" "k < n" and tm: "bound_to tm n (w_port w)"
  shows "\<exists>t p bytes q w'. H t = None \<and> describes G packet (w_pkt w packet) k p \<and> debug_access T ps p = (bytes, q)
     \<and> recvFunctional (path_env L G a T (map Obj ps) R) packet w =
         (if \<not> ToMem p (R k) then Inl (Sc_report_fatal ''TXN_ROUTER'' ''Address out of range. Please check'')
          else if bytes \<noteq> gp_data_length q then Inl (Sc_report_fatal ''SCSlavePort'' ''debug transport was not completed'')
          else Inr w')
     \<and> w_log w' = w_log w @ [Acquire t, Transport_dbg (Socket_of k) t, Release t]
     \<and> w_pkt w' = w_pkt w \<and> w_port w' = w_port w
     \<and> (recvFunctional (path_env L G a T (map Obj ps) R) packet w = Inr w' \<longrightarrow> port_ok n H w')"
proof -
  let ?E = "path_env L G a T (map Obj ps) R"
  have lib': "tlm_lib_ok (se_tlm ?E)" using lib by (simp add: path_calls [OF refl])
  obtain t w1 where p: "prepare_transaction ?E packet k w = Inr (t, w1)" "prepared G H packet k w t w1"
    by (rule prepare_transaction_total [OF lib' ok rw, of k, unfolded path_calls [OF refl]])
  obtain bytes q where dq: "debug_access T ps (gp w1 t) = (bytes, q)" by (cases "debug_access T ps (gp w1 t)")
  define w2 where "w2 = set_heap ((gp w1)(t := q)) (note_call (Transport_dbg (Socket_of k) t) w1)"
  have g: "gp w2 t = q" by (simp add: w2_def set_heap_def gp_def)
  have call: "call_transport_dbg ?E (Socket_of k) t w1 =
      (if \<not> ToMem (gp w1 t) (R k) then Inl (Sc_report_fatal ''TXN_ROUTER'' ''Address out of range. Please check'') else Inr (bytes, w2))"
    using path_calls(2,3) [of _ ps, OF refl] dq by (auto simp: w2_def)
  have "bound_to tm n (w_port w1)" using tm p(2) by (simp add: prepared_def)
  then have r: "recvFunctional ?E packet w =
      (if \<not> ToMem (gp w1 t) (R k) then Inl (Sc_report_fatal ''TXN_ROUTER'' ''Address out of range. Please check'')
       else if bytes \<noteq> gp_data_length q then Inl (Sc_report_fatal ''SCSlavePort'' ''debug transport was not completed'')
       else Inr (release ?E t w2))"
    using p(1) bound_select k(2) call g by (auto simp: recvFunctional_def Let_def k(1) [symmetric])
  have w2: "w_log w2 = w_log w @ [Acquire t, Transport_dbg (Socket_of k) t]" "w_pkt w2 = w_pkt w" "w_port w2 = w_port w"
    using p(2) by (simp_all add: w2_def prepared_def frame_simps)
  have "port_ok n H (release ?E t w2)" if "recvFunctional ?E packet w = Inr (release ?E t w2)"
    by (rule slave_rely.recvFunctional_keeps [OF path_env_rely [OF lib T, unfolded env_rely_iff] ok that])
  then show ?thesis
    using r dq p(2)
    by (intro exI [of _ t] exI [of _ "gp w1 t"] exI [of _ bytes] exI [of _ q] exI [of _ "release ?E t w2"])
      (simp add: prepared_def calm_release path_calls(6) [OF refl] w2)
qed

section \<open>An access\<close>

text \<open>Address \<open>64\<close> is in the first range of the bus and outside the region of the router.\<close>

definition demo_targets :: targets where
  "demo_targets = \<lparr>tg_memory = (\<lambda>k p d. (d + 20, p)), tg_device = (\<lambda>i p d. (d + 30 + of_nat i, p)),
     tg_debug = (\<lambda>i p. (gp_data_length p, p))\<rparr>"

abbreviation demo_path :: "port_mapping list \<Rightarrow> u64 \<Rightarrow> slave_env" where
  "demo_path ps start \<equiv> path_env demo_tlm demo_gem5 demo_answers demo_targets (map Obj ps) (\<lambda>_. TxnRouter start 1024)"

lemma demo_targets_ok: "targets_ok demo_targets"
  by (simp add: targets_ok_def demo_targets_def)

lemma demo_idle_access:
  "admissible (demo_path ps start) 0 demo_idle" "readOrWrite (demo_path ps start) (w_pkt demo_idle 0)"
  "pkt_cmd (w_pkt demo_idle 0) = ReadReq" "g_isRead demo_gem5 ReadReq" "pkt_addr (w_pkt demo_idle 0) = 64"
  "getSocketId (pkt_requestorId (w_pkt demo_idle 0)) (w_port demo_idle) = 1"
  by (simp_all add: admissible_def path_calls [OF refl] getSocketId_def demo_world_defs demo_packet_def demo_gem5_def)

theorem atomic_access_routed_witness:
  "(\<exists>w'. recvAtomic (demo_path [] 4096) 0 demo_idle = Inr (0, w')
     \<and> w_pkt w' 0 = g_makeResponse demo_gem5 demo_packet)
   \<and> (\<exists>w'. recvAtomic (demo_path [\<lparr>pm_start = 0, pm_end = 127\<rparr>] 4096) 0 demo_idle = Inr (30, w'))
   \<and> (\<exists>w'. recvAtomic (demo_path [\<lparr>pm_start = 0, pm_end = 127\<rparr>] 64) 0 demo_idle = Inr (20, w'))"
proof -
  have acc: "\<exists>p w'. gp_address p = 64
     \<and> recvAtomic (demo_path ps start) 0 demo_idle = Inr (fst (access demo_targets ps 1 (TxnRouter start 1024) p), w')
     \<and> w_pkt w' 0 = g_makeResponse demo_gem5 demo_packet" for ps start
    using atomic_access_routed [OF demo_tlm_ok demo_targets_ok demo_idle_ok demo_idle_access(1), where k = 1 and tm = demo_tm]
      demo_idle_access(3-6) demo_bound_to(1)
    by (fastforce simp: describes_def demo_world_defs demo_gem5_def demo_packet_def)
  have "fst (access demo_targets [] 1 (TxnRouter 4096 1024) p) = 0"
    "fst (access demo_targets [\<lparr>pm_start = 0, pm_end = 127\<rparr>] 1 (TxnRouter 4096 1024) p) = 30"
    "fst (access demo_targets [\<lparr>pm_start = 0, pm_end = 127\<rparr>] 1 (TxnRouter 64 1024) p) = 20" if "gp_address p = 64" for p
    using that by (simp_all add: access_def ToMem_def TxnRouter_def target_of_def contains_def demo_targets_def)
  with acc show ?thesis by metis
qed

theorem functional_access_routed_witness:
  "(\<exists>w'. recvFunctional (demo_path [\<lparr>pm_start = 0, pm_end = 127\<rparr>] 64) 0 demo_idle = Inr w')
   \<and> recvFunctional (demo_path [\<lparr>pm_start = 0, pm_end = 127\<rparr>] 4096) 0 demo_idle
     = Inl (Sc_report_fatal ''TXN_ROUTER'' ''Address out of range. Please check'')
   \<and> recvFunctional (demo_path [] 64) 0 demo_idle
     = Inl (Sc_report_fatal ''SCSlavePort'' ''debug transport was not completed'')"
proof -
  let ?r = "\<lparr>pm_start = 0, pm_end = 127\<rparr>"
  have acc: "\<exists>p bytes q w'. gp_address p = 64 \<and> gp_data_length p = 8 \<and> debug_access demo_targets ps p = (bytes, q)
     \<and> recvFunctional (demo_path ps start) 0 demo_idle =
         (if \<not> ToMem p (TxnRouter start 1024) then Inl (Sc_report_fatal ''TXN_ROUTER'' ''Address out of range. Please check'')
          else if bytes \<noteq> gp_data_length q then Inl (Sc_report_fatal ''SCSlavePort'' ''debug transport was not completed'')
          else Inr w')" for ps start
  proof -
    have size: "pkt_size (w_pkt demo_idle 0) = 8" by (simp add: demo_world_defs demo_packet_def)
    have "(1 :: u32) < 2" by simp
    from functional_access_routed [OF demo_tlm_ok demo_targets_ok demo_idle_ok demo_idle_access(2) demo_idle_access(6) [symmetric]
        this demo_bound_to(1), of ps start]
    obtain t p bytes q w' where d: "describes demo_gem5 0 (w_pkt demo_idle 0) 1 p" "debug_access demo_targets ps p = (bytes, q)"
        "recvFunctional (demo_path ps start) 0 demo_idle =
         (if \<not> ToMem p (TxnRouter start 1024) then Inl (Sc_report_fatal ''TXN_ROUTER'' ''Address out of range. Please check'')
          else if bytes \<noteq> gp_data_length q then Inl (Sc_report_fatal ''SCSlavePort'' ''debug transport was not completed'')
          else Inr w')" by blast
    moreover have "gp_address p = 64" "gp_data_length p = 8"
      using d(1) size demo_idle_access(5) by (simp_all add: describes_def)
    ultimately show ?thesis by blast
  qed
  have "ToMem p (TxnRouter 64 1024)" "\<not> ToMem p (TxnRouter 4096 1024)" "debug_access demo_targets [?r] p = (gp_data_length p, p)"
      "debug_access demo_targets [] p = (0, p\<lparr>gp_response_status := TLM_ADDRESS_ERROR_RESPONSE\<rparr>)" if "gp_address p = 64" for p
    using that by (simp_all add: debug_access_def ToMem_def TxnRouter_def target_of_def contains_def demo_targets_def)
  with acc [of "[?r]" 64] acc [of "[?r]" 4096] acc [of "[]" 64] show ?thesis by fastforce
qed

end
