(* ===== verification/Master_Port.thy ===== *)
theory Master_Port
  imports Tlm_Gem5
begin

text \<open>
  \<open>SCMasterPort\<close> of \<open>sc_master_port.{hh,cc}\<close>: the gem5 port that turns TLM transactions into packets.
  Transactions enter through \<open>nb_transport_fw\<close>, wait in a payload event queue of the TLM library, and
  are handled in \<open>peq_cb\<close>; responses come back through \<open>recvTimingResp\<close>.

  The \<open>mworld\<close> holds the port, the payloads, the packets with the next unused packet address, both
  clocks and the log of calls. As in the slave port, what gem5, TLM and the simulation control do in
  a call is an environment, \<open>master_env\<close>; here a callee may also end the simulation. The constructor
  of \<open>gem5::Packet\<close>, the conversion of gem5 ticks to \<open>sc_time\<close> and the memory mode of the system are
  parameters of the same record.
\<close>

section \<open>State\<close>

datatype mcall =
    M_acquire ptr
  | M_release ptr
  | Peq_notify ptr tlm_phase tick
  | Catchup
  | Notify_loop
  | New_packet ptr
  | Delete_packet ptr
  | Send_timing_req ptr
  | Send_retry_resp
  | Send_atomic ptr
  | Send_functional ptr
  | Nb_transport_bw ptr tlm_phase tick
  | Register_nb_transport_fw
  | Register_b_transport
  | Register_transport_dbg

record master_port =
  waitForRetry :: bool
  pendingRequest :: "ptr option"
  pendingPacket :: "ptr option"
  needToSendRetry :: bool
  responseInProgress :: bool
  mp_transactor :: "string option"

record mworld =
  m_port :: master_port
  m_gp :: "ptr \<Rightarrow> payload"
  m_pkt :: "ptr \<Rightarrow> packet"
  m_next :: ptr
  m_curTick :: tick
  m_now :: tick
  m_log :: "mcall list"

record master_env =
  me_tlm :: tlm_lib
  me_gem5 :: gem5_lib
  me_owner_id :: nat
  me_Packet :: "u64 \<Rightarrow> u32 \<Rightarrow> nat \<Rightarrow> mem_cmd \<Rightarrow> packet"
  me_sc_time :: "tick \<Rightarrow> tick"
  me_isTimingMode :: bool
  me_isAtomicMode :: bool
  me_catchup :: "mworld \<Rightarrow> mworld res"
  me_notify :: "mworld \<Rightarrow> mworld res"
  me_release :: "ptr \<Rightarrow> mworld \<Rightarrow> mworld res"
  me_sendTimingReq :: "ptr \<Rightarrow> mworld \<Rightarrow> (bool \<times> mworld) res"
  me_sendRetryResp :: "mworld \<Rightarrow> mworld res"
  me_sendAtomic :: "ptr \<Rightarrow> mworld \<Rightarrow> (tick \<times> mworld) res"
  me_sendFunctional :: "ptr \<Rightarrow> mworld \<Rightarrow> mworld res"
  me_nb_transport_bw :: "ptr \<Rightarrow> tlm_phase \<Rightarrow> tick \<Rightarrow> mworld
     \<Rightarrow> ((tlm_sync_enum \<times> tlm_phase \<times> tick) \<times> mworld) res"

definition m_note :: "mcall \<Rightarrow> mworld \<Rightarrow> mworld" where
  "m_note c w = w\<lparr>m_log := m_log w @ [c]\<rparr>"

definition m_upd :: "(master_port \<Rightarrow> master_port) \<Rightarrow> mworld \<Rightarrow> mworld" where
  "m_upd f w = w\<lparr>m_port := f (m_port w)\<rparr>"

definition m_set_gp :: "ptr \<Rightarrow> payload \<Rightarrow> mworld \<Rightarrow> mworld" where
  "m_set_gp t p w = w\<lparr>m_gp := (m_gp w)(t := p)\<rparr>"

definition m_set_pkt :: "ptr \<Rightarrow> packet \<Rightarrow> mworld \<Rightarrow> mworld" where
  "m_set_pkt i p w = w\<lparr>m_pkt := (m_pkt w)(i := p)\<rparr>"

section \<open>Calls into gem5 and TLM\<close>

definition m_acquire :: "ptr \<Rightarrow> mworld \<Rightarrow> mworld" where
  "m_acquire t = m_note (M_acquire t)"

definition m_release :: "master_env \<Rightarrow> ptr \<Rightarrow> mworld \<Rightarrow> mworld res" where
  "m_release E t w = me_release E t (m_note (M_release t) w)"

definition sendTimingReq :: "master_env \<Rightarrow> ptr \<Rightarrow> mworld \<Rightarrow> (bool \<times> mworld) res" where
  "sendTimingReq E pkt w = me_sendTimingReq E pkt (m_note (Send_timing_req pkt) w)"

definition sendRetryResp :: "master_env \<Rightarrow> mworld \<Rightarrow> mworld res" where
  "sendRetryResp E w = me_sendRetryResp E (m_note Send_retry_resp w)"

definition call_nb_transport_bw :: "master_env \<Rightarrow> ptr \<Rightarrow> tlm_phase \<Rightarrow> tick \<Rightarrow> mworld
    \<Rightarrow> ((tlm_sync_enum \<times> tlm_phase \<times> tick) \<times> mworld) res" where
  "call_nb_transport_bw E t phase delay w =
     (if mp_transactor (m_port w) = None then Inl (Undefined_behaviour ''transactor'')
      else me_nb_transport_bw E t phase delay (m_note (Nb_transport_bw t phase delay) w))"

text \<open>\<open>Packet::pushSenderState\<close> and \<open>Packet::popSenderState\<close>; the latter asserts that there is one.\<close>

definition pushSenderState :: "sender_state \<Rightarrow> packet \<Rightarrow> packet" where
  "pushSenderState s p = p\<lparr>pkt_senderStates := s # pkt_senderStates p\<rparr>"

definition popSenderState :: "packet \<Rightarrow> (sender_state \<times> packet) res" where
  "popSenderState p = (case pkt_senderStates p of
       [] \<Rightarrow> Inl Assert_failed
     | s # ss \<Rightarrow> Inr (s, p\<lparr>pkt_senderStates := ss\<rparr>))"

section \<open>Construction and binding\<close>

definition SCMasterPort :: master_port where
  "SCMasterPort = \<lparr>waitForRetry = False, pendingRequest = None, pendingPacket = None,
     needToSendRetry = False, responseInProgress = False, mp_transactor = None\<rparr>"

definition mp_bindToTransactor :: "master_env \<Rightarrow> string \<Rightarrow> mworld \<Rightarrow> mworld res" where
  "mp_bindToTransactor E name w =
     (if mp_transactor (m_port w) \<noteq> None then Inl Sc_assert_failed
      else
        let w = m_upd (\<lambda>p. p\<lparr>mp_transactor := Some name\<rparr>) w
        in bindr (if me_isTimingMode E then Inr (m_note Register_nb_transport_fw w)
                  else if me_isAtomicMode E then Inr (m_note Register_b_transport w)
                  else Inl (Panic ''gem5 operates neither in Timing nor in Atomic mode''))
             (\<lambda>w. Inr (m_note Register_transport_dbg w)))"

section \<open>Transactions to packets\<close>

definition generatePacket :: "master_env \<Rightarrow> ptr \<Rightarrow> mworld \<Rightarrow> (ptr \<times> mworld) res" where
  "generatePacket E t w =
     (let trans = m_gp w t
      in bindr (case gp_command trans of
                  TLM_READ_COMMAND \<Rightarrow> Inr ReadReq
                | TLM_WRITE_COMMAND \<Rightarrow> Inr WriteReq
                | TLM_IGNORE_COMMAND \<Rightarrow>
                    Inl (Sc_report_fatal ''SCMasterPort'' ''received transaction with unsupported command''))
           (\<lambda>cmd.
             let pkt = m_next w;
                 p = (me_Packet E (gp_address trans) (gp_data_length trans) (me_owner_id E) cmd)
                       \<lparr>pkt_data := gp_data_ptr trans\<rparr>
             in Inr (pkt, m_note (New_packet pkt) ((m_set_pkt pkt p w)\<lparr>m_next := Suc pkt\<rparr>))))"

definition destroyPacket :: "ptr \<Rightarrow> mworld \<Rightarrow> mworld" where
  "destroyPacket pkt = m_note (Delete_packet pkt)"

text \<open>
  The packet of a transaction: the original one for a transaction that came from gem5 (pipe
  through), a new one otherwise.
\<close>

definition packet_for :: "master_env \<Rightarrow> ptr \<Rightarrow> mworld \<Rightarrow> (ptr \<times> mworld) res" where
  "packet_for E t w =
     (case gp_extension (m_gp w t) of
        Some extension \<Rightarrow> Inr (getPacket extension, w)
      | None \<Rightarrow> generatePacket E t w)"

definition checkTransaction :: "master_env \<Rightarrow> ptr \<Rightarrow> mworld \<Rightarrow> unit res" where
  "checkTransaction E t w =
     (if tl_is_response_error (me_tlm E) (gp_response_status (m_gp w t))
      then Inl (Sc_report_error ''TLM-2'') else Inr ())"

section \<open>The TLM side\<close>

definition mp_nb_transport_fw :: "ptr \<Rightarrow> tlm_phase \<Rightarrow> tick \<Rightarrow> mworld \<Rightarrow> tlm_sync_enum \<times> mworld" where
  "mp_nb_transport_fw t phase delay w =
     (let trans = m_gp w t
      in if gp_byte_enable_ptr trans \<noteq> None
         then (TLM_COMPLETED, m_set_gp t (trans\<lparr>gp_response_status := TLM_BYTE_ENABLE_ERROR_RESPONSE\<rparr>) w)
         else if gp_streaming_width trans < gp_data_length trans
         then (TLM_COMPLETED, m_set_gp t (trans\<lparr>gp_response_status := TLM_BURST_ERROR_RESPONSE\<rparr>) w)
         else (TLM_ACCEPTED, m_note (Peq_notify t phase delay) (m_acquire t w)))"

definition sendEndReq :: "master_env \<Rightarrow> ptr \<Rightarrow> mworld \<Rightarrow> mworld res" where
  "sendEndReq E t w =
     bindr (call_nb_transport_bw E t END_REQ 0 w) (\<lambda>((status, _, _), w).
       if status \<noteq> TLM_ACCEPTED then Inl (Panic ''Unexpected status after sending END_REQ'') else Inr w)"

definition handleBeginReq :: "master_env \<Rightarrow> ptr \<Rightarrow> mworld \<Rightarrow> mworld res" where
  "handleBeginReq E t w =
     (if waitForRetry (m_port w) then Inl Sc_assert_failed
      else if pendingRequest (m_port w) \<noteq> None then Inl Sc_assert_failed
      else if pendingPacket (m_port w) \<noteq> None then Inl Sc_assert_failed
      else
        bindr (packet_for E t (m_acquire t w)) (\<lambda>(pkt, w).
        let w = m_set_pkt pkt (pushSenderState (TlmSenderState t) (m_pkt w pkt)) w
        in bindr (sendTimingReq E pkt w) (\<lambda>(sent, w).
             if sent then bindr (sendEndReq E t w) (m_release E t)
             else Inr (m_upd (\<lambda>p. p\<lparr>waitForRetry := True, pendingRequest := Some t,
                         pendingPacket := Some pkt\<rparr>) w))))"

definition handleEndResp :: "master_env \<Rightarrow> ptr \<Rightarrow> mworld \<Rightarrow> mworld res" where
  "handleEndResp E t w =
     (if \<not> responseInProgress (m_port w) then Inl Sc_assert_failed
      else
        let w = m_upd (\<lambda>p. p\<lparr>responseInProgress := False\<rparr>) w
        in bindr (checkTransaction E t w) (\<lambda>_.
             if needToSendRetry (m_port w)
             then bindr (sendRetryResp E w) (\<lambda>w. Inr (m_upd (\<lambda>p. p\<lparr>needToSendRetry := False\<rparr>) w))
             else Inr w))"

definition mp_peq_cb :: "master_env \<Rightarrow> ptr \<Rightarrow> tlm_phase \<Rightarrow> mworld \<Rightarrow> mworld res" where
  "mp_peq_cb E t phase w =
     bindr (me_catchup E (m_note Catchup w)) (\<lambda>w.
       if m_curTick w \<noteq> m_now w then Inl Assert_failed
       else bindr (case phase of
                     BEGIN_REQ \<Rightarrow> handleBeginReq E t w
                   | END_RESP \<Rightarrow> handleEndResp E t w
                   | _ \<Rightarrow> Inl (Panic ''unimplemented phase in callback''))
              (\<lambda>w. me_notify E (m_note Notify_loop w)))"

definition mp_b_transport :: "master_env \<Rightarrow> ptr \<Rightarrow> tick \<Rightarrow> mworld \<Rightarrow> (tick \<times> mworld) res" where
  "mp_b_transport E t time w =
     bindr (packet_for E t w) (\<lambda>(pkt, w').
     bindr (me_sendAtomic E pkt (m_note (Send_atomic pkt) w')) (\<lambda>(ticks, w').
       let cmd = pkt_cmd (m_pkt w' pkt)
       in if g_needsResponse (me_gem5 E) cmd \<and> \<not> g_isResponse (me_gem5 E) cmd
          then Inl (Panic ''Packet sending failed!'')
          else
            let w' = (if gp_extension (m_gp w t) = None then destroyPacket pkt w' else w')
            in Inr (time + me_sc_time E ticks,
                    m_set_gp t ((m_gp w' t)\<lparr>gp_response_status := TLM_OK_RESPONSE\<rparr>) w')))"

definition mp_transport_dbg :: "master_env \<Rightarrow> ptr \<Rightarrow> mworld \<Rightarrow> (u32 \<times> mworld) res" where
  "mp_transport_dbg E t w =
     bindr (packet_for E t w) (\<lambda>(pkt, w').
     bindr (me_sendFunctional E pkt (m_note (Send_functional pkt) w')) (\<lambda>w'.
       let w' = (if gp_extension (m_gp w t) = None then destroyPacket pkt w' else w')
       in Inr (gp_data_length (m_gp w' t), w')))"

definition get_direct_mem_ptr :: "ptr \<Rightarrow> mworld \<Rightarrow> bool" where
  "get_direct_mem_ptr t w = False"

section \<open>The gem5 side\<close>

definition sendBeginResp :: "master_env \<Rightarrow> ptr \<Rightarrow> tick \<Rightarrow> mworld \<Rightarrow> mworld res" where
  "sendBeginResp E t delay w =
     (let w = m_set_gp t ((m_gp w t)\<lparr>gp_response_status := TLM_OK_RESPONSE\<rparr>) w
      in bindr (call_nb_transport_bw E t BEGIN_RESP delay w) (\<lambda>((status, phase, _), w).
           if status = TLM_COMPLETED \<or> status = TLM_UPDATED \<and> phase = END_RESP
           then Inr (m_upd (\<lambda>p. p\<lparr>responseInProgress := False\<rparr>) w)
           else if status = TLM_ACCEPTED
           then Inr (m_upd (\<lambda>p. p\<lparr>responseInProgress := True\<rparr>) w)
           else Inl (Panic ''Unexpected status after sending BEGIN_RESP'')))"

definition recvTimingResp :: "master_env \<Rightarrow> ptr \<Rightarrow> mworld \<Rightarrow> (bool \<times> mworld) res" where
  "recvTimingResp E pkt w =
     (if responseInProgress (m_port w)
      then (if needToSendRetry (m_port w) then Inl Sc_assert_failed
            else Inr (False, m_upd (\<lambda>p. p\<lparr>needToSendRetry := True\<rparr>) w))
      else if \<not> g_isResponse (me_gem5 E) (pkt_cmd (m_pkt w pkt)) then Inl Sc_assert_failed
      else
        let delay = pkt_payloadDelay (m_pkt w pkt)
        in bindr (popSenderState ((m_pkt w pkt)\<lparr>pkt_payloadDelay := 0, pkt_headerDelay := 0\<rparr>)) (\<lambda>(s, p).
           case s of
             OtherSenderState _ \<Rightarrow> Inl Sc_assert_failed
           | TlmSenderState t \<Rightarrow>
               let w = m_set_pkt pkt p w;
                   w = (if gp_extension (m_gp w t) = None then destroyPacket pkt w else w)
               in bindr (sendBeginResp E t delay w) (\<lambda>w.
                  bindr (m_release E t w) (\<lambda>w. Inr (True, w)))))"

definition recvReqRetry :: "master_env \<Rightarrow> mworld \<Rightarrow> mworld res" where
  "recvReqRetry E w =
     (if \<not> waitForRetry (m_port w) then Inl Sc_assert_failed
      else case pendingRequest (m_port w) of
             None \<Rightarrow> Inl Sc_assert_failed
           | Some _ \<Rightarrow>
               (case pendingPacket (m_port w) of
                  None \<Rightarrow> Inl Sc_assert_failed
                | Some pkt \<Rightarrow>
                    bindr (sendTimingReq E pkt w) (\<lambda>(sent, w).
                      if sent
                      then
                        let w = m_upd (\<lambda>p. p\<lparr>waitForRetry := False, pendingPacket := None\<rparr>) w
                        in case pendingRequest (m_port w) of
                             None \<Rightarrow> Inl (Undefined_behaviour ''pendingRequest'')
                           | Some t \<Rightarrow>
                               bindr (sendEndReq E t w) (\<lambda>w.
                               bindr (m_release E t w) (\<lambda>w.
                                 Inr (m_upd (\<lambda>p. p\<lparr>pendingRequest := None\<rparr>) w)))
                      else Inr w)))"

definition recvRangeChange :: "mworld \<Rightarrow> mworld" where
  "recvRangeChange w = w"

end
