(* ===== verification/Sc_Module.thy ===== *)
theory Sc_Module
  imports Prelude
begin

text \<open>
  \<open>Module\<close> of \<open>sc_module.{hh,cc}\<close>: the SystemC module that runs gem5's event loop. SystemC time leads; gem5
  is caught up to it, serves the events that are due and asks to be woken for the next one.

  gem5's event queue and its global flags are the world \<open>'q sworld\<close>: the queue is a value of any type \<open>'q\<close>
  that the environment's \<open>mo_empty\<close>, \<open>mo_nextTick\<close> and \<open>mo_serviceOne\<close> interpret. Serving an event, scheduling
  statistics, leaving the simulation loop and polling may change the whole world. Notifications and cancellations of SystemC events are recorded in the log.
\<close>

section \<open>State\<close>

datatype scall =
    Notify_external tick
  | Notify_enter tick
  | Notify_exit
  | Cancel_enter
  | Cancel_exit
  | Cancel_external
  | Sched_stat_event bool bool
  | Exit_sim_loop
  | Poll_service
  | Warn_external
  | New_limit_event tick
  | Deschedule_limit ptr
  | Push_event_queue
  | Set_clock_frequency tick

record sc_module =
  wait_exit_time :: tick
  in_simulate :: bool
  exitEvent :: "ptr option"

record async_flags =
  async_event :: bool
  async_statdump :: bool
  async_statreset :: bool
  async_exit :: bool
  async_io :: bool
  async_exception :: bool

record 'q sworld =
  s_mod :: sc_module
  s_queue :: 'q
  s_queues :: nat
  s_curTick :: tick
  s_now :: tick
  s_async :: async_flags
  s_log :: "scall list"

record 'q module_env =
  mo_empty :: "'q \<Rightarrow> bool"
  mo_nextTick :: "'q \<Rightarrow> tick"
  mo_serviceOne :: "'q sworld \<Rightarrow> ptr option \<times> 'q sworld"
  mo_schedStatEvent :: "bool \<Rightarrow> bool \<Rightarrow> 'q sworld \<Rightarrow> 'q sworld"
  mo_exitSimLoop :: "'q sworld \<Rightarrow> 'q sworld"
  mo_pollService :: "'q sworld \<Rightarrow> 'q sworld"
  mo_MaxTick :: tick
  mo_new_limit :: "tick \<Rightarrow> 'q sworld \<Rightarrow> ptr \<times> 'q sworld"
  mo_deschedule :: "ptr \<Rightarrow> 'q sworld \<Rightarrow> 'q sworld"
  mo_wait_exit :: "'q sworld \<Rightarrow> 'q sworld res"
  mo_globalEvent :: "ptr \<Rightarrow> ptr option"
  mo_isExitEvent :: "ptr \<Rightarrow> bool"

definition s_note :: "scall \<Rightarrow> 'q sworld \<Rightarrow> 'q sworld" where
  "s_note c w = w\<lparr>s_log := s_log w @ [c]\<rparr>"

definition s_upd :: "(sc_module \<Rightarrow> sc_module) \<Rightarrow> 'q sworld \<Rightarrow> 'q sworld" where
  "s_upd f w = w\<lparr>s_mod := f (s_mod w)\<rparr>"

section \<open>Operations\<close>

definition setTickFrequency :: "'q sworld \<Rightarrow> 'q sworld" where
  "setTickFrequency = s_note (Set_clock_frequency 1000000000000)"

text \<open>The constructor sets \<open>in_simulate\<close> only; the two other members start with any value.\<close>

definition Module :: "tick \<Rightarrow> ptr option \<Rightarrow> sc_module" where
  "Module time event = \<lparr>wait_exit_time = time, in_simulate = False, exitEvent = event\<rparr>"

definition s_notify :: "tick \<Rightarrow> 'q sworld \<Rightarrow> 'q sworld" where
  "s_notify time_from_now = s_note (Notify_external time_from_now)"

definition SCEventQueue_wakeup :: "tick \<Rightarrow> 'q sworld \<Rightarrow> 'q sworld" where
  "SCEventQueue_wakeup when = s_notify 0"

definition setupEventQueues :: "'q \<Rightarrow> 'q sworld \<Rightarrow> 'q sworld res" where
  "setupEventQueues queue w =
     (if s_queues w \<noteq> 0
      then Inl (Fatal ''Gem5SystemC::Module::setupEventQueues must be called before any gem5 event queues are set up'')
      else Inr (s_note Push_event_queue (w\<lparr>s_queues := 1, s_queue := queue\<rparr>)))"

definition catchup :: "'q module_env \<Rightarrow> 'q sworld \<Rightarrow> 'q sworld res" where
  "catchup E w =
     (let systemc_time = s_now w; gem5_time = s_curTick w
      in if gem5_time > systemc_time then Inl (Fatal ''gem5 time must lag SystemC time'')
         else
           let w = w\<lparr>s_curTick := systemc_time\<rparr>
           in if \<not> mo_empty E (s_queue w) \<and> gem5_time > mo_nextTick E (s_queue w)
              then Inl (Fatal ''Missed an event'') else Inr w)"

definition serviceAsyncEvent :: "'q module_env \<Rightarrow> 'q sworld \<Rightarrow> 'q sworld res" where
  "serviceAsyncEvent E w =
     (if \<not> async_event (s_async w) then Inl Assert_failed
      else bindr (catchup E w) (\<lambda>w.
        let w = w\<lparr>s_async := (s_async w)\<lparr>async_event := False\<rparr>\<rparr>;
            dump = async_statdump (s_async w); reset = async_statreset (s_async w);
            w = (if dump \<or> reset
                 then let w = mo_schedStatEvent E dump reset (s_note (Sched_stat_event dump reset) w)
                      in w\<lparr>s_async := (s_async w)\<lparr>async_statdump := False, async_statreset := False\<rparr>\<rparr>
                 else w);
            w = (if async_exit (s_async w)
                 then mo_exitSimLoop E (s_note Exit_sim_loop (w\<lparr>s_async := (s_async w)\<lparr>async_exit := False\<rparr>\<rparr>)) else w);
            w = (if async_io (s_async w)
                 then mo_pollService E (s_note Poll_service (w\<lparr>s_async := (s_async w)\<lparr>async_io := False\<rparr>\<rparr>)) else w)
        in if async_exception (s_async w)
           then Inl (Fatal ''received gem5::async_exception, shouldn't be possible'') else Inr w))"

text \<open>
  The loop of \<open>eventLoop\<close> with a bound on its rounds: events may keep scheduling events at the current
  time, so running out of rounds is \<open>No_return\<close>.
\<close>

fun event_loop :: "'q module_env \<Rightarrow> nat \<Rightarrow> 'q sworld \<Rightarrow> 'q sworld res" where
  "event_loop E rounds w =
     (if mo_empty E (s_queue w) then Inl (Fatal ''Ran out of events without seeing exit event'')
      else case rounds of
             0 \<Rightarrow> Inl No_return
           | Suc n \<Rightarrow>
               (let next_event_time = mo_nextTick E (s_queue w)
                in bindr (catchup E w) (\<lambda>w.
                   let gem5_time = s_curTick w;
                       w = (if wait_exit_time (s_mod w) > s_now w
                            then s_upd (\<lambda>m. m\<lparr>wait_exit_time := s_now w\<rparr>) w else w)
                   in if gem5_time < next_event_time
                      then
                        let wait_period = next_event_time - gem5_time;
                            w = s_upd (\<lambda>m. m\<lparr>wait_exit_time := gem5_time + wait_period\<rparr>) w
                        in Inr (s_note (Notify_enter wait_period) w)
                      else if gem5_time > next_event_time then Inl (Fatal ''Missed an event'')
                      else
                        case mo_serviceOne E w of (e, w) \<Rightarrow>
                          let w = s_upd (\<lambda>m. m\<lparr>exitEvent := e\<rparr>) w
                          in if e \<noteq> None then Inr (s_note Notify_exit w)
                             else event_loop E n w)))"

definition eventLoop :: "'q module_env \<Rightarrow> nat \<Rightarrow> 'q sworld \<Rightarrow> 'q sworld res" where
  "eventLoop E rounds w =
     (if \<not> in_simulate (s_mod w)
      then Inl (Fatal ''Gem5SystemC event loop entered while outside Gem5SystemC::Module::simulate'')
      else bindr (if async_event (s_async w) then serviceAsyncEvent E w else Inr w) (event_loop E rounds))"

definition serviceExternalEvent :: "'q module_env \<Rightarrow> nat \<Rightarrow> 'q sworld \<Rightarrow> 'q sworld res" where
  "serviceExternalEvent E rounds w =
     (let w = (if \<not> in_simulate (s_mod w) \<and> \<not> async_event (s_async w) then s_note Warn_external w else w)
      in bindr (if async_event (s_async w) then serviceAsyncEvent E w else Inr w) (\<lambda>w.
           if in_simulate (s_mod w) \<and> \<not> mo_empty E (s_queue w) then eventLoop E rounds w else Inr w))"

definition simulate_limit :: "tick \<Rightarrow> tick \<Rightarrow> tick \<Rightarrow> tick" where
  "simulate_limit MaxTick curTick num_cycles =
     (if num_cycles < MaxTick - curTick then curTick + num_cycles else MaxTick)"

definition simulate :: "'q module_env \<Rightarrow> tick \<Rightarrow> 'q sworld \<Rightarrow> (ptr \<times> 'q sworld) res" where
  "simulate E num_cycles w =
     (let num_cycles = simulate_limit (mo_MaxTick E) (s_curTick w) num_cycles
      in case mo_new_limit E num_cycles (s_note (New_limit_event num_cycles) w) of (limit_event, w) \<Rightarrow>
           let w = s_upd (\<lambda>m. m\<lparr>exitEvent := None\<rparr>) w;
               w = s_note Cancel_external (s_note Cancel_exit w);
               w = s_upd (\<lambda>m. m\<lparr>in_simulate := True\<rparr>) w;
               w = s_note (Notify_enter 0) w
           in bindr (if exitEvent (s_mod w) = None then mo_wait_exit E w else Inr w) (\<lambda>w.
              let w = s_upd (\<lambda>m. m\<lparr>in_simulate := False\<rparr>) (s_note Cancel_enter w)
              in case exitEvent (s_mod w) of
                   None \<Rightarrow> Inl (Undefined_behaviour ''exitEvent'')
                 | Some e \<Rightarrow>
                     (case mo_globalEvent E e of
                        None \<Rightarrow> Inl Assert_failed
                      | Some global \<Rightarrow>
                          if \<not> mo_isExitEvent E global then Inl Assert_failed
                          else Inr (global, if global \<noteq> limit_event
                                 then mo_deschedule E limit_event (s_note (Deschedule_limit limit_event) w) else w))))"

end
