(* ===== verification/Sim_Control.thy ===== *)
theory Sim_Control
  imports Slave_Port Master_Port Sc_Module
begin

text \<open>
  \<open>Gem5SimControl\<close> of \<open>sim_control.{hh,cc}\<close>, the handlers through which gem5 creates external ports, and the
  elaboration of the transactors (\<open>slave_transactor.cc\<close>, \<open>master_transactor.cc\<close>): the construction of the
  control, the registry of ports by name, the cores and their requestor ids, and how a transactor
  finds and binds its port.

  The \<open>cworld\<close> holds the control, the port objects, whether the singleton exists, the number of gem5
  event queues and the log of calls into gem5. Loading, instantiating and starting a configuration
  are gem5's: fields of \<open>control_env\<close>, where an exception of the configuration manager is \<open>Inl\<close>.
\<close>

section \<open>State\<close>

datatype ccall =
    Cxx_config_init
  | Register_handler string
  | Set_debug_logger
  | Set_tick_frequency
  | Setup_event_queues
  | Init_signals
  | Init_sim_stats
  | Register_stat_handlers
  | Trace_enable
  | Set_debug_flag string
  | Clear_debug_flag string
  | Stats_enable
  | Dump_event_queue
  | Instantiate
  | Init_state
  | Startup

record sim_control =
  simulationEnd :: tick
  slavePorts :: "(string, ptr) smap"
  masterPorts :: "(string, ptr) smap"
  cpuPorts :: "(string, nat list) smap"

record cworld =
  c_control :: sim_control
  c_slave :: "ptr \<Rightarrow> slave_port"
  c_master :: "ptr \<Rightarrow> master_port"
  c_next :: ptr
  c_instance :: bool
  c_queues :: nat
  c_log :: "ccall list"

record control_env =
  ce_resolution_is_1ps :: bool
  ce_load :: "string \<Rightarrow> bool"
  ce_instantiate :: "cworld \<Rightarrow> string + cworld"
  ce_cpus :: "(string \<times> nat \<times> nat) list"
  ce_initState :: "cworld \<Rightarrow> string + cworld"
  ce_startup :: "cworld \<Rightarrow> string + cworld"

definition c_note :: "ccall list \<Rightarrow> cworld \<Rightarrow> cworld" where
  "c_note cs w = w\<lparr>c_log := c_log w @ cs\<rparr>"

abbreviation config_problem :: abort where
  "config_problem \<equiv> Exit_failure ''Config problem in sim object''"

section \<open>Ports by name\<close>

definition registerSlavePort :: "string \<Rightarrow> ptr \<Rightarrow> sim_control \<Rightarrow> sim_control res" where
  "registerSlavePort name port c =
     (if smap_find name (slavePorts c) = None
      then Inr (c\<lparr>slavePorts := smap_assign name port (slavePorts c)\<rparr>)
      else Inl (Exit_failure ''Slave Port is already registered!''))"

definition registerMasterPort :: "string \<Rightarrow> ptr \<Rightarrow> sim_control \<Rightarrow> sim_control res" where
  "registerMasterPort name port c =
     (if smap_find name (masterPorts c) = None
      then Inr (c\<lparr>masterPorts := smap_assign name port (masterPorts c)\<rparr>)
      else Inl (Exit_failure ''Master Port is already registered!''))"

text \<open>Getting a slave port also tells it the cores and their requestor ids.\<close>

definition getSlavePort :: "string \<Rightarrow> cworld \<Rightarrow> (ptr \<times> cworld) res" where
  "getSlavePort name w =
     (case smap_find name (slavePorts (c_control w)) of
        None \<Rightarrow> Inl (Exit_failure ''Slave Port was not found!'')
      | Some p \<Rightarrow> Inr (p, w\<lparr>c_slave := (c_slave w)(p := updateCorePortMap (cpuPorts (c_control w)) (c_slave w p))\<rparr>))"

definition getMasterPort :: "string \<Rightarrow> cworld \<Rightarrow> ptr res" where
  "getMasterPort name w =
     (case smap_find name (masterPorts (c_control w)) of
        None \<Rightarrow> Inl (Exit_failure ''Master Port was not found!'')
      | Some p \<Rightarrow> Inr p)"

definition slave_getExternalPort :: "string \<Rightarrow> cworld \<Rightarrow> (ptr \<times> cworld) res" where
  "slave_getExternalPort port_data w =
     (let p = c_next w; w = w\<lparr>c_slave := (c_slave w)(p := SCSlavePort), c_next := Suc p\<rparr>
      in bindr (registerSlavePort port_data p (c_control w)) (\<lambda>c. Inr (p, w\<lparr>c_control := c\<rparr>)))"

definition master_getExternalPort :: "string \<Rightarrow> cworld \<Rightarrow> (ptr \<times> cworld) res" where
  "master_getExternalPort port_data w =
     (let p = c_next w; w = w\<lparr>c_master := (c_master w)(p := SCMasterPort), c_next := Suc p\<rparr>
      in bindr (registerMasterPort port_data p (c_control w)) (\<lambda>c. Inr (p, w\<lparr>c_control := c\<rparr>)))"

section \<open>Cores\<close>

definition addCoreID :: "string \<Rightarrow> nat \<Rightarrow> sim_control \<Rightarrow> sim_control" where
  "addCoreID core_name i c =
     (case smap_find core_name (cpuPorts c) of
        Some ids \<Rightarrow> c\<lparr>cpuPorts := smap_assign core_name (ids @ [i]) (cpuPorts c)\<rparr>
      | None \<Rightarrow> c\<lparr>cpuPorts := smap_assign core_name [i] (cpuPorts c)\<rparr>)"

definition initCoreInfo :: "(string \<times> nat \<times> nat) list \<Rightarrow> sim_control \<Rightarrow> sim_control" where
  "initCoreInfo core_list c =
     fold (\<lambda>(core_name, inst_id, data_id) c. addCoreID core_name data_id (addCoreID core_name inst_id c)) core_list c"

fun core_id_from :: "u32 \<Rightarrow> nat \<Rightarrow> (string, nat list) smap \<Rightarrow> u32" where
  "core_id_from core_id i [] = 0"
| "core_id_from core_id i ((core, ids) # m) = (if i \<in> set ids then core_id else core_id_from (core_id + 1) i m)"

definition getCoreIDByRequestorID :: "nat \<Rightarrow> sim_control \<Rightarrow> u32" where
  "getCoreIDByRequestorID i c = core_id_from 0 i (cpuPorts c)"

section \<open>Debug flags\<close>

text \<open>
  The words that repeated \<open>std::getline(ss, flag, ' ')\<close> delivers: a space ends a word, possibly an empty
  one, and the last word needs no space after it.
\<close>

function getlines :: "string \<Rightarrow> string list" where
  "getlines [] = []"
| "getlines (c # s) = takeWhile (\<lambda>x. x \<noteq> CHR '' '') (c # s) # getlines (drop 1 (dropWhile (\<lambda>x. x \<noteq> CHR '' '') (c # s)))"
  by pat_completeness auto

termination getlines
proof (relation "measure length", simp)
  fix c :: char and s
  have "length (dropWhile (\<lambda>x. x \<noteq> CHR '' '') (c # s)) \<le> length (c # s)" by (rule length_dropWhile_le)
  then show "(drop 1 (dropWhile (\<lambda>x. x \<noteq> CHR '' '') (c # s)), c # s) \<in> measure length"
    by simp
qed

definition apply_flag :: "string \<Rightarrow> cworld \<Rightarrow> cworld res" where
  "apply_flag flag w =
     (case flag of
        [] \<Rightarrow> Inl Out_of_range_exception
      | c # rest \<Rightarrow> Inr (c_note [if c = CHR ''-'' then Clear_debug_flag rest else Set_debug_flag flag] w))"

fun apply_flags :: "string list \<Rightarrow> cworld \<Rightarrow> cworld res" where
  "apply_flags [] w = Inr w"
| "apply_flags (flag # flags) w = bindr (apply_flag flag w) (apply_flags flags)"

definition parse_debug_flags :: "string \<Rightarrow> cworld \<Rightarrow> cworld res" where
  "parse_debug_flags gem5DebugFlags = apply_flags (getlines gem5DebugFlags)"

section \<open>Construction, start and run\<close>

definition Gem5SimControl :: "control_env \<Rightarrow> string \<Rightarrow> tick \<Rightarrow> string \<Rightarrow> cworld \<Rightarrow> cworld res" where
  "Gem5SimControl E configFile end_tick gem5DebugFlags w =
     (if c_instance w then Inl (Panic ''Tried to instantiate Gem5SimControl more than once!'')
      else
        let w = w\<lparr>c_instance := True,
                  c_control := \<lparr>simulationEnd = end_tick, slavePorts = [], masterPorts = [], cpuPorts = []\<rparr>\<rparr>;
            w = c_note [Cxx_config_init, Register_handler ''tlm_slave'', Register_handler ''tlm_master'',
                        Set_debug_logger, Set_tick_frequency] w
        in if \<not> ce_resolution_is_1ps E then Inl Assert_failed
           else if c_queues w \<noteq> 0
           then Inl (Fatal ''Gem5SystemC::Module::setupEventQueues must be called before any gem5 event queues are set up'')
           else
             let w = c_note [Setup_event_queues, Init_signals, Init_sim_stats, Register_stat_handlers, Trace_enable]
                       (w\<lparr>c_queues := 1\<rparr>)
             in if configFile = [] then Inl (Exit_failure ''No gem5 config file specified!'')
                else if \<not> ce_load E configFile then Inl (Exit_failure ''Can't open config file'')
                else bindr (parse_debug_flags gem5DebugFlags w) (\<lambda>w.
                  case ce_instantiate E (c_note [Stats_enable, Dump_event_queue, Instantiate] w) of
                    Inl e \<Rightarrow> Inl config_problem
                  | Inr w \<Rightarrow> Inr (w\<lparr>c_control := initCoreInfo (ce_cpus E) (c_control w)\<rparr>)))"

definition end_of_elaboration :: "control_env \<Rightarrow> cworld \<Rightarrow> cworld res" where
  "end_of_elaboration E w =
     (case ce_initState E (c_note [Init_state] w) of
        Inl e \<Rightarrow> Inl config_problem
      | Inr w \<Rightarrow> (case ce_startup E (c_note [Startup] w) of Inl e \<Rightarrow> Inl config_problem | Inr w \<Rightarrow> Inr w))"

definition control_getInstance :: "control_env \<Rightarrow> string \<Rightarrow> tick \<Rightarrow> string \<Rightarrow> cworld \<Rightarrow> cworld res" where
  "control_getInstance E configFile end_tick gem5DebugFlags w =
     (if \<not> c_instance w then Gem5SimControl E configFile end_tick gem5DebugFlags w else Inr w)"

text \<open>The thread \<open>run\<close>, with the two callbacks that a derived class may define.\<close>

definition run :: "('q sworld \<Rightarrow> 'q sworld) \<Rightarrow> ('q sworld \<Rightarrow> 'q sworld) \<Rightarrow> 'q module_env \<Rightarrow> sim_control
    \<Rightarrow> 'q sworld \<Rightarrow> (ptr \<times> 'q sworld) res" where
  "run beforeSimulate afterSimulate E c w =
     bindr (simulate E (if simulationEnd c = 0 then mo_MaxTick E else simulationEnd c) (beforeSimulate w))
       (\<lambda>(exit_event, w). Inr (exit_event, afterSimulate w))"

section \<open>Transactors\<close>

definition Gem5SlaveTransactor :: "string \<Rightarrow> string res" where
  "Gem5SlaveTransactor portName =
     (if portName = [] then Inl (Sc_report_error ''No port name specified!'') else Inr portName)"

definition Gem5MasterTransactor :: "string \<Rightarrow> string res" where
  "Gem5MasterTransactor portName =
     (if portName = [] then Inl (Sc_report_error ''No port name specified!'') else Inr portName)"

text \<open>
  \<open>before_end_of_elaboration\<close> of the three transactors: the port found under the transactor's port name
  is bound. \<open>sw\<close> (\<open>mw\<close>) is the world around the port object. The control is reached through the transactor's
  \<open>sc_port\<close> \<open>sim_control\<close>: \<open>None\<close> when nothing has been bound to it, and then \<open>operator->\<close> reports an error.
\<close>

definition get_interface :: "'c option \<Rightarrow> 'c res" where
  "get_interface sc_port = (case sc_port of
       None \<Rightarrow> Inl (Sc_report_error ''get interface failed: port is not bound'')
     | Some w \<Rightarrow> Inr w)"

definition slave_before_end_of_elaboration :: "string \<Rightarrow> cworld option \<Rightarrow> world \<Rightarrow> (cworld \<times> world) res" where
  "slave_before_end_of_elaboration portName sim_control sw =
     bindr (get_interface sim_control) (\<lambda>w.
     bindr (getSlavePort portName w) (\<lambda>(p, w).
     bindr (bindToTransactor portName (sw\<lparr>w_port := c_slave w p\<rparr>)) (\<lambda>sw.
       Inr (w\<lparr>c_slave := (c_slave w)(p := w_port sw)\<rparr>, sw))))"

definition multi_before_end_of_elaboration ::
    "slave_transactor_multi \<Rightarrow> cworld option \<Rightarrow> world \<Rightarrow> (cworld \<times> world) res" where
  "multi_before_end_of_elaboration tm sim_control sw =
     bindr (get_interface sim_control) (\<lambda>w.
     bindr (getSlavePort (stm_portName tm) w) (\<lambda>(p, w).
     bindr (bindToTransactor_multi tm (sw\<lparr>w_port := c_slave w p\<rparr>)) (\<lambda>sw.
       Inr (w\<lparr>c_slave := (c_slave w)(p := w_port sw)\<rparr>, sw))))"

definition master_before_end_of_elaboration ::
    "master_env \<Rightarrow> string \<Rightarrow> cworld option \<Rightarrow> mworld \<Rightarrow> (cworld \<times> mworld) res" where
  "master_before_end_of_elaboration E portName sim_control mw =
     bindr (get_interface sim_control) (\<lambda>w.
     bindr (getMasterPort portName w) (\<lambda>p.
     bindr (mp_bindToTransactor E portName (mw\<lparr>m_port := c_master w p\<rparr>)) (\<lambda>mw.
       Inr (w\<lparr>c_master := (c_master w)(p := m_port mw)\<rparr>, mw))))"

end
