(* ===== verification/Gem5_Wrapper.thy ===== *)
theory Gem5_Wrapper
  imports Sim_Control Txn_Router Simple_Bus
begin

text \<open>
  \<open>Gem5Wrapper\<close> of \<open>gem5_wrapper.{hh,cc}\<close>: the top class that creates the control, the transactors, the
  routers and the bus, and connects their sockets. Objects live at addresses; the log records what has
  been bound to what, with the rules of SystemC's ports: the same interface cannot be bound to a port
  twice, and when elaboration ends each port must have exactly one. \<open>init\<close> is declared but has no
  definition.
\<close>

section \<open>State\<close>

datatype wcall =
    Bind_sim_control ptr
  | Bind_socket ptr u32 ptr
  | Bind_bus ptr u32

record gem5_wrapper =
  gw_sim_control :: bool
  gw_transactors :: "ptr list"
  txn_routers :: "(u32, ptr) smap"
  busInstance :: "ptr option"
  isBusCreated :: bool
  simControlBinded :: bool

record wworld =
  ww_instance :: bool
  ww_control :: cworld
  ww_transactor :: "ptr \<Rightarrow> slave_transactor_multi"
  ww_singleton :: "ptr option"
  ww_router :: "ptr \<Rightarrow> txn_router"
  ww_bus :: "ptr \<Rightarrow> port_mapping ptr_field list"
  ww_next :: ptr
  ww_log :: "wcall list"

definition Gem5Wrapper :: gem5_wrapper where
  "Gem5Wrapper = \<lparr>gw_sim_control = False, gw_transactors = [], txn_routers = [], busInstance = None,
     isBusCreated = False, simControlBinded = False\<rparr>"

text \<open>
  The operations take the wrapper together with the objects it reaches. \<open>getInstance\<close> hands out one
  shared wrapper, so the wrapper it returns after the first call is the current one.
\<close>

definition wrapper_getInstance :: "gem5_wrapper \<times> wworld \<Rightarrow> gem5_wrapper \<times> wworld" where
  "wrapper_getInstance = (\<lambda>(g, w).
     if \<not> ww_instance w then (Gem5Wrapper, w\<lparr>ww_instance := True\<rparr>) else (g, w))"

section \<open>Creating the parts\<close>

definition createSimControl ::
    "control_env \<Rightarrow> string \<Rightarrow> tick \<Rightarrow> string \<Rightarrow> gem5_wrapper \<times> wworld \<Rightarrow> (gem5_wrapper \<times> wworld) res" where
  "createSimControl E configFile end_tick gem5DebugFlags = (\<lambda>(g, w).
     if gw_sim_control g then Inr (g, w)
     else bindr (control_getInstance E configFile end_tick gem5DebugFlags (ww_control w)) (\<lambda>c.
       Inr (g\<lparr>gw_sim_control := True\<rparr>, w\<lparr>ww_control := c\<rparr>)))"

definition new_transactor :: "string \<Rightarrow> u32 \<Rightarrow> wworld \<Rightarrow> (ptr \<times> wworld) res" where
  "new_transactor portName num w =
     bindr (Gem5SlaveTransactor_Multi portName num) (\<lambda>tm.
       Inr (ww_next w, w\<lparr>ww_transactor := (ww_transactor w)(ww_next w := tm), ww_next := Suc (ww_next w)\<rparr>))"

definition transactor_getInstance :: "string \<Rightarrow> u32 \<Rightarrow> wworld \<Rightarrow> (ptr \<times> wworld) res" where
  "transactor_getInstance portName num w =
     (case ww_singleton w of
        None \<Rightarrow> bindr (new_transactor portName num w) (\<lambda>(p, w). Inr (p, w\<lparr>ww_singleton := Some p\<rparr>))
      | Some p \<Rightarrow> Inr (p, w))"

definition createSingletonTransactor ::
    "string \<Rightarrow> u32 \<Rightarrow> gem5_wrapper \<times> wworld \<Rightarrow> (gem5_wrapper \<times> wworld) res" where
  "createSingletonTransactor portName num = (\<lambda>(g, w).
     bindr (transactor_getInstance portName num w) (\<lambda>(p, w).
       Inr (g\<lparr>gw_transactors := gw_transactors g @ [p]\<rparr>, w)))"

definition createTransactor :: "string \<Rightarrow> u32 \<Rightarrow> gem5_wrapper \<times> wworld \<Rightarrow> (gem5_wrapper \<times> wworld) res" where
  "createTransactor portName num = (\<lambda>(g, w).
     bindr (new_transactor portName num w) (\<lambda>(p, w).
       Inr (g\<lparr>gw_transactors := gw_transactors g @ [p]\<rparr>, w)))"

definition getTransactor :: "u32 \<Rightarrow> gem5_wrapper \<Rightarrow> ptr res" where
  "getTransactor transactor_id g =
     (if \<not> unat transactor_id < length (gw_transactors g) then Inl Assert_failed
      else Inr (gw_transactors g ! unat transactor_id))"

definition createTxnRouter :: "u32 \<Rightarrow> u64 \<Rightarrow> u64 \<Rightarrow> gem5_wrapper \<times> wworld \<Rightarrow> ptr \<times> gem5_wrapper \<times> wworld" where
  "createTxnRouter i start len = (\<lambda>(g, w).
     (ww_next w, g\<lparr>txn_routers := smap_insert i (ww_next w) (txn_routers g)\<rparr>,
      w\<lparr>ww_router := (ww_router w)(ww_next w := TxnRouter start len), ww_next := Suc (ww_next w)\<rparr>))"

definition createSimpleBus :: "u64 \<Rightarrow> u64 \<Rightarrow> gem5_wrapper \<times> wworld \<Rightarrow> (ptr \<times> gem5_wrapper \<times> wworld) res" where
  "createSimpleBus start finish = (\<lambda>(g, w).
     case (isBusCreated g, busInstance g) of
       (True, Some b) \<Rightarrow> Inr (b, g, w)
     | _ \<Rightarrow>
         bindr (PortMapping start finish) (\<lambda>m. Inr (ww_next w,
           g\<lparr>busInstance := Some (ww_next w), isBusCreated := True\<rparr>,
           w\<lparr>ww_bus := (ww_bus w)(ww_next w := [Obj m]), ww_next := Suc (ww_next w)\<rparr>)))"

section \<open>Connecting the parts\<close>

text \<open>\<open>bind\<close> of a port or socket: an interface that is bound to the port already is an error.\<close>

definition sc_bind :: "wcall \<Rightarrow> wworld \<Rightarrow> wworld res" where
  "sc_bind c w =
     (if c \<in> set (ww_log w) then Inl (Sc_report_error ''bind interface to port failed: interface already bound to port'')
      else Inr (w\<lparr>ww_log := ww_log w @ [c]\<rparr>))"

fun bind_controls :: "ptr list \<Rightarrow> wworld \<Rightarrow> wworld res" where
  "bind_controls [] w = Inr w"
| "bind_controls (t # ts) w = bindr (sc_bind (Bind_sim_control t) w) (bind_controls ts)"

definition bindSimControl2Transactor :: "gem5_wrapper \<times> wworld \<Rightarrow> (gem5_wrapper \<times> wworld) res" where
  "bindSimControl2Transactor = (\<lambda>(g, w).
     if \<not> gw_sim_control g then Inr (g, w)
     else if simControlBinded g then Inr (g, w)
     else bindr (bind_controls (gw_transactors g) w) (\<lambda>w. Inr (g\<lparr>simControlBinded := True\<rparr>, w)))"

definition bindTxnRouter2Transactor ::
    "u32 \<Rightarrow> u32 \<Rightarrow> u32 \<Rightarrow> gem5_wrapper \<times> wworld \<Rightarrow> wworld res" where
  "bindTxnRouter2Transactor txn_id socket_id transactor_id = (\<lambda>(g, w).
     bindr (getTransactor transactor_id g) (\<lambda>t.
       if \<not> socket_id < getSocketNum (ww_transactor w t) then Inl Assert_failed
       else case smap_find txn_id (txn_routers g) of
              Some r \<Rightarrow> sc_bind (Bind_socket t socket_id r) w
            | None \<Rightarrow> Inr w))"

text \<open>The bus has two target sockets in an array that the index is not checked against.\<close>

definition bindTxnRouter2Bus :: "u32 \<Rightarrow> u32 \<Rightarrow> gem5_wrapper \<times> wworld \<Rightarrow> wworld res" where
  "bindTxnRouter2Bus txn_id socket_id = (\<lambda>(g, w).
     if busInstance g = None then Inl Assert_failed
     else case smap_find txn_id (txn_routers g) of
            Some r \<Rightarrow> if unat socket_id < 2 then sc_bind (Bind_bus r socket_id) w
                      else Inl (Undefined_behaviour ''tsocks'')
          | None \<Rightarrow> Inr w)"

definition bindBus2Memory :: "gem5_wrapper \<times> wworld \<Rightarrow> gem5_wrapper \<times> wworld" where
  "bindBus2Memory s = s"

section \<open>Elaboration\<close>

text \<open>
  The control that a transactor reaches through its port, and what SystemC demands of the sockets of a
  transactor when elaboration ends: each is bound to one router, whose target socket is bound once.
\<close>

definition sim_control_port :: "wworld \<Rightarrow> ptr \<Rightarrow> cworld option" where
  "sim_control_port w t = (if Bind_sim_control t \<in> set (ww_log w) then Some (ww_control w) else None)"

fun at_socket :: "ptr \<Rightarrow> u32 \<Rightarrow> wcall \<Rightarrow> bool" where
  "at_socket t k (Bind_socket t' k' r) \<longleftrightarrow> t' = t \<and> k' = k"
| "at_socket t k _ \<longleftrightarrow> False"

fun at_router :: "ptr \<Rightarrow> wcall \<Rightarrow> bool" where
  "at_router r (Bind_socket t k r') \<longleftrightarrow> r' = r"
| "at_router r _ \<longleftrightarrow> False"

definition sockets_complete :: "wworld \<Rightarrow> ptr \<Rightarrow> bool" where
  "sockets_complete w t \<longleftrightarrow> list_all (\<lambda>i.
     case filter (at_socket t (of_nat i)) (ww_log w) of
       [Bind_socket _ _ r] \<Rightarrow> length (filter (at_router r) (ww_log w)) = 1
     | _ \<Rightarrow> False) [0..<unat (getSocketNum (ww_transactor w t))]"

text \<open>The transactor's callback, and then the check of its ports.\<close>

definition elaborate_transactor :: "ptr \<Rightarrow> wworld \<Rightarrow> world \<Rightarrow> (cworld \<times> world) res" where
  "elaborate_transactor t w sw =
     bindr (multi_before_end_of_elaboration (ww_transactor w t) (sim_control_port w t) sw) (\<lambda>r.
       if sockets_complete w t then Inr r else Inl (Sc_report_error ''complete binding failed''))"

section \<open>Properties\<close>

text \<open>
  A router id can be used once. The first router created under an id is the one that binding uses.
  Creating another under the same id returns a new router, but the wrapper keeps the old one: the
  returned router is never connected by that id, and nothing reports the clash.
\<close>

theorem router_id_keeps_first:
  assumes "smap_ok (txn_routers g)" and "smap_find i (txn_routers g) = None"
    and "createTxnRouter i start len (g, w) = (r1, g1, w1)"
    and "createTxnRouter i start' len' (g1, w1) = (r2, g2, w2)"
    and "unat k < length (gw_transactors g)" and "t = gw_transactors g ! unat k"
    and "socket < getSocketNum (ww_transactor w t)" and "Bind_socket t socket (ww_next w) \<notin> set (ww_log w)"
  shows "r1 \<noteq> r2 \<and> smap_find i (txn_routers g2) = Some r1
    \<and> bindTxnRouter2Transactor i socket k (g1, w1) = Inr (w1\<lparr>ww_log := ww_log w1 @ [Bind_socket t socket r1]\<rparr>)
    \<and> bindTxnRouter2Transactor i socket k (g2, w2) = Inr (w2\<lparr>ww_log := ww_log w2 @ [Bind_socket t socket r1]\<rparr>)"
  using assms
  by (auto simp: createTxnRouter_def bindTxnRouter2Transactor_def getTransactor_def sc_bind_def smap_laws)

definition demo_wworld :: wworld where
  "demo_wworld = \<lparr>ww_instance = False,
     ww_control = \<lparr>c_control = \<lparr>simulationEnd = 0, slavePorts = [], masterPorts = [], cpuPorts = []\<rparr>,
       c_slave = (\<lambda>_. SCSlavePort), c_master = (\<lambda>_. SCMasterPort), c_next = 0, c_instance = False, c_queues = 0, c_log = []\<rparr>,
     ww_transactor = (\<lambda>_. \<lparr>stm_sockets = [''p0'', ''p1''], socket_core_map = [], stm_portName = ''p'',
       stm_socket_num = 2, stm_count = 2\<rparr>), ww_singleton = None, ww_router = (\<lambda>_. TxnRouter 0 0), ww_bus = (\<lambda>_. []),
     ww_next = 1, ww_log = []\<rparr>"

theorem router_id_keeps_first_witness:
  "\<exists>g1 w1 g2 w2. createTxnRouter 5 0 64 (Gem5Wrapper\<lparr>gw_transactors := [0]\<rparr>, demo_wworld) = (1, g1, w1)
     \<and> createTxnRouter 5 64 64 (g1, w1) = (2, g2, w2)
     \<and> bindTxnRouter2Transactor 5 1 0 (g2, w2) = Inr (w2\<lparr>ww_log := ww_log w2 @ [Bind_socket 0 1 1]\<rparr>)"
proof -
  let ?g = "Gem5Wrapper\<lparr>gw_transactors := [0]\<rparr>"
  obtain r1 g1 w1 where c1: "createTxnRouter 5 0 64 (?g, demo_wworld) = (r1, g1, w1)" by (rule prod_cases3)
  obtain r2 g2 w2 where c2: "createTxnRouter 5 64 64 (g1, w1) = (r2, g2, w2)" by (rule prod_cases3)
  have "r1 = 1" "r2 = 2" using c1 c2 by (auto simp: createTxnRouter_def demo_wworld_def)
  moreover have "bindTxnRouter2Transactor 5 1 0 (g2, w2) = Inr (w2\<lparr>ww_log := ww_log w2 @ [Bind_socket 0 1 r1]\<rparr>)"
    using router_id_keeps_first [OF _ _ c1 c2, of 0 0 1]
    by (simp add: Gem5Wrapper_def demo_wworld_def getSocketNum_def)
  ultimately show ?thesis using c1 c2 by blast
qed

end
