(* ===== verification/Socket_Config.thy ===== *)
theory Socket_Config
  imports Slave_Binding
begin

text \<open>
  Binding a slave port to a transactor with a socket configuration: \<open>setSocketCoreMap\<close> assigns lists of
  core numbers to sockets, several cores may share a socket, and core numbers that do not exist are
  skipped. The map that \<open>initSocketMap\<close> builds step by step is the table read off the configuration,
  and requestors are routed as the configuration says.
\<close>

section \<open>What a configuration means\<close>

text \<open>Core numbers are positions in the order of the core names; a negative number is out of range.\<close>

definition core_number :: "int \<Rightarrow> nat" where
  "core_number c = unat (word_of_int c :: u64)"

definition valid_core :: "(string, nat list) smap \<Rightarrow> int \<Rightarrow> bool" where
  "valid_core m c \<longleftrightarrow> core_number c < length m"

definition core_ids :: "(string, nat list) smap \<Rightarrow> int \<Rightarrow> nat list" where
  "core_ids m c = snd (m ! core_number c)"

definition used_sockets :: "(string, nat list) smap \<Rightarrow> (u32, int list) smap \<Rightarrow> u32 list" where
  "used_sockets m cm = map fst (filter (\<lambda>(s, cs). \<exists>c \<in> set cs. valid_core m c) cm)"

definition config_table :: "(string, nat list) smap \<Rightarrow> (u32, int list) smap \<Rightarrow> (u32, nat list) smap" where
  "config_table m cm = map (\<lambda>(s, cs). (s, concat (map (core_ids m) (filter (valid_core m) cs))))
     (filter (\<lambda>(s, cs). \<exists>c \<in> set cs. valid_core m c) cm)"

text \<open>The lowest socket with a core that owns the requestor id, or socket 0.\<close>

definition configured_socket :: "(string, nat list) smap \<Rightarrow> (u32, int list) smap \<Rightarrow> nat \<Rightarrow> u32" where
  "configured_socket m cm r =
     (case find (\<lambda>(s, cs). \<exists>c \<in> set cs. valid_core m c \<and> r \<in> set (core_ids m c)) cm of
        Some (s, cs) \<Rightarrow> s | None \<Rightarrow> 0)"

lemma keys_config_table: "smap_keys (config_table m cm) = used_sockets m cm"
  by (simp add: smap_keys_def config_table_def used_sockets_def case_prod_beta comp_def)

lemma find_config_table:
  "(case find (\<lambda>(s, ids). r \<in> set ids) (config_table m cm) of Some (s, ids) \<Rightarrow> s | None \<Rightarrow> 0) = configured_socket m cm r"
  unfolding configured_socket_def
  by (induction cm) (auto simp: config_table_def)

section \<open>The map is built as configured\<close>

lemma smap_find_nth: "smap_ok m \<Longrightarrow> i < length m \<Longrightarrow> smap_find (smap_keys m ! i) m = Some (snd (m ! i))"
  using smap_ok_find_set [of m "fst (m ! i)" "snd (m ! i)"] by (simp add: smap_keys_def)

lemma smap_assign_last:
  assumes "\<forall>k' \<in> set (smap_keys sm). k' < k"
  shows "smap_assign k v sm = sm @ [(k, v)]" and "smap_assign k v (sm @ [(k, u)]) = sm @ [(k, v)]"
    and "smap_find k sm = None" and "smap_find k (sm @ [(k, u)]) = Some u"
  using assms by (induction k v sm rule: smap_assign.induct) auto

definition knows_cores :: "(string, nat list) smap \<Rightarrow> slave_port \<Rightarrow> bool" where
  "knows_cores m p \<longleftrightarrow> smap_ok m \<and> cpu_vec p = smap_keys m \<and> cpu_port_map p = m"

lemma add_core:
  assumes "knows_cores m p" and "\<forall>k \<in> set (smap_keys sm). k < s"
  shows "\<not> valid_core m c \<Longrightarrow> socket_map_add_core s c p = p"
    and "valid_core m c \<Longrightarrow> socket_map p = sm \<Longrightarrow>
      socket_map_add_core s c p = p\<lparr>socket_map := sm @ [(s, core_ids m c)]\<rparr>"
    and "valid_core m c \<Longrightarrow> socket_map p = sm @ [(s, ids)] \<Longrightarrow>
      socket_map_add_core s c p = p\<lparr>socket_map := sm @ [(s, ids @ core_ids m c)]\<rparr>"
  using assms smap_find_nth [of m "core_number c"] smap_assign_last [OF assms(2)]
  by (simp_all add: socket_map_add_core_def knows_cores_def valid_core_def core_ids_def core_number_def [symmetric]
      smap_index_def smap_keys_def [of m])

lemma add_cores_open:
  assumes "knows_cores m p" and "\<forall>k \<in> set (smap_keys sm). k < s" and "socket_map p = sm @ [(s, ids)]"
  shows "fold (socket_map_add_core s) cs p =
    p\<lparr>socket_map := sm @ [(s, ids @ concat (map (core_ids m) (filter (valid_core m) cs)))]\<rparr>"
  using assms
proof (induction cs arbitrary: ids p)
  case (Cons c cs)
  show ?case
  proof (cases "valid_core m c")
    case True
    let ?p = "p\<lparr>socket_map := sm @ [(s, ids @ core_ids m c)]\<rparr>"
    have "knows_cores m ?p" using Cons.prems(1) by (simp add: knows_cores_def)
    then show ?thesis using Cons.IH [of ?p "ids @ core_ids m c"] Cons.prems add_core(3) True by simp
  qed (use Cons add_core(1) in simp)
qed simp

lemma add_cores:
  assumes "knows_cores m p" and "\<forall>k \<in> set (smap_keys (socket_map p)). k < s"
  shows "fold (socket_map_add_core s) cs p =
    p\<lparr>socket_map := socket_map p @ config_table m [(s, cs)]\<rparr>"
  using assms
proof (induction cs)
  case (Cons c cs)
  show ?case
  proof (cases "valid_core m c")
    case True
    let ?p = "p\<lparr>socket_map := socket_map p @ [(s, core_ids m c)]\<rparr>"
    have "knows_cores m ?p" using Cons.prems(1) by (simp add: knows_cores_def)
    from add_cores_open [OF this Cons.prems(2), of "core_ids m c" cs] show ?thesis
      using add_core(2) [OF Cons.prems True] True by (simp add: config_table_def)
  next
    case False
    then show ?thesis using Cons add_core(1) [OF Cons.prems] by (simp add: config_table_def)
  qed
qed (simp add: config_table_def)

lemma socket_map_configured_table:
  assumes "knows_cores m p" and "smap_ok cm" and "\<forall>k \<in> set (smap_keys (socket_map p)). \<forall>s \<in> set (smap_keys cm). k < s"
  shows "socket_map_configured cm p = p\<lparr>socket_map := socket_map p @ config_table m cm\<rparr>"
  using assms
proof (induction cm arbitrary: p)
  case (Cons e cm)
  obtain s cs where e: "e = (s, cs)" by (cases e)
  let ?p = "p\<lparr>socket_map := socket_map p @ config_table m [(s, cs)]\<rparr>"
  have keys: "set (smap_keys (socket_map ?p)) \<subseteq> insert s (set (smap_keys (socket_map p)))"
    by (auto simp: smap_keys_def config_table_def)
  have "socket_map_configured cm ?p = ?p\<lparr>socket_map := socket_map ?p @ config_table m cm\<rparr>"
    by (rule Cons.IH) (use Cons.prems keys e in \<open>auto simp: knows_cores_def\<close>)
  moreover have "fold (socket_map_add_core s) cs p = ?p"
    using Cons.prems e by (intro add_cores) simp_all
  ultimately show ?case by (simp add: e config_table_def)
qed (simp add: config_table_def)

section \<open>Binding\<close>

definition consecutive :: "u32 list \<Rightarrow> bool" where
  "consecutive ss \<longleftrightarrow> ss = map of_nat [0..<length ss]"

text \<open>The numbers below the length of an ascending list are all in it only if they are the list.\<close>

lemma consecutive_iff:
  assumes "sorted_wrt (<) ss" and "length ss < 2 ^ 32"
  shows "consecutive ss \<longleftrightarrow> (\<forall>s \<in> set ss. s < of_nat (length ss))"
proof -
  let ?n = "length ss"
  have n: "unat (of_nat ?n :: u32) = ?n" using assms(2) by (rule word_less_of_nat_u32)
  have lt: "unat (of_nat i :: u32) = i" if "i < ?n" for i using that assms(2) by (intro word_less_of_nat_u32) simp
  have "ss = map of_nat [0..<?n]" if "\<forall>s \<in> set ss. s < of_nat ?n"
  proof -
    have sorted: "sorted_wrt (<) (map unat ss)" using assms(1) by (simp add: sorted_wrt_map word_less_nat_alt [abs_def])
    then have "card (set (map unat ss)) = ?n" using distinct_card [of "map unat ss"] by (simp add: strict_sorted_iff)
    moreover have "set (map unat ss) \<subseteq> {0..<?n}" using that n by (auto simp: word_less_nat_alt)
    ultimately have "set (map unat ss) = set [0..<?n]" by (simp add: card_subset_eq)
    then have "map unat ss = [0..<?n]" using sorted by (intro strict_sorted_equal) simp_all
    then have "map of_nat (map unat ss) = (map of_nat [0..<?n] :: u32 list)" by simp
    then show ?thesis by (simp add: comp_def)
  qed
  moreover have "\<forall>s \<in> set (map of_nat [0..<?n]). (s :: u32) < of_nat ?n"
    using lt n by (auto simp: word_less_nat_alt)
  ultimately show ?thesis unfolding consecutive_def by metis
qed

lemma used_sockets_ok: "smap_ok cm \<Longrightarrow> sorted_wrt (<) (used_sockets m cm)" "length (used_sockets m cm) \<le> length cm"
  by (auto simp: used_sockets_def smap_ok_def smap_keys_def sorted_wrt_map sorted_wrt_filter)

lemma configured_known:
  assumes "smap_ok cm" and ss: "ss = used_sockets m cm" and "consecutive ss" "ss \<noteq> []" "length ss < 2 ^ 32"
  shows "configured_socket m cm r < of_nat (length ss)"
proof -
  have lt: "s \<in> set ss \<Longrightarrow> s < of_nat (length ss)" for s
    using consecutive_iff [of ss] used_sockets_ok(1) [OF assms(1)] assms(3,5) ss by auto
  show ?thesis
  proof (cases "find (\<lambda>(s, ids). r \<in> set ids) (config_table m cm)")
    case None
    have "0 \<in> set (map of_nat [0..<length ss] :: u32 list)" using assms(4) by (auto simp: image_iff intro!: bexI [of _ 0])
    then have "0 \<in> set ss" using assms(3) unfolding consecutive_def by metis
    then show ?thesis using None lt find_config_table [of r m cm] by auto
  next
    case (Some e)
    then have "e \<in> set (config_table m cm)" unfolding find_Some_iff by (metis nth_mem)
    then have "fst e \<in> set (smap_keys (config_table m cm))" by (simp add: smap_keys_def)
    then have "fst e \<in> set ss" by (simp add: keys_config_table ss)
    then show ?thesis using Some lt find_config_table [of r m cm] by (auto split: prod.splits)
  qed
qed

lemma length_config_table: "length (config_table m cm) = length (used_sockets m cm)"
  using keys_config_table [of m cm] by (metis length_map smap_keys_def)

lemma init_configured:
  assumes "smap_ok m" and "cm = socket_core_map tm" "cm \<noteq> []" "smap_ok cm"
  shows "initSocketMap ((fresh_port m)\<lparr>transactor_multi := Obj tm\<rparr>) =
    Inr ((fresh_port m)\<lparr>transactor_multi := Obj tm, socket_map := config_table m cm\<rparr>)"
proof -
  let ?p = "(fresh_port m)\<lparr>transactor_multi := Obj tm\<rparr>"
  have fresh: "knows_cores m ?p" "socket_map ?p = []" "transactor_multi ?p = Obj tm"
    using assms(1) by (simp_all add: knows_cores_def fresh_port_def updateCorePortMap_def SCSlavePort_def)
  show ?thesis
    using socket_map_configured_table [OF fresh(1) assms(4)] fresh(2,3) assms(2,3)
    by (simp add: initSocketMap_def getSocketCoreMap_def)
qed

text \<open>
  Both ways to configure a transactor: without a configuration each core has its own socket. The
  number of sockets that the blocking helper knows, and when every requestor is routed to one of them.
\<close>

definition socket_count :: "(string, nat list) smap \<Rightarrow> slave_transactor_multi \<Rightarrow> nat" where
  "socket_count m tm =
     (if socket_core_map tm = [] then length m else length (used_sockets m (socket_core_map tm)))"

definition config_ok :: "(string, nat list) smap \<Rightarrow> slave_transactor_multi \<Rightarrow> bool" where
  "config_ok m tm \<longleftrightarrow> smap_ok m \<and> smap_ok (socket_core_map tm) \<and> 0 < socket_count m tm \<and> socket_count m tm < 2 ^ 32 - 1
     \<and> (socket_core_map tm \<noteq> [] \<longrightarrow> consecutive (used_sockets m (socket_core_map tm)))"

lemma bind_served:
  assumes w: "w_port w = fresh_port m" and pool: "pool_ok {} (w_pool w)" and ok: "config_ok m tm"
    and n: "n = of_nat (socket_count m tm)"
  obtains w' where "bindToTransactor_multi tm w = Inr w'" and "port_ok n Map.empty w'"
    and "\<forall>r. getSocketId r (w_port w') < n" and "transactor (w_port w') = None" "transactor_multi (w_port w') = Obj tm"
    and "w_events w' = w_events w" "w_curTick w' = w_curTick w" "w_now w' = w_now w"
    and "\<forall>ty k. blocking (helper w') ty k = None"
proof -
  define sm where "sm = (if socket_core_map tm = [] then numbered 0 m else config_table m (socket_core_map tm))"
  define p where "p = (fresh_port m)\<lparr>transactor_multi := Obj tm, socket_map := sm\<rparr>"
  have c: "smap_ok m" "smap_ok (socket_core_map tm)" "socket_count m tm < 2 ^ 32 - 1" using ok by (simp_all add: config_ok_def)
  have init: "initSocketMap ((fresh_port m)\<lparr>transactor_multi := Obj tm\<rparr>) = Inr p"
    using init_default [of tm m] init_configured [OF c(1) refl _ c(2)] c(3) by (auto simp: p_def sm_def socket_count_def)
  have len: "length sm = socket_count m tm" by (simp add: sm_def socket_count_def length_config_table)
  obtain w' where w': "bindToTransactor_multi tm w = Inr w'" "port_ok n Map.empty w'"
      "w_port w' = p\<lparr>blk_pkt_helper := helper w'\<rparr>" "w_curTick w' = w_curTick w" "w_now w' = w_now w"
      "w_events w' = w_events w" "\<forall>ty k. blocking (helper w') ty k = None"
    by (rule bind_fresh [OF w pool init, of n]) (use of_nat_u32_not_max [OF c(3)] in \<open>simp_all add: p_def len n\<close>)
  have port: "socket_map (w_port w') = sm" "\<not> usingGem5Cache (w_port w')" "transactor (w_port w') = None"
      "transactor_multi (w_port w') = Obj tm"
    by (subst w'(3), simp add: p_def fresh_port_def updateCorePortMap_def SCSlavePort_def)+
  have "getSocketId r (w_port w') < n" for r
  proof (cases "socket_core_map tm = []")
    case True
    then show ?thesis
      using core_index_known [of m r] ok port(1,2)
      by (cases "core_index r m") (auto simp: getSocketId_def sm_def find_numbered n socket_count_def config_ok_def)
  next
    case False
    then show ?thesis
      using configured_known [OF c(2) refl, of m r] ok port(1,2) find_config_table [of r m "socket_core_map tm"]
      by (auto simp: getSocketId_def sm_def n socket_count_def config_ok_def split: option.splits)
  qed
  then show thesis using that w' port(3,4) by blast
qed

text \<open>
  C33: binding a fresh port to a transactor with a socket configuration returns. The port satisfies the
  ownership invariant with one entry per socket that has an existing core, and every requestor is
  routed to the lowest socket whose configuration lists a core that owns it. The sockets in use are
  all known to the blocking helper exactly when they are numbered from 0 without gaps; then every
  requestor is routed to a known socket.
\<close>

theorem bind_configured:
  assumes w: "w_port w = fresh_port m" "smap_ok m" and pool: "pool_ok {} (w_pool w)"
    and cm: "cm = socket_core_map tm" "cm \<noteq> []" "smap_ok cm" "length cm < 2 ^ 32 - 1"
    and ss: "ss = used_sockets m cm"
  shows "\<exists>w'. bindToTransactor_multi tm w = Inr w' \<and> port_ok (of_nat (length ss)) Map.empty w'
     \<and> socket_map (w_port w') = config_table m cm
     \<and> (\<forall>r. getSocketId r (w_port w') = configured_socket m cm r)
     \<and> ((\<forall>s \<in> set ss. s < of_nat (length ss)) \<longleftrightarrow> consecutive ss)
     \<and> (consecutive ss \<and> ss \<noteq> [] \<longrightarrow> (\<forall>r. getSocketId r (w_port w') < of_nat (length ss)))"
proof -
  define p where "p = (fresh_port m)\<lparr>transactor_multi := Obj tm, socket_map := config_table m cm\<rparr>"
  have len: "length ss < 2 ^ 32 - 1" using used_sockets_ok(2) [of m cm] cm(4) ss by simp
  obtain w' where w': "bindToTransactor_multi tm w = Inr w'" "port_ok (of_nat (length ss)) Map.empty w'"
      "w_port w' = p\<lparr>blk_pkt_helper := helper w'\<rparr>"
    by (rule bind_fresh [OF w(1) pool init_configured [OF w(2) cm(1-3)] _ of_nat_u32_not_max [OF len]])
      (simp_all add: p_def length_config_table ss)
  have sm: "socket_map (w_port w') = config_table m cm" "\<not> usingGem5Cache (w_port w')"
    by (subst w'(3), simp add: p_def fresh_port_def updateCorePortMap_def SCSlavePort_def)+
  have "getSocketId r (w_port w') = configured_socket m cm r" for r
    using sm find_config_table [of r m cm] by (auto simp: getSocketId_def split: option.splits)
  moreover have "(\<forall>s \<in> set ss. s < of_nat (length ss)) \<longleftrightarrow> consecutive ss"
    using consecutive_iff [of ss] used_sockets_ok(1) [OF cm(3)] len ss by auto
  ultimately show ?thesis using w'(1,2) sm(1) configured_known [OF cm(3) ss] len by auto
qed

text \<open>Three cores on two sockets, and a core number that does not exist.\<close>

definition demo_three_cores :: "(string, nat list) smap" where
  "demo_three_cores = [(''cpu0'', [1, 2]), (''cpu1'', [4]), (''cpu2'', [5, 6])]"

definition demo_shared :: slave_transactor_multi where
  "demo_shared = setSocketCoreMap [(0, [1]), (1, [0, 2, 7])] demo_tm"

theorem bind_configured_witness:
  "\<exists>w'. bindToTransactor_multi demo_shared (demo_start\<lparr>w_port := fresh_port demo_three_cores\<rparr>) = Inr w'
     \<and> port_ok 2 Map.empty w' \<and> getSocketId 4 (w_port w') = 0 \<and> getSocketId 6 (w_port w') = 1
     \<and> (\<forall>r. getSocketId r (w_port w') < 2)"
proof -
  let ?cm = "socket_core_map demo_shared" and ?w = "demo_start\<lparr>w_port := fresh_port demo_three_cores\<rparr>"
  have ss: "used_sockets demo_three_cores ?cm = [0, 1]"
    by (simp add: used_sockets_def valid_core_def core_number_def demo_three_cores_def demo_shared_def setSocketCoreMap_def)
  have "configured_socket demo_three_cores ?cm 4 = 0" "configured_socket demo_three_cores ?cm 6 = 1"
    by (simp_all add: configured_socket_def valid_core_def core_ids_def core_number_def demo_three_cores_def demo_shared_def
        setSocketCoreMap_def)
  moreover have "consecutive [0, 1]" by (simp add: consecutive_def)
  moreover have "smap_ok demo_three_cores" by code_simp
  moreover have "?cm \<noteq> []" "smap_ok ?cm" "length ?cm < 2 ^ 32 - 1" "pool_ok {} (w_pool ?w)"
    by (simp_all add: demo_shared_def setSocketCoreMap_def demo_start_def pool_ok_empty)
  ultimately show ?thesis
    using bind_configured [of ?w demo_three_cores ?cm demo_shared "[0, 1]"] ss by auto
qed

end
