(* ===== verification/Wrapper_Properties.thy ===== *)
theory Wrapper_Properties
  imports Gem5_Wrapper Socket_Config Co_Simulation_Properties
begin

text \<open>
  The construction of a simulation through \<open>Gem5Wrapper\<close>, as sequences of its operations in any order:
  what holds of the objects and of the connections in every state that can be reached, which
  transactors are left without a control, and that elaboration turns a connected transactor into the
  initial state of the composed system of port and routers.
\<close>

section \<open>Sequences of operations\<close>

text \<open>\<open>Configure\<close> is a call of \<open>setSocketCoreMap\<close> on a transactor obtained from the wrapper.\<close>

inductive wrapper_step :: "gem5_wrapper \<times> wworld \<Rightarrow> gem5_wrapper \<times> wworld \<Rightarrow> bool" where
  Control: "createSimControl E configFile end_tick flags s = Inr s' \<Longrightarrow> wrapper_step s s'"
| Singleton: "createSingletonTransactor portName num s = Inr s' \<Longrightarrow> wrapper_step s s'"
| Transactor: "createTransactor portName num s = Inr s' \<Longrightarrow> wrapper_step s s'"
| Configure: "getTransactor i g = Inr t \<Longrightarrow>
    wrapper_step (g, w) (g, w\<lparr>ww_transactor := (ww_transactor w)(t := setSocketCoreMap m (ww_transactor w t))\<rparr>)"
| Router: "createTxnRouter i start len s = (r, s') \<Longrightarrow> wrapper_step s s'"
| Bus: "createSimpleBus start finish s = Inr (b, s') \<Longrightarrow> wrapper_step s s'"
| Bind_control: "bindSimControl2Transactor s = Inr s' \<Longrightarrow> wrapper_step s s'"
| Bind_router: "bindTxnRouter2Transactor i k j (g, w) = Inr w' \<Longrightarrow> wrapper_step (g, w) (g, w')"
| Bind_router_bus: "bindTxnRouter2Bus i k (g, w) = Inr w' \<Longrightarrow> wrapper_step (g, w) (g, w')"
| Bind_memory: "wrapper_step s (bindBus2Memory s)"

inductive_cases wrapper_stepE: "wrapper_step s s'"

definition wrapper_start :: "gem5_wrapper \<times> wworld \<Rightarrow> bool" where
  "wrapper_start s \<longleftrightarrow> (\<exists>g w. \<not> ww_instance w \<and> ww_singleton w = None \<and> ww_log w = [] \<and> s = wrapper_getInstance (g, w))"

definition built :: "gem5_wrapper \<times> wworld \<Rightarrow> bool" where
  "built s \<longleftrightarrow> (\<exists>s0. wrapper_start s0 \<and> wrapper_step\<^sup>*\<^sup>* s0 s)"

section \<open>The invariant\<close>

definition transactor_ok :: "slave_transactor_multi \<Rightarrow> bool" where
  "transactor_ok tm \<longleftrightarrow> stm_portName tm \<noteq> [] \<and> length (stm_sockets tm) = unat (getSocketNum tm) \<and> distinct (stm_sockets tm)"

fun link_ok :: "gem5_wrapper \<Rightarrow> wworld \<Rightarrow> wcall \<Rightarrow> bool" where
  "link_ok g w (Bind_sim_control t) \<longleftrightarrow> gw_sim_control g \<and> simControlBinded g \<and> t \<in> set (gw_transactors g)"
| "link_ok g w (Bind_socket t k r) \<longleftrightarrow>
     t \<in> set (gw_transactors g) \<and> k < getSocketNum (ww_transactor w t) \<and> r \<in> snd ` set (txn_routers g)"
| "link_ok g w (Bind_bus r k) \<longleftrightarrow> unat k < 2 \<and> busInstance g \<noteq> None \<and> r \<in> snd ` set (txn_routers g)"

definition transactors_ok :: "gem5_wrapper \<Rightarrow> wworld \<Rightarrow> bool" where
  "transactors_ok g w \<longleftrightarrow> (\<forall>t \<in> set (gw_transactors g) \<union> set_option (ww_singleton w).
     t < ww_next w \<and> transactor_ok (ww_transactor w t))"

definition routers_ok :: "gem5_wrapper \<Rightarrow> wworld \<Rightarrow> bool" where
  "routers_ok g w \<longleftrightarrow> smap_ok (txn_routers g) \<and> distinct (map snd (txn_routers g))
   \<and> (\<forall>r \<in> snd ` set (txn_routers g). r < ww_next w \<and> (\<exists>start len. ww_router w r = TxnRouter start len))"

definition bus_ok :: "gem5_wrapper \<Rightarrow> wworld \<Rightarrow> bool" where
  "bus_ok g w \<longleftrightarrow> (isBusCreated g \<longleftrightarrow> busInstance g \<noteq> None)
   \<and> (\<forall>b \<in> set_option (busInstance g). b < ww_next w \<and> (\<exists>m. ww_bus w b = [Obj m]))"

definition wrapper_ok :: "gem5_wrapper \<times> wworld \<Rightarrow> bool" where
  "wrapper_ok = (\<lambda>(g, w). transactors_ok g w \<and> routers_ok g w \<and> bus_ok g w
     \<and> (simControlBinded g \<longrightarrow> gw_sim_control g) \<and> (\<forall>c \<in> set (ww_log w). link_ok g w c) \<and> distinct (ww_log w))"

lemma new_transactor_ok:
  assumes "Gem5SlaveTransactor_Multi portName num = Inr tm"
  shows "transactor_ok tm"
proof -
  have "distinct (map (\<lambda>i. portName @ to_string i) [0..<unat num])"
    by (simp add: distinct_map inj_on_def to_string_inject)
  with assms show ?thesis
    by (auto simp: Gem5SlaveTransactor_Multi_def init_sockets_names transactor_ok_def getSocketNum_def split: if_splits)
qed

lemma new_transactor_result:
  assumes "new_transactor portName num w = Inr (p, w')"
  obtains tm where "transactor_ok tm" and "p = ww_next w"
    and "w' = w\<lparr>ww_transactor := (ww_transactor w)(ww_next w := tm), ww_next := Suc (ww_next w)\<rparr>"
  using assms new_transactor_ok by (auto simp: new_transactor_def res_simps)

lemma new_transactor_returns:
  assumes "portName \<noteq> []"
  obtains p w' where "new_transactor portName num w = Inr (p, w')"
  using assms by (simp add: new_transactor_def Gem5SlaveTransactor_Multi_def init_sockets_names del: init_sockets.simps)

lemma link_ok_mono:
  assumes "link_ok g w c" and "set (gw_transactors g) \<subseteq> set (gw_transactors g')"
    and "set (txn_routers g) \<subseteq> set (txn_routers g')" and "busInstance g \<noteq> None \<Longrightarrow> busInstance g' \<noteq> None"
    and "gw_sim_control g \<Longrightarrow> gw_sim_control g'" "simControlBinded g \<Longrightarrow> simControlBinded g'"
    and "\<And>t. t \<in> set (gw_transactors g) \<Longrightarrow> getSocketNum (ww_transactor w' t) = getSocketNum (ww_transactor w t)"
  shows "link_ok g' w' c"
  using assms by (cases c) auto

lemma set_assign_new: "smap_find k m = None \<Longrightarrow> set (smap_assign k v m) = insert (k, v) (set m)"
  by (induction k v m rule: smap_assign.induct) (auto split: if_splits)

lemma distinct_assign_new:
  "smap_find k m = None \<Longrightarrow> distinct (map snd m) \<Longrightarrow> v \<notin> snd ` set m \<Longrightarrow> distinct (map snd (smap_assign k v m))"
  by (induction k v m rule: smap_assign.induct) (auto simp: set_assign_new split: if_splits)

lemma smap_insert_fresh:
  "set m \<subseteq> set (smap_insert k v m)" "set (smap_insert k v m) \<subseteq> insert (k, v) (set m)"
  "distinct (map snd m) \<Longrightarrow> v \<notin> snd ` set m \<Longrightarrow> distinct (map snd (smap_insert k v m))"
  by (auto simp: smap_insert_def set_assign_new distinct_assign_new split: option.splits)

lemma wrapper_start_ok: "wrapper_start s \<Longrightarrow> wrapper_ok s"
  by (auto simp: wrapper_start_def wrapper_getInstance_def Gem5Wrapper_def wrapper_ok_def transactors_ok_def
      routers_ok_def bus_ok_def)

text \<open>Each part of the invariant is kept when its objects are, and addresses only grow.\<close>

lemma transactors_ok_frame:
  assumes "transactors_ok g w" and "gw_transactors g' = gw_transactors g" "ww_singleton w' = ww_singleton w"
    "ww_transactor w' = ww_transactor w" "ww_next w \<le> ww_next w'"
  shows "transactors_ok g' w'"
  using assms(1-4) less_le_trans [OF _ assms(5)] unfolding transactors_ok_def by metis

lemma routers_ok_frame:
  assumes "routers_ok g w" and "txn_routers g' = txn_routers g" "ww_router w' = ww_router w" "ww_next w \<le> ww_next w'"
  shows "routers_ok g' w'"
  using assms(1-3) less_le_trans [OF _ assms(4)] by (simp add: routers_ok_def)

lemma bus_ok_frame:
  assumes "bus_ok g w" and "busInstance g' = busInstance g" "isBusCreated g' = isBusCreated g" "ww_bus w' = ww_bus w"
    "ww_next w \<le> ww_next w'"
  shows "bus_ok g' w'"
  using assms(1-4) less_le_trans [OF _ assms(5)] by (simp add: bus_ok_def)

lemmas ok_frames = transactors_ok_frame routers_ok_frame bus_ok_frame

lemma wrapper_okD:
  assumes "wrapper_ok (g, w)"
  shows "transactors_ok g w" "routers_ok g w" "bus_ok g w" "simControlBinded g \<Longrightarrow> gw_sim_control g"
    "c \<in> set (ww_log w) \<Longrightarrow> link_ok g w c" "distinct (ww_log w)"
  using assms by (simp_all add: wrapper_ok_def)

lemma wrapper_okI:
  "transactors_ok g w \<Longrightarrow> routers_ok g w \<Longrightarrow> bus_ok g w \<Longrightarrow> (simControlBinded g \<Longrightarrow> gw_sim_control g)
   \<Longrightarrow> (\<And>c. c \<in> set (ww_log w) \<Longrightarrow> link_ok g w c) \<Longrightarrow> distinct (ww_log w) \<Longrightarrow> wrapper_ok (g, w)"
  by (simp add: wrapper_ok_def)

text \<open>A new transactor at a fresh address.\<close>

lemma wrapper_ok_new_transactor:
  assumes ok: "wrapper_ok (g, w)" and "new_transactor portName num w = Inr (p, w')"
    and sg: "sg = ww_singleton w \<or> sg = Some p"
  shows "wrapper_ok (g\<lparr>gw_transactors := gw_transactors g @ [p]\<rparr>, w'\<lparr>ww_singleton := sg\<rparr>)"
proof (rule wrapper_okI)
  let ?g = "g\<lparr>gw_transactors := gw_transactors g @ [p]\<rparr>" and ?w = "w'\<lparr>ww_singleton := sg\<rparr>"
  note D = wrapper_okD [OF ok]
  obtain tm where tm: "transactor_ok tm" "p = ww_next w"
      "w' = w\<lparr>ww_transactor := (ww_transactor w)(ww_next w := tm), ww_next := Suc (ww_next w)\<rparr>"
    by (rule new_transactor_result [OF assms(2)])
  have old: "t \<noteq> ww_next w" if "t \<in> set (gw_transactors g)" for t using that D(1) by (auto simp: transactors_ok_def)
  show "transactors_ok ?g ?w" using D(1) tm sg by (auto simp: transactors_ok_def less_Suc_eq)
  show "routers_ok ?g ?w" by (rule routers_ok_frame [OF D(2)]) (simp_all add: tm(3))
  show "bus_ok ?g ?w" by (rule bus_ok_frame [OF D(3)]) (simp_all add: tm(3))
  show "gw_sim_control ?g" if "simControlBinded ?g" using D(4) that by simp
  show "link_ok ?g ?w c" if "c \<in> set (ww_log ?w)" for c
    by (rule link_ok_mono [OF D(5)]) (use that old in \<open>auto simp: tm(3)\<close>)
  show "distinct (ww_log ?w)" using D(6) by (simp add: tm(3))
qed

text \<open>What binding does to the log, one connection or the control to every transactor.\<close>

lemma sc_bind_Inr: "sc_bind c w = Inr w' \<Longrightarrow> c \<notin> set (ww_log w) \<and> w' = w\<lparr>ww_log := ww_log w @ [c]\<rparr>"
  by (auto simp: sc_bind_def split: if_splits)


lemma bind_controls_Inr: "bind_controls ts w = Inr w' \<Longrightarrow>
    distinct ts \<and> (\<forall>t \<in> set ts. Bind_sim_control t \<notin> set (ww_log w)) \<and> w' = w\<lparr>ww_log := ww_log w @ map Bind_sim_control ts\<rparr>"
proof (induction ts arbitrary: w)
  case (Cons t ts)
  then obtain w1 where "sc_bind (Bind_sim_control t) w = Inr w1" "bind_controls ts w1 = Inr w'" by (auto simp: res_simps)
  then show ?case using Cons.IH [of w1] by (auto dest!: sc_bind_Inr)
qed simp


lemma wrapper_ok_extend:
  assumes ok: "wrapper_ok (g, w)" and "link_ok g w c" and w': "sc_bind c w = Inr w'"
  shows "wrapper_ok (g, w')"
proof (rule wrapper_okI)
  note D = wrapper_okD [OF ok] and b = sc_bind_Inr [OF w']
  show "link_ok g w' d" if "d \<in> set (ww_log w')" for d
    by (rule link_ok_mono [of g w]) (use that D(5) assms(2) b in auto)
  show "distinct (ww_log w')" using D(6) b by simp
qed (use wrapper_okD [OF ok] sc_bind_Inr [OF w'] in \<open>auto intro: ok_frames\<close>)

lemma wrapper_ok_control:
  assumes "wrapper_ok s" and "createSimControl E configFile end_tick flags s = Inr s'"
  shows "wrapper_ok s'"
proof -
  obtain g w where s: "s = (g, w)" by (cases s)
  note D = wrapper_okD [OF assms(1) [unfolded s]]
  have "wrapper_ok (g\<lparr>gw_sim_control := True\<rparr>, w\<lparr>ww_control := c\<rparr>)" for c
  proof (rule wrapper_okI)
    show "link_ok (g\<lparr>gw_sim_control := True\<rparr>) (w\<lparr>ww_control := c\<rparr>) d" if "d \<in> set (ww_log (w\<lparr>ww_control := c\<rparr>))" for d
      by (rule link_ok_mono [OF D(5)]) (use that in simp_all)
  qed (auto intro: ok_frames D)
  then show ?thesis using assms by (auto simp: s createSimControl_def res_simps split: if_splits)
qed

lemma wrapper_ok_router:
  assumes ok: "wrapper_ok (g, w)" and "createTxnRouter i start len (g, w) = (r, s')"
  shows "wrapper_ok s'"
proof -
  let ?g = "g\<lparr>txn_routers := smap_insert i (ww_next w) (txn_routers g)\<rparr>"
  let ?w = "w\<lparr>ww_router := (ww_router w)(ww_next w := TxnRouter start len), ww_next := Suc (ww_next w)\<rparr>"
  note D = wrapper_okD [OF ok] and ins = smap_insert_fresh [where m = "txn_routers g" and k = i and v = "ww_next w"]
  have new: "ww_next w \<notin> snd ` set (txn_routers g)" using D(2) by (auto simp: routers_ok_def)
  have "wrapper_ok (?g, ?w)"
  proof (rule wrapper_okI)
    have "r < ww_next ?w \<and> (\<exists>start len. ww_router ?w r = TxnRouter start len)"
      if "r \<in> snd ` set (txn_routers ?g)" for r
    proof -
      from that ins(2) have "r = ww_next w \<or> r \<in> snd ` set (txn_routers g)" by auto
      then show ?thesis using D(2) by (auto simp: routers_ok_def)
    qed
    then show "routers_ok ?g ?w"
      unfolding routers_ok_def using D(2) ins(3) [OF _ new] by (simp add: routers_ok_def std_map.ok_insert)
    show "link_ok ?g ?w c" if "c \<in> set (ww_log ?w)" for c
      by (rule link_ok_mono [OF D(5)]) (use that ins(1) in simp_all)
  qed (use D in \<open>auto intro: transactors_ok_frame bus_ok_frame\<close>)
  then show ?thesis using assms(2) by (auto simp: createTxnRouter_def)
qed

lemma wrapper_ok_bus:
  assumes "wrapper_ok s" and "createSimpleBus start finish s = Inr (b, s')"
  shows "wrapper_ok s'"
proof -
  obtain g w where s: "s = (g, w)" by (cases s)
  note D = wrapper_okD [OF assms(1) [unfolded s]]
  let ?g = "g\<lparr>busInstance := Some (ww_next w), isBusCreated := True\<rparr>"
  have "wrapper_ok (?g, w\<lparr>ww_bus := (ww_bus w)(ww_next w := [Obj m]), ww_next := Suc (ww_next w)\<rparr>)" for m
  proof (rule wrapper_okI)
    show "link_ok ?g (w\<lparr>ww_bus := (ww_bus w)(ww_next w := [Obj m]), ww_next := Suc (ww_next w)\<rparr>) c"
      if "c \<in> set (ww_log (w\<lparr>ww_bus := (ww_bus w)(ww_next w := [Obj m]), ww_next := Suc (ww_next w)\<rparr>))" for c
      by (rule link_ok_mono [OF D(5)]) (use that in simp_all)
  qed (use D in \<open>auto intro: transactors_ok_frame routers_ok_frame simp: bus_ok_def\<close>)
  then show ?thesis
    using assms by (auto simp: s createSimpleBus_def res_simps split: bool.splits option.splits)
qed

lemma wrapper_ok_configure:
  assumes ok: "wrapper_ok (g, w)"
  shows "wrapper_ok (g, w\<lparr>ww_transactor := (ww_transactor w)(t := setSocketCoreMap m (ww_transactor w t))\<rparr>)"
proof (rule wrapper_okI)
  let ?w = "w\<lparr>ww_transactor := (ww_transactor w)(t := setSocketCoreMap m (ww_transactor w t))\<rparr>"
  note D = wrapper_okD [OF ok]
  have same: "transactor_ok (ww_transactor ?w u) = transactor_ok (ww_transactor w u)"
      "getSocketNum (ww_transactor ?w u) = getSocketNum (ww_transactor w u)" for u
    by (simp_all add: transactor_ok_def setSocketCoreMap_def getSocketNum_def)
  show "transactors_ok g ?w" using D(1) same(1) by (simp add: transactors_ok_def)
  show "link_ok g ?w c" if "c \<in> set (ww_log ?w)" for c
    by (rule link_ok_mono [OF D(5)]) (use that same(2) in simp_all)
qed (use wrapper_okD [OF ok] in \<open>auto intro: routers_ok_frame bus_ok_frame\<close>)

lemma wrapper_ok_bind_control:
  assumes "wrapper_ok s" and "bindSimControl2Transactor s = Inr s'"
  shows "wrapper_ok s'"
proof -
  obtain g w where s: "s = (g, w)" by (cases s)
  note D = wrapper_okD [OF assms(1) [unfolded s]]
  have "wrapper_ok (g\<lparr>simControlBinded := True\<rparr>, w')" if "gw_sim_control g" and run: "bind_controls (gw_transactors g) w = Inr w'" for w'
  proof (rule wrapper_okI)
    note b = bind_controls_Inr [OF run]
    show "link_ok (g\<lparr>simControlBinded := True\<rparr>) w' c" if "c \<in> set (ww_log w')" for c
    proof (cases "c \<in> set (ww_log w)")
      case True
      show ?thesis by (rule link_ok_mono [OF D(5) [OF True]]) (simp_all add: b)
    qed (use that b \<open>gw_sim_control g\<close> in auto)
    show "distinct (ww_log w')" using b D(6) by (auto simp: distinct_map inj_on_def)
  qed (use D that bind_controls_Inr [OF run] in \<open>auto intro: ok_frames\<close>)
  then show ?thesis using assms by (auto simp: s bindSimControl2Transactor_def res_simps split: if_splits)
qed

lemma smap_find_value: "smap_find k m = Some v \<Longrightarrow> v \<in> snd ` set m"
  by (auto dest!: smap_find_in_set intro: rev_image_eqI)

lemma getTransactor_in: "getTransactor i g = Inr t \<Longrightarrow> t \<in> set (gw_transactors g)"
  by (auto simp: getTransactor_def split: if_splits)

lemma wrapper_ok_singleton:
  assumes "wrapper_ok s" and "createSingletonTransactor portName num s = Inr s'"
  shows "wrapper_ok s'"
proof -
  obtain g w where s: "s = (g, w)" by (cases s)
  show ?thesis
  proof (cases "ww_singleton w")
    case None
    then obtain p w' where "new_transactor portName num w = Inr (p, w')"
        "s' = (g\<lparr>gw_transactors := gw_transactors g @ [p]\<rparr>, w'\<lparr>ww_singleton := Some p\<rparr>)"
      using assms(2) by (auto simp: s createSingletonTransactor_def transactor_getInstance_def res_simps)
    then show ?thesis using wrapper_ok_new_transactor assms(1) s by blast
  next
    case (Some p)
    note D = wrapper_okD [OF assms(1) [unfolded s]]
    have "wrapper_ok (g\<lparr>gw_transactors := gw_transactors g @ [p]\<rparr>, w)"
    proof (rule wrapper_okI)
      show "link_ok (g\<lparr>gw_transactors := gw_transactors g @ [p]\<rparr>) w c" if "c \<in> set (ww_log w)" for c
        by (rule link_ok_mono [OF D(5) [OF that]]) auto
      show "transactors_ok (g\<lparr>gw_transactors := gw_transactors g @ [p]\<rparr>) w" using D(1) Some by (auto simp: transactors_ok_def)
    qed (use D in \<open>auto intro: routers_ok_frame bus_ok_frame\<close>)
    then show ?thesis
      using assms(2) Some by (auto simp: s createSingletonTransactor_def transactor_getInstance_def)
  qed
qed

lemma wrapper_step_ok:
  assumes "wrapper_step s s'" and ok: "wrapper_ok s"
  shows "wrapper_ok s'"
  using assms(1)
proof (cases rule: wrapper_step.cases)
  case (Singleton portName num)
  show ?thesis by (rule wrapper_ok_singleton [OF ok Singleton])
next
  case (Transactor portName num)
  obtain g w where s: "s = (g, w)" by (cases s)
  obtain p w' where "new_transactor portName num w = Inr (p, w')" "s' = (g\<lparr>gw_transactors := gw_transactors g @ [p]\<rparr>, w')"
    using Transactor by (auto simp: s createTransactor_def res_simps)
  moreover from this(1) have "w' = w'\<lparr>ww_singleton := ww_singleton w\<rparr>" by (auto elim!: new_transactor_result)
  ultimately show ?thesis using wrapper_ok_new_transactor [of g w portName num p w' "ww_singleton w"] ok s by simp
next
  case (Bind_router i k j g w w')
  then obtain t where t: "getTransactor j g = Inr t" "k < getSocketNum (ww_transactor w t)"
    by (auto simp: bindTxnRouter2Transactor_def res_simps split: if_splits)
  then show ?thesis
    using Bind_router ok wrapper_ok_extend [of g w "Bind_socket t k (the (smap_find i (txn_routers g)))" w'] getTransactor_in [OF t(1)]
    by (cases "smap_find i (txn_routers g)") (auto simp: bindTxnRouter2Transactor_def smap_find_value)
next
  case (Bind_router_bus i k g w w')
  then show ?thesis
    using ok wrapper_ok_extend [of g w "Bind_bus (the (smap_find i (txn_routers g))) k" w']
    by (cases "smap_find i (txn_routers g)") (auto simp: bindTxnRouter2Bus_def smap_find_value split: if_splits)
next
  case (Router i start len r)
  then show ?thesis using ok wrapper_ok_router by (cases s) blast
qed (use ok in \<open>auto intro: wrapper_ok_control wrapper_ok_configure wrapper_ok_bus wrapper_ok_bind_control simp: bindBus2Memory_def\<close>)

lemma built_ok: "built s \<Longrightarrow> wrapper_ok s"
proof -
  assume "built s"
  then obtain s0 where "wrapper_start s0" "wrapper_step\<^sup>*\<^sup>* s0 s" by (auto simp: built_def)
  from this(2,1) show ?thesis by (induction rule: rtranclp_induct) (auto intro: wrapper_start_ok wrapper_step_ok)
qed

section \<open>Properties\<close>


fun is_control_link :: "wcall \<Rightarrow> bool" where
  "is_control_link (Bind_sim_control t) = True"
| "is_control_link _ = False"

lemma filter_control_links [simp]: "filter is_control_link (map Bind_sim_control ts) = map Bind_sim_control ts"
  by (induction ts) simp_all

lemma control_links_fixed:
  assumes "wrapper_step s s'" and "simControlBinded (fst s)"
  shows "simControlBinded (fst s') \<and> filter is_control_link (ww_log (snd s')) = filter is_control_link (ww_log (snd s))"
  using assms
  by (cases rule: wrapper_step.cases)
    (auto dest!: sc_bind_Inr bind_controls_Inr simp: createSimControl_def createSingletonTransactor_def createTransactor_def createTxnRouter_def createSimpleBus_def
      bindSimControl2Transactor_def bindTxnRouter2Transactor_def bindTxnRouter2Bus_def bindBus2Memory_def new_transactor_def
      transactor_getInstance_def res_simps split: if_splits option.splits bool.splits prod.splits)

lemma unbound_elaboration_fails:
  "Bind_sim_control t \<notin> set (ww_log w) \<Longrightarrow> \<not> returns (elaborate_transactor t w sw)"
  by (simp add: elaborate_transactor_def multi_before_end_of_elaboration_def get_interface_def sim_control_port_def)

text \<open>
  A transactor created after the control has been bound never gets it. \<open>bindSimControl2Transactor\<close>
  binds the transactors that exist and refuses to run again, so whatever operations follow, the
  control port of the later transactor stays unbound and its elaboration fails.
\<close>

theorem late_transactor_unbound:
  assumes "built s" and "simControlBinded (fst s)" and "createTransactor portName num s = Inr s1"
    and "wrapper_step\<^sup>*\<^sup>* s1 s2" and "t = last (gw_transactors (fst s1))"
  shows "t \<in> set (gw_transactors (fst s1)) \<and> Bind_sim_control t \<notin> set (ww_log (snd s2))
    \<and> \<not> returns (elaborate_transactor t (snd s2) sw)"
proof -
  obtain g w where s: "s = (g, w)" by (cases s)
  obtain p w' where new: "new_transactor portName num w = Inr (p, w')" "s1 = (g\<lparr>gw_transactors := gw_transactors g @ [p]\<rparr>, w')"
    using assms(3) by (auto simp: s createTransactor_def res_simps)
  have w': "p = ww_next w" "ww_log w' = ww_log w" by (rule new_transactor_result [OF new(1)], simp)+
  note D = wrapper_okD [OF built_ok [OF assms(1) [unfolded s]]]
  have "Bind_sim_control p \<notin> set (ww_log w)"
    using D(1) D(5) [of "Bind_sim_control p"] by (auto simp: w'(1) transactors_ok_def)
  moreover from assms(4) have "simControlBinded (fst s2) \<and>
      filter is_control_link (ww_log (snd s2)) = filter is_control_link (ww_log (snd s1))"
    by (induction rule: rtranclp_induct) (use assms(2) control_links_fixed in \<open>auto simp: new(2) s\<close>)
  then have "set (filter is_control_link (ww_log (snd s2))) = set (filter is_control_link (ww_log w))"
    using w'(2) new(2) by simp
  moreover have "Bind_sim_control p \<in> set (filter is_control_link l) \<longleftrightarrow> Bind_sim_control p \<in> set l" for l by simp
  ultimately have "Bind_sim_control p \<notin> set (ww_log (snd s2))" by metis
  then show ?thesis using assms(5) new(2) by (simp add: unbound_elaboration_fails)
qed

section \<open>From construction to simulation\<close>

text \<open>The router that a socket has been connected to, and the system that elaboration leaves.\<close>

fun connected :: "wcall list \<Rightarrow> ptr \<Rightarrow> u32 \<Rightarrow> ptr option" where
  "connected [] t k = None"
| "connected (Bind_socket t' k' r # cs) t k = (if t' = t \<and> k' = k then Some r else connected cs t k)"
| "connected (_ # cs) t k = connected cs t k"

lemma connected_link: "connected cs t k = Some r \<Longrightarrow> Bind_socket t k r \<in> set cs"
  by (induction cs t k rule: connected.induct) (auto split: if_splits)

lemma sole_link: "filter (at_socket t k) cs = [Bind_socket t' k' r] \<Longrightarrow> connected cs t k = Some r"
  by (induction cs t k rule: connected.induct) (auto split: if_splits)

lemma sole_router:
  assumes "length (filter (at_router r) cs) = 1" and "Bind_socket t k r \<in> set cs" "Bind_socket t' k' r \<in> set cs"
  shows "t = t' \<and> k = k'"
proof -
  obtain c where "filter (at_router r) cs = [c]" using assms(1) by (auto simp: length_Suc_conv)
  then have "set (filter (at_router r) cs) = {c}" by simp
  moreover have "Bind_socket t k r \<in> set (filter (at_router r) cs)" "Bind_socket t' k' r \<in> set (filter (at_router r) cs)"
    using assms(2,3) by simp_all
  ultimately have "Bind_socket t k r = Bind_socket t' k' r" by (metis singletonD)
  then show ?thesis by simp
qed

lemma case_sole_socket:
  "(case l of [Bind_socket _ _ r] \<Rightarrow> P r | _ \<Rightarrow> False) \<Longrightarrow> \<exists>t k r. l = [Bind_socket t k r] \<and> P r"
  by (cases l rule: remdups_adj.cases) (auto split: wcall.splits)

text \<open>When elaboration ends every socket leads to a router of its own.\<close>

lemma complete_socket:
  assumes "sockets_complete w t" and "k < getSocketNum (ww_transactor w t)"
  obtains r where "connected (ww_log w) t k = Some r" and "length (filter (at_router r) (ww_log w)) = 1"
proof -
  have "unat k \<in> set [0..<unat (getSocketNum (ww_transactor w t))]" using assms(2) by (simp add: word_less_nat_alt)
  with assms(1) have "case filter (at_socket t k) (ww_log w) of
      [Bind_socket _ _ r] \<Rightarrow> length (filter (at_router r) (ww_log w)) = 1 | _ \<Rightarrow> False"
    unfolding sockets_complete_def list_all_iff by force
  then obtain t' k' r where "filter (at_socket t k) (ww_log w) = [Bind_socket t' k' r]"
      "length (filter (at_router r) (ww_log w)) = 1"
    using case_sole_socket by fastforce
  then show thesis using that sole_link by blast
qed

lemma complete_sockets_inj:
  assumes "sockets_complete w t"
  shows "inj_on (connected (ww_log w) t) {k. k < getSocketNum (ww_transactor w t)}"
proof (rule inj_onI)
  fix k k'
  assume k: "k \<in> {k. k < getSocketNum (ww_transactor w t)}" "k' \<in> {k. k < getSocketNum (ww_transactor w t)}"
    and eq: "connected (ww_log w) t k = connected (ww_log w) t k'"
  obtain r where r: "connected (ww_log w) t k = Some r" "length (filter (at_router r) (ww_log w)) = 1"
    using complete_socket [OF assms] k(1) by auto
  have "Bind_socket t k r \<in> set (ww_log w)" "Bind_socket t k' r \<in> set (ww_log w)"
    using r(1) eq by (auto intro: connected_link)
  from sole_router [OF r(2) this] show "k = k'" by simp
qed

definition elaborated :: "wworld \<Rightarrow> ptr \<Rightarrow> world \<Rightarrow> cosim" where
  "elaborated w t sw = \<lparr>y_port = sw,
     y_router = (\<lambda>k. case connected (ww_log w) t k of Some r \<Rightarrow> ww_router w r | None \<Rightarrow> TxnRouter 0 0),
     y_peq = (\<lambda>k. []), y_refs = (\<lambda>t. 0)\<rparr>"

lemma elaborated_port:
  assumes reg: "smap_find (stm_portName tm) (slavePorts (c_control c)) = Some p" "c_slave c p = SCSlavePort"
    and cfg: "config_ok (cpuPorts (c_control c)) tm" "n = of_nat (socket_count (cpuPorts (c_control c)) tm)"
    and num: "n \<le> getSocketNum tm" "length (stm_sockets tm) = unat (getSocketNum tm)"
    and sw: "pool_ok {} (w_pool sw)" "w_events sw = []" "w_curTick sw = w_now sw"
  obtains c1 sw1 where "multi_before_end_of_elaboration tm (Some c) sw = Inr (c1, sw1)"
    and "c_slave c1 p = w_port sw1" and "\<forall>r. getSocketId r (w_port sw1) < n"
    and "\<forall>rs. (\<forall>k < n. \<exists>start len. rs k = TxnRouter start len) \<longrightarrow>
      cosim_start tm n \<lparr>y_port = sw1, y_router = rs, y_peq = (\<lambda>k. []), y_refs = (\<lambda>t. 0)\<rparr>"
proof -
  let ?m = "cpuPorts (c_control c)"
  let ?sw = "sw\<lparr>w_port := fresh_port ?m\<rparr>"
  have pool: "w_port ?sw = fresh_port ?m" "pool_ok {} (w_pool ?sw)" using sw(1) by simp_all
  obtain sw' where b: "bindToTransactor_multi tm ?sw = Inr sw'" "port_ok n Map.empty sw'"
      "\<forall>r. getSocketId r (w_port sw') < n" "transactor (w_port sw') = None" "transactor_multi (w_port sw') = Obj tm"
      "w_events sw' = w_events ?sw" "w_curTick sw' = w_curTick ?sw" "w_now sw' = w_now ?sw"
      "\<forall>ty k. blocking (helper sw') ty k = None"
    by (rule bind_served [OF pool cfg])
  define c1 where "c1 = c\<lparr>c_slave := (c_slave c)(p := fresh_port ?m)\<rparr>"
  have "getSlavePort (stm_portName tm) c = Inr (p, c1)"
    using reg by (simp add: getSlavePort_def fresh_port_def c1_def)
  then have run: "multi_before_end_of_elaboration tm (Some c) sw = Inr (c1\<lparr>c_slave := (c_slave c1)(p := w_port sw')\<rparr>, sw')"
    using b(1) by (simp add: multi_before_end_of_elaboration_def get_interface_def c1_def)
  have "bound_to tm n (w_port sw')" using b(4,5) num by (simp add: bound_to_def word_le_nat_alt)
  with b sw(2,3) have "\<forall>rs. (\<forall>k < n. \<exists>start len. rs k = TxnRouter start len) \<longrightarrow>
      cosim_start tm n \<lparr>y_port = sw', y_router = rs, y_peq = (\<lambda>k. []), y_refs = (\<lambda>t. 0)\<rparr>"
    by (simp add: cosim_start_def)
  from that [OF run _ b(3) this] show thesis by simp
qed

text \<open>
  C16: a simulation built through the wrapper starts as the composed system, or does not start. Take any
  transactor of any built wrapper, with or without a socket configuration, whose sockets in use exist,
  and whose port gem5 has registered. Its elaboration succeeds exactly when the control has been bound
  to it and each of its sockets is bound to one router that no other socket has; a transactor
  created after \<open>bindSimControl2Transactor\<close> fails. When it succeeds, the port object of the control is the
  bound port, every requestor is routed to a connected socket, the sockets in use lead to different
  routers, and port and routers together are an initial state of the composed system, with all that
  is proved of it.
\<close>

theorem elaboration_starts_cosim:
  assumes built: "built (g, w)" and t: "t \<in> set (gw_transactors g)" "tm = ww_transactor w t"
    and reg: "smap_find (stm_portName tm) (slavePorts (c_control (ww_control w))) = Some p" "c_slave (ww_control w) p = SCSlavePort"
    and cfg: "config_ok (cpuPorts (c_control (ww_control w))) tm" "n = of_nat (socket_count (cpuPorts (c_control (ww_control w))) tm)"
      "n \<le> getSocketNum tm"
    and sw: "pool_ok {} (w_pool sw)" "w_events sw = []" "w_curTick sw = w_now sw"
  shows "(returns (elaborate_transactor t w sw) \<longleftrightarrow> Bind_sim_control t \<in> set (ww_log w) \<and> sockets_complete w t)
    \<and> (\<forall>c' sw'. elaborate_transactor t w sw = Inr (c', sw') \<longrightarrow> c_slave c' p = w_port sw'
        \<and> (\<forall>r. getSocketId r (w_port sw') < n \<and> connected (ww_log w) t (getSocketId r (w_port sw')) \<noteq> None)
        \<and> inj_on (connected (ww_log w) t) {k. k < n}
        \<and> (\<forall>C. reachable C tm n (elaborated w t sw')))"
proof -
  note D = wrapper_okD [OF built_ok [OF built]]
  have num: "length (stm_sockets tm) = unat (getSocketNum tm)"
    using D(1) t by (simp add: transactors_ok_def transactor_ok_def)
  obtain c1 sw1 where b: "multi_before_end_of_elaboration tm (Some (ww_control w)) sw = Inr (c1, sw1)"
      "c_slave c1 p = w_port sw1" "\<forall>r. getSocketId r (w_port sw1) < n"
      "\<forall>rs. (\<forall>k < n. \<exists>start len. rs k = TxnRouter start len) \<longrightarrow>
        cosim_start tm n \<lparr>y_port = sw1, y_router = rs, y_peq = (\<lambda>k. []), y_refs = (\<lambda>t. 0)\<rparr>"
    by (rule elaborated_port [OF reg cfg num sw])
  have ret: "elaborate_transactor t w sw = Inr r \<longleftrightarrow>
      Bind_sim_control t \<in> set (ww_log w) \<and> sockets_complete w t \<and> r = (c1, sw1)" for r
    using b(1) by (cases "Bind_sim_control t \<in> set (ww_log w)")
      (auto simp: elaborate_transactor_def sim_control_port_def t(2) multi_before_end_of_elaboration_def get_interface_def)
  have linked: "\<exists>r. connected (ww_log w) t k = Some r" if "sockets_complete w t" "k < n" for k
    by (rule complete_socket [OF that(1), of k]) (use that(2) cfg(3) t(2) in auto)
  moreover have "inj_on (connected (ww_log w) t) {k. k < n}" if "sockets_complete w t"
    by (rule inj_on_subset [OF complete_sockets_inj [OF that]]) (use cfg(3) t(2) in auto)
  moreover have "reachable C tm n (elaborated w t sw1)" if "sockets_complete w t" for C
  proof -
    have "\<exists>start len. y_router (elaborated w t sw1) k = TxnRouter start len" if "connected (ww_log w) t k = Some r" for k r
      using D(2) D(5) [OF connected_link [OF that]] that by (auto simp: elaborated_def routers_ok_def)
    then have "\<forall>k < n. \<exists>start len. y_router (elaborated w t sw1) k = TxnRouter start len"
      using linked [OF \<open>sockets_complete w t\<close>] by blast
    then have "cosim_start tm n (elaborated w t sw1)" using b(4) by (simp add: elaborated_def)
    then show ?thesis by (auto simp: reachable_def)
  qed
  ultimately show ?thesis using b(2,3) linked by (simp add: returns_iff ret)
qed

section \<open>A concrete construction\<close>

text \<open>gem5 creates one external port while it instantiates the configuration, and has two cores.\<close>

definition demo_control_env :: control_env where
  "demo_control_env = \<lparr>ce_resolution_is_1ps = True, ce_load = (\<lambda>_. True),
     ce_instantiate = (\<lambda>w. case slave_getExternalPort ''p'' w of Inr (_, w) \<Rightarrow> Inr w | Inl _ \<Rightarrow> Inl ''error''),
     ce_cpus = [(''cpu0'', 1, 2), (''cpu1'', 4, 5)], ce_initState = Inr, ce_startup = Inr\<rparr>"

definition demo_build :: "(gem5_wrapper \<times> wworld) res" where
  "demo_build =
     bindr (createSimControl demo_control_env ''config.ini'' 0 [] (wrapper_getInstance (Gem5Wrapper, demo_wworld))) (\<lambda>s.
     bindr (createTransactor ''p'' 2 s) (\<lambda>s.
       let (_, s) = createTxnRouter 0 0 4096 s;
           (_, s) = createTxnRouter 1 0 4096 s
       in bindr (bindSimControl2Transactor s) (\<lambda>s.
          bindr (bindTxnRouter2Transactor 0 0 0 s) (\<lambda>w.
          bindr (bindTxnRouter2Transactor 1 1 0 (fst s, w)) (\<lambda>w.
            Inr (fst s, w))))))"

lemma demo_build_outcome:
  "case demo_build of Inl _ \<Rightarrow> False
   | Inr (g, w) \<Rightarrow> gw_transactors g = [1] \<and> txn_routers g = [(0, 2), (1, 3)] \<and> simControlBinded g \<and> Bind_sim_control 1 \<in> set (ww_log w) \<and> sockets_complete w 1
      \<and> smap_find (stm_portName (ww_transactor w 1)) (slavePorts (c_control (ww_control w))) = Some 0
      \<and> c_slave (ww_control w) 0 = SCSlavePort
      \<and> cpuPorts (c_control (ww_control w)) = [(''cpu0'', [1, 2]), (''cpu1'', [4, 5])]
      \<and> socket_core_map (ww_transactor w 1) = [] \<and> getSocketNum (ww_transactor w 1) = 2"
  by code_simp

lemma built_step: "built s \<Longrightarrow> wrapper_step s s' \<Longrightarrow> built s'"
  unfolding built_def by (blast intro: rtranclp.rtrancl_into_rtrancl)

lemma demo_build_built: "demo_build = Inr s \<Longrightarrow> built s"
proof -
  assume run: "demo_build = Inr s"
  let ?s0 = "wrapper_getInstance (Gem5Wrapper, demo_wworld)"
  have "\<not> ww_instance demo_wworld" "ww_singleton demo_wworld = None" "ww_log demo_wworld = []"
    by (simp_all add: demo_wworld_def)
  then have "wrapper_start ?s0" unfolding wrapper_start_def by blast
  then have b0: "built ?s0" unfolding built_def by blast
  obtain s1 where s1: "createSimControl demo_control_env ''config.ini'' 0 [] ?s0 = Inr s1"
    and run1: "bindr (createTransactor ''p'' 2 s1) (\<lambda>s.
       let (_, s) = createTxnRouter 0 0 4096 s; (_, s) = createTxnRouter 1 0 4096 s
       in bindr (bindSimControl2Transactor s) (\<lambda>s.
          bindr (bindTxnRouter2Transactor 0 0 0 s) (\<lambda>w. bindr (bindTxnRouter2Transactor 1 1 0 (fst s, w)) (\<lambda>w. Inr (fst s, w))))) = Inr s"
    using run unfolding demo_build_def by (rule bindrE)
  obtain s2 where s2: "createTransactor ''p'' 2 s1 = Inr s2" using run1 by (rule bindrE)
  obtain r3 s3 where s3: "createTxnRouter 0 0 4096 s2 = (r3, s3)" by (rule prod.exhaust)
  obtain r4 s4 where s4: "createTxnRouter 1 0 4096 s3 = (r4, s4)" by (rule prod.exhaust)
  obtain g w w6 w7 where s5: "bindSimControl2Transactor s4 = Inr (g, w)"
    and links: "bindTxnRouter2Transactor 0 0 0 (g, w) = Inr w6" "bindTxnRouter2Transactor 1 1 0 (g, w6) = Inr w7" "s = (g, w7)"
    using run1 by (auto simp: s2 s3 s4 res_simps)
  have "built (g, w)"
    using b0 Control [OF s1] Transactor [OF s2] Router [OF s3] Router [OF s4] Bind_control [OF s5] by (metis built_step)
  then show ?thesis using Bind_router [OF links(1)] Bind_router [OF links(2)] links(3) by (metis built_step)
qed

lemma demo_built:
  obtains g w where "built (g, w)" and "gw_transactors g = [1]" "txn_routers g = [(0, 2), (1, 3)]" "simControlBinded g"
    and "Bind_sim_control 1 \<in> set (ww_log w)" "sockets_complete w 1"
    and "smap_find (stm_portName (ww_transactor w 1)) (slavePorts (c_control (ww_control w))) = Some 0"
    and "c_slave (ww_control w) 0 = SCSlavePort"
    and "cpuPorts (c_control (ww_control w)) = [(''cpu0'', [1, 2]), (''cpu1'', [4, 5])]"
    and "socket_core_map (ww_transactor w 1) = []" "getSocketNum (ww_transactor w 1) = 2"
proof (cases demo_build)
  case (Inl e)
  show thesis using demo_build_outcome unfolding Inl by simp
next
  case (Inr s)
  obtain g w where s: "s = (g, w)" by (cases s)
  show thesis
    using demo_build_outcome [unfolded Inr s sum.case prod.case] demo_build_built [OF Inr [unfolded s]]
    by (intro that [of g w]) simp_all
qed


theorem late_transactor_unbound_witness:
  "\<exists>s s1 t. built s \<and> createTransactor ''q'' 1 s = Inr s1 \<and> bindSimControl2Transactor s1 = Inr s1
     \<and> t \<in> set (gw_transactors (fst s1)) \<and> \<not> returns (elaborate_transactor t (snd s1) demo_start)"
proof -
  obtain g w where b: "built (g, w)" "simControlBinded g" by (rule demo_built)
  obtain p w' where "new_transactor ''q'' 1 w = Inr (p, w')" by (rule new_transactor_returns [of "''q''" 1 w]) simp
  then obtain s1 where s1: "createTransactor ''q'' 1 (g, w) = Inr s1" "simControlBinded (fst s1)"
    using b(2) by (simp add: createTransactor_def)
  from s1(2) have "bindSimControl2Transactor s1 = Inr s1"
    by (cases s1) (simp add: bindSimControl2Transactor_def)
  moreover from this have "wrapper_step\<^sup>*\<^sup>* s1 s1" by simp
  ultimately show ?thesis using late_transactor_unbound [OF b(1) _ s1(1) _ refl, of s1 demo_start] b s1 by fastforce
qed

theorem elaboration_starts_cosim_witness:
  "\<exists>g w c' sw'. built (g, w) \<and> elaborate_transactor 1 w demo_start = Inr (c', sw')
     \<and> reachable demo_lib (ww_transactor w 1) 2 (elaborated w 1 sw')"
proof -
  obtain g w where b: "built (g, w)" "gw_transactors g = [1]"
      "Bind_sim_control 1 \<in> set (ww_log w)" "sockets_complete w 1"
      "smap_find (stm_portName (ww_transactor w 1)) (slavePorts (c_control (ww_control w))) = Some 0"
      "c_slave (ww_control w) 0 = SCSlavePort"
      "cpuPorts (c_control (ww_control w)) = [(''cpu0'', [1, 2]), (''cpu1'', [4, 5])]"
      "socket_core_map (ww_transactor w 1) = []" "getSocketNum (ww_transactor w 1) = 2"
    by (rule demo_built)
  have "smap_ok [(''cpu0'', [1 :: nat, 2]), (''cpu1'', [4, 5])]" by code_simp
  then have "config_ok (cpuPorts (c_control (ww_control w))) (ww_transactor w 1)"
      "(2 :: u32) = of_nat (socket_count (cpuPorts (c_control (ww_control w))) (ww_transactor w 1))"
    using b(7,8) by (simp_all add: config_ok_def socket_count_def)
  moreover have "1 \<in> set (gw_transactors g)" "(2 :: u32) \<le> getSocketNum (ww_transactor w 1)" using b(2,9) by simp_all
  moreover have "pool_ok {} (w_pool demo_start)" "w_events demo_start = []" "w_curTick demo_start = w_now demo_start"
    by (simp_all add: demo_start_def pool_ok_empty)
  ultimately have "(returns (elaborate_transactor 1 w demo_start) \<longleftrightarrow> Bind_sim_control 1 \<in> set (ww_log w) \<and> sockets_complete w 1)
      \<and> (\<forall>c' sw'. elaborate_transactor 1 w demo_start = Inr (c', sw') \<longrightarrow> reachable demo_lib (ww_transactor w 1) 2 (elaborated w 1 sw'))"
    using elaboration_starts_cosim [OF b(1) _ refl b(5,6), of 2 demo_start] by blast
  then obtain c' sw' where "elaborate_transactor 1 w demo_start = Inr (c', sw')"
      "reachable demo_lib (ww_transactor w 1) 2 (elaborated w 1 sw')"
    using b(3,4) by (auto simp: returns_iff simp del: One_nat_def)
  with b(1) show ?thesis by blast
qed

end
