(* ===== verification/Master_Properties.thy ===== *)
theory Master_Properties
  imports Master_Port Slave_Port
begin

text \<open>
  The properties of the master port. \<open>quiet\<close> environments are those whose calls return without
  re-entering the port, with any answers; the step relation \<open>master_step\<close> interleaves the port's
  operations in any order with arbitrary changes of everything outside the port.
\<close>

section \<open>Frames\<close>

lemma m_frame [frame_simps]:
  "m_port (m_note c w) = m_port w" "m_gp (m_note c w) = m_gp w" "m_pkt (m_note c w) = m_pkt w"
  "m_next (m_note c w) = m_next w" "m_curTick (m_note c w) = m_curTick w" "m_now (m_note c w) = m_now w"
  "m_log (m_note c w) = m_log w @ [c]"
  "m_port (m_upd f w) = f (m_port w)" "m_gp (m_upd f w) = m_gp w" "m_pkt (m_upd f w) = m_pkt w"
  "m_next (m_upd f w) = m_next w" "m_log (m_upd f w) = m_log w"
  "m_curTick (m_upd f w) = m_curTick w" "m_now (m_upd f w) = m_now w"
  "m_port (m_set_gp t p w) = m_port w" "m_gp (m_set_gp t p w) = (m_gp w)(t := p)"
  "m_pkt (m_set_gp t p w) = m_pkt w" "m_log (m_set_gp t p w) = m_log w"
  "m_port (m_set_pkt i q w) = m_port w" "m_gp (m_set_pkt i q w) = m_gp w"
  "m_pkt (m_set_pkt i q w) = (m_pkt w)(i := q)" "m_log (m_set_pkt i q w) = m_log w"
  "m_port (m_acquire t w) = m_port w" "m_gp (m_acquire t w) = m_gp w" "m_pkt (m_acquire t w) = m_pkt w"
  "m_next (m_acquire t w) = m_next w" "m_log (m_acquire t w) = m_log w @ [M_acquire t]"
  "m_port (destroyPacket i w) = m_port w" "m_gp (destroyPacket i w) = m_gp w"
  "m_pkt (destroyPacket i w) = m_pkt w" "m_log (destroyPacket i w) = m_log w @ [Delete_packet i]"
  by (simp_all add: m_note_def m_upd_def m_set_gp_def m_set_pkt_def m_acquire_def destroyPacket_def)

lemma generatePacket_frame:
  assumes "generatePacket E t w = Inr (pkt, w')"
  shows "m_port w' = m_port w" "m_gp w' = m_gp w" "pkt = m_next w" "m_log w' = m_log w @ [New_packet pkt]"
  using assms
  by (auto simp: generatePacket_def Let_def bindr_eq_Inr frame_simps split: tlm_command.splits)

lemma packet_for_frame:
  assumes "packet_for E t w = Inr (pkt, w')"
  shows "m_port w' = m_port w" "m_gp w' = m_gp w"
    "m_log w' = m_log w @ (if gp_extension (m_gp w t) = None then [New_packet pkt] else [])"
  using assms generatePacket_frame [of E t w pkt w']
  by (auto simp: packet_for_def split: option.splits)

section \<open>Calls that return\<close>

definition quiet :: "master_env \<Rightarrow> bool" where
  "quiet E \<longleftrightarrow>
     (\<forall>w. me_catchup E w = Inr (w\<lparr>m_curTick := m_now w\<rparr>)) \<and> (\<forall>w. me_notify E w = Inr w)
   \<and> (\<forall>t w. \<exists>p. me_release E t w = Inr (m_set_gp t p w))
   \<and> (\<forall>pkt w. \<exists>b. me_sendTimingReq E pkt w = Inr (b, w)) \<and> (\<forall>w. me_sendRetryResp E w = Inr w)
   \<and> (\<forall>pkt w. \<exists>d p. me_sendAtomic E pkt w = Inr (d, m_set_pkt pkt p w))
   \<and> (\<forall>pkt w. \<exists>p. me_sendFunctional E pkt w = Inr (m_set_pkt pkt p w))
   \<and> (\<forall>t ph d w. \<exists>a. me_nb_transport_bw E t ph d w = Inr (a, w))"

lemma quiet_release:
  assumes "quiet E"
  obtains p where "m_release E t w = Inr (m_set_gp t p (m_note (M_release t) w))"
  using assms unfolding quiet_def m_release_def by blast

lemma quiet_sendTimingReq:
  assumes "quiet E"
  obtains b where "sendTimingReq E pkt w = Inr (b, m_note (Send_timing_req pkt) w)"
  using assms unfolding quiet_def sendTimingReq_def by blast

lemma quiet_nb_transport_bw:
  assumes "quiet E" and "mp_transactor (m_port w) \<noteq> None"
  obtains a where "me_nb_transport_bw E t ph d (m_note (Nb_transport_bw t ph d) w)
      = Inr (a, m_note (Nb_transport_bw t ph d) w)"
    and "call_nb_transport_bw E t ph d w = Inr (a, m_note (Nb_transport_bw t ph d) w)"
proof -
  obtain a where "me_nb_transport_bw E t ph d (m_note (Nb_transport_bw t ph d) w)
      = Inr (a, m_note (Nb_transport_bw t ph d) w)"
    using assms(1) unfolding quiet_def by blast
  with assms(2) that show thesis by (simp add: call_nb_transport_bw_def)
qed

lemma quiet_call_keeps:
  assumes "quiet E" and "call_nb_transport_bw E t ph d w = Inr (a, w')"
  shows "m_port w' = m_port w" "m_pkt w' = m_pkt w" "m_gp w' = m_gp w" "mp_transactor (m_port w) \<noteq> None"
proof -
  show bound: "mp_transactor (m_port w) \<noteq> None"
    using assms(2) by (auto simp: call_nb_transport_bw_def split: if_splits)
  obtain a' where "call_nb_transport_bw E t ph d w = Inr (a', m_note (Nb_transport_bw t ph d) w)"
    using quiet_nb_transport_bw [OF assms(1) bound] by blast
  with assms(2) show "m_port w' = m_port w" "m_pkt w' = m_pkt w" "m_gp w' = m_gp w"
    by (auto simp: frame_simps)
qed

section \<open>The invariant\<close>

text \<open>A request waits exactly when its transaction and its packet are kept; a retry is owed only while
  a response is in progress.\<close>

definition mp_ok :: "master_port \<Rightarrow> bool" where
  "mp_ok p \<longleftrightarrow> (waitForRetry p \<longleftrightarrow> pendingRequest p \<noteq> None) \<and> (waitForRetry p \<longleftrightarrow> pendingPacket p \<noteq> None)
     \<and> (needToSendRetry p \<longrightarrow> responseInProgress p)"

lemma sendEndReq_keeps:
  assumes "quiet E" and "sendEndReq E t w = Inr w'"
  shows "m_port w' = m_port w"
  using assms(2) quiet_call_keeps(1) [OF assms(1)]
  by (fastforce simp: sendEndReq_def bindr_eq_Inr split: if_splits)

lemma m_release_keeps:
  assumes "quiet E" and "m_release E t w = Inr w'"
  shows "m_port w' = m_port w"
proof -
  obtain p where "m_release E t w = Inr (m_set_gp t p (m_note (M_release t) w))"
    using quiet_release [OF assms(1)] .
  with assms(2) show ?thesis by (auto simp: frame_simps)
qed

lemma sendTimingReq_keeps:
  assumes "quiet E" and "sendTimingReq E pkt w = Inr (b, w')"
  shows "m_port w' = m_port w"
proof -
  obtain b' where "sendTimingReq E pkt w = Inr (b', m_note (Send_timing_req pkt) w)"
    using quiet_sendTimingReq [OF assms(1)] .
  with assms(2) show ?thesis by (auto simp: frame_simps)
qed

lemma handleBeginReq_keeps:
  assumes q: "quiet E" and ok: "mp_ok (m_port w)" and r: "handleBeginReq E t w = Inr w'"
  shows "mp_ok (m_port w')"
proof -
  obtain pkt w1 sent w2 where p: "packet_for E t (m_acquire t w) = Inr (pkt, w1)"
    and s: "sendTimingReq E pkt (m_set_pkt pkt (pushSenderState (TlmSenderState t) (m_pkt w1 pkt)) w1) = Inr (sent, w2)"
    and w': "(if sent then bindr (sendEndReq E t w2) (m_release E t)
        else Inr (m_upd (\<lambda>p. p\<lparr>waitForRetry := True, pendingRequest := Some t, pendingPacket := Some pkt\<rparr>) w2)) = Inr w'"
    using r by (auto simp: handleBeginReq_def Let_def bindr_eq_Inr split: if_splits)
  have w2: "m_port w2 = m_port w"
    using packet_for_frame(1) [OF p] sendTimingReq_keeps [OF q s] by (simp add: frame_simps)
  show ?thesis
  proof (cases sent)
    case True
    with w' obtain w3 where "sendEndReq E t w2 = Inr w3" "m_release E t w3 = Inr w'"
      by (auto simp: bindr_eq_Inr)
    then show ?thesis using sendEndReq_keeps [OF q] m_release_keeps [OF q] w2 ok by simp
  next
    case False
    with w' w2 ok show ?thesis by (auto simp: mp_ok_def frame_simps)
  qed
qed

lemma handleEndResp_keeps:
  assumes q: "quiet E" and ok: "mp_ok (m_port w)" and r: "handleEndResp E t w = Inr w'"
  shows "mp_ok (m_port w')"
proof -
  have "me_sendRetryResp E v = Inr v" for v using q by (simp add: quiet_def)
  then show ?thesis
    using ok r by (auto simp: handleEndResp_def Let_def bindr_eq_Inr sendRetryResp_def mp_ok_def frame_simps
        split: if_splits)
qed

lemma mp_peq_cb_keeps:
  assumes q: "quiet E" and ok: "mp_ok (m_port w)" and r: "mp_peq_cb E t ph w = Inr w'"
  shows "mp_ok (m_port w')"
proof -
  define w1 where "w1 = (m_note Catchup w)\<lparr>m_curTick := m_now w\<rparr>"
  have ok1: "mp_ok (m_port w1)" using ok by (simp add: w1_def frame_simps)
  obtain w2 where "handleBeginReq E t w1 = Inr w2 \<or> handleEndResp E t w1 = Inr w2" "w' = m_note Notify_loop w2"
    using r q by (auto simp: mp_peq_cb_def quiet_def bindr_eq_Inr w1_def frame_simps
        split: if_splits tlm_phase.splits)
  then show ?thesis
    using handleBeginReq_keeps [OF q ok1] handleEndResp_keeps [OF q ok1] by (auto simp: frame_simps)
qed

lemma recvTimingResp_sent:
  assumes r: "recvTimingResp E pkt w = Inr (b, w')" and free: "\<not> responseInProgress (m_port w)"
  obtains t w1 w2 where "m_port w1 = m_port w"
    and "sendBeginResp E t (pkt_payloadDelay (m_pkt w pkt)) w1 = Inr w2" and "m_release E t w2 = Inr w'"
proof -
  obtain s p where sp: "(case s of
             OtherSenderState _ \<Rightarrow> Inl Sc_assert_failed
           | TlmSenderState t \<Rightarrow>
               let w1 = m_set_pkt pkt p w;
                   w1 = (if gp_extension (m_gp w1 t) = None then destroyPacket pkt w1 else w1)
               in bindr (sendBeginResp E t (pkt_payloadDelay (m_pkt w pkt)) w1) (\<lambda>w.
                  bindr (m_release E t w) (\<lambda>w. Inr (True, w)))) = Inr (b, w')"
    using r free unfolding recvTimingResp_def Let_def
    by (simp add: bindr_eq_Inr case_prod_beta split: if_split_asm) blast
  then obtain t where s: "s = TlmSenderState t" by (cases s) auto
  define w1 where "w1 = (let w1 = m_set_pkt pkt p w in
      if gp_extension (m_gp w1 t) = None then destroyPacket pkt w1 else w1)"
  have "m_port w1 = m_port w" by (simp add: w1_def Let_def frame_simps)
  moreover have "bindr (sendBeginResp E t (pkt_payloadDelay (m_pkt w pkt)) w1) (\<lambda>w.
      bindr (m_release E t w) (\<lambda>w. Inr (True, w))) = Inr (b, w')"
    using sp by (simp add: s w1_def Let_def)
  ultimately show thesis using that by (auto simp: bindr_eq_Inr)
qed

lemma recvTimingResp_keeps:
  assumes q: "quiet E" and ok: "mp_ok (m_port w)" and r: "recvTimingResp E pkt w = Inr (b, w')"
  shows "mp_ok (m_port w')"
proof (cases "responseInProgress (m_port w)")
  case True
  with r ok show ?thesis by (auto simp: recvTimingResp_def mp_ok_def frame_simps split: if_splits)
next
  case False
  from r False obtain t w1 w2 where w1: "m_port w1 = m_port w"
    and s: "sendBeginResp E t (pkt_payloadDelay (m_pkt w pkt)) w1 = Inr w2" and rel: "m_release E t w2 = Inr w'"
    by (rule recvTimingResp_sent)
  obtain a w3 where c: "call_nb_transport_bw E t BEGIN_RESP (pkt_payloadDelay (m_pkt w pkt))
        (m_set_gp t ((m_gp w1 t)\<lparr>gp_response_status := TLM_OK_RESPONSE\<rparr>) w1) = Inr (a, w3)"
    and w2: "waitForRetry (m_port w2) = waitForRetry (m_port w3)"
      "pendingRequest (m_port w2) = pendingRequest (m_port w3)"
      "pendingPacket (m_port w2) = pendingPacket (m_port w3)"
      "needToSendRetry (m_port w2) = needToSendRetry (m_port w3)"
    using s by (auto simp: sendBeginResp_def Let_def bindr_eq_Inr frame_simps split: if_splits)
  have "m_port w3 = m_port w" using quiet_call_keeps(1) [OF q c] w1 by (simp add: frame_simps)
  then show ?thesis
    using w2 m_release_keeps [OF q rel] ok False by (auto simp: mp_ok_def)
qed

lemma recvReqRetry_keeps:
  assumes q: "quiet E" and ok: "mp_ok (m_port w)" and r: "recvReqRetry E w = Inr w'"
  shows "mp_ok (m_port w')"
proof -
  obtain pkt sent w1 where s: "sendTimingReq E pkt w = Inr (sent, w1)"
    and w': "(if sent then
        let w = m_upd (\<lambda>p. p\<lparr>waitForRetry := False, pendingPacket := None\<rparr>) w1
        in case pendingRequest (m_port w) of
             None \<Rightarrow> Inl (Undefined_behaviour ''pendingRequest'')
           | Some t \<Rightarrow> bindr (sendEndReq E t w) (\<lambda>w. bindr (m_release E t w) (\<lambda>w.
               Inr (m_upd (\<lambda>p. p\<lparr>pendingRequest := None\<rparr>) w)))
      else Inr w1) = Inr w'"
    using r by (auto simp: recvReqRetry_def bindr_eq_Inr split: if_splits option.splits)
  have w1: "m_port w1 = m_port w" using sendTimingReq_keeps [OF q s] .
  show ?thesis
  proof (cases sent)
    case True
    let ?w2 = "m_upd (\<lambda>p. p\<lparr>waitForRetry := False, pendingPacket := None\<rparr>) w1"
    obtain t w3 w4 where "sendEndReq E t ?w2 = Inr w3" "m_release E t w3 = Inr w4"
        "w' = m_upd (\<lambda>p. p\<lparr>pendingRequest := None\<rparr>) w4"
      using w' True by (auto simp: Let_def bindr_eq_Inr split: option.splits)
    then have "m_port w' = (m_port w)\<lparr>waitForRetry := False, pendingPacket := None, pendingRequest := None\<rparr>"
      using sendEndReq_keeps [OF q] m_release_keeps [OF q] w1 by (simp add: frame_simps)
    then show ?thesis using ok by (auto simp: mp_ok_def)
  next
    case False
    with w' w1 ok show ?thesis by simp
  qed
qed

section \<open>Steps\<close>

text \<open>
  One call into the port, or a change of anything outside it: time passes, gem5 and TLM change
  packets and payloads.
\<close>

inductive master_step :: "master_env \<Rightarrow> mworld \<Rightarrow> mworld \<Rightarrow> bool" for E where
  Fw: "mp_nb_transport_fw t ph d w = (st, w') \<Longrightarrow> master_step E w w'"
| Peq: "mp_peq_cb E t ph w = Inr w' \<Longrightarrow> master_step E w w'"
| Resp: "recvTimingResp E pkt w = Inr (b, w') \<Longrightarrow> master_step E w w'"
| Retry: "recvReqRetry E w = Inr w' \<Longrightarrow> master_step E w w'"
| Blocking: "mp_b_transport E t d w = Inr (d', w') \<Longrightarrow> master_step E w w'"
| Debug: "mp_transport_dbg E t w = Inr (n, w') \<Longrightarrow> master_step E w w'"
| Outside: "m_port w' = m_port w \<Longrightarrow> master_step E w w'"

lemma blocking_calls_keep:
  assumes q: "quiet E"
  shows "mp_b_transport E t d w = Inr (d', w') \<Longrightarrow> m_port w' = m_port w"
    and "mp_transport_dbg E t w = Inr (n, w') \<Longrightarrow> m_port w' = m_port w"
proof -
  assume "mp_b_transport E t d w = Inr (d', w')"
  then obtain pkt w1 ticks w2 where p: "packet_for E t w = Inr (pkt, w1)"
    and s: "me_sendAtomic E pkt (m_note (Send_atomic pkt) w1) = Inr (ticks, w2)" and w': "m_port w' = m_port w2"
    by (auto simp: mp_b_transport_def Let_def bindr_eq_Inr frame_simps split: if_splits)
  obtain x y where "me_sendAtomic E pkt (m_note (Send_atomic pkt) w1) = Inr (x, m_set_pkt pkt y (m_note (Send_atomic pkt) w1))"
    using q unfolding quiet_def by blast
  then show "m_port w' = m_port w" using s w' packet_for_frame(1) [OF p] by (auto simp: frame_simps)
next
  assume "mp_transport_dbg E t w = Inr (n, w')"
  then obtain pkt w1 w2 where p: "packet_for E t w = Inr (pkt, w1)"
    and s: "me_sendFunctional E pkt (m_note (Send_functional pkt) w1) = Inr w2" and w': "m_port w' = m_port w2"
    by (auto simp: mp_transport_dbg_def Let_def bindr_eq_Inr frame_simps split: if_splits)
  obtain y where "me_sendFunctional E pkt (m_note (Send_functional pkt) w1) = Inr (m_set_pkt pkt y (m_note (Send_functional pkt) w1))"
    using q unfolding quiet_def by blast
  then show "m_port w' = m_port w" using s w' packet_for_frame(1) [OF p] by (auto simp: frame_simps)
qed

lemma master_step_keeps:
  assumes q: "quiet E" and "master_step E w w'" and "mp_ok (m_port w)"
  shows "mp_ok (m_port w')"
  using assms(2,3)
proof (cases rule: master_step.cases)
  case (Fw t ph d st)
  then have "m_port w' = m_port w"
    by (auto simp: mp_nb_transport_fw_def Let_def frame_simps split: if_splits)
  with assms(3) show ?thesis by simp
qed (use assms(3) blocking_calls_keep [OF q] in
    \<open>auto intro: mp_peq_cb_keeps [OF q] recvTimingResp_keeps [OF q] recvReqRetry_keeps [OF q]\<close>)

text \<open>
  C27: in every state a master port can reach from its construction, by any interleaving of TLM calls,
  queue callbacks, gem5 calls and changes outside the port, a request waits for a retry exactly when
  both its transaction and its packet are kept, and a retry is owed to gem5 only while a response is
  in progress.
\<close>

theorem master_port_invariant:
  assumes "quiet E" and "m_port w = SCMasterPort" and "(master_step E)\<^sup>*\<^sup>* w w'"
  shows "mp_ok (m_port w')"
  using assms(3)
proof (induction rule: rtranclp_induct)
  case base
  then show ?case using assms(2) by (simp add: mp_ok_def SCMasterPort_def)
next
  case (step y z)
  then show ?case using master_step_keeps [OF assms(1)] by blast
qed

section \<open>A concrete environment\<close>

definition demo_menv :: "bool \<Rightarrow> master_env" where
  "demo_menv accept = \<lparr>me_tlm = demo_tlm, me_gem5 = demo_gem5, me_owner_id = 3,
     me_Packet = (\<lambda>addr size i cmd. \<lparr>pkt_addr = addr, pkt_size = size, pkt_data = 0, pkt_cmd = cmd,
        pkt_cacheResponding = False, pkt_requestorId = i, pkt_cpuClusterId = None, pkt_payloadDelay = 0,
        pkt_headerDelay = 0, pkt_senderStates = []\<rparr>),
     me_sc_time = (\<lambda>t. t), me_isTimingMode = True, me_isAtomicMode = False,
     me_catchup = (\<lambda>w. Inr (w\<lparr>m_curTick := m_now w\<rparr>)), me_notify = Inr,
     me_release = (\<lambda>t w. Inr (m_set_gp t (m_gp w t) w)),
     me_sendTimingReq = (\<lambda>pkt w. Inr (accept, w)), me_sendRetryResp = Inr,
     me_sendAtomic = (\<lambda>pkt w. Inr (7, m_set_pkt pkt (g_makeResponse demo_gem5 (m_pkt w pkt)) w)),
     me_sendFunctional = (\<lambda>pkt w. Inr (m_set_pkt pkt (m_pkt w pkt) w)),
     me_nb_transport_bw = (\<lambda>t ph d w. Inr ((TLM_ACCEPTED, ph, d), w))\<rparr>"

lemma demo_menv_quiet: "quiet (demo_menv accept)"
  by (auto simp: quiet_def demo_menv_def)

definition demo_payload :: payload where
  "demo_payload = \<lparr>gp_address = 128, gp_command = TLM_READ_COMMAND, gp_data_ptr = 5, gp_data_length = 8,
     gp_streaming_width = 8, gp_byte_enable_ptr = None, gp_response_status = TLM_OK_RESPONSE,
     gp_extension = None, gp_has_mm = True\<rparr>"

definition demo_mworld :: mworld where
  "demo_mworld = \<lparr>m_port = SCMasterPort, m_gp = (\<lambda>_. demo_payload),
     m_pkt = (\<lambda>_. me_Packet (demo_menv True) 0 0 0 ReadReq), m_next = 0, m_curTick = 0, m_now = 0, m_log = []\<rparr>"

theorem master_port_invariant_witness:
  "\<exists>w'. mp_nb_transport_fw 0 BEGIN_REQ 0 demo_mworld = (TLM_ACCEPTED, w') \<and> mp_ok (m_port w')"
proof -
  obtain w' where w': "mp_nb_transport_fw 0 BEGIN_REQ 0 demo_mworld = (TLM_ACCEPTED, w')"
    by (simp add: mp_nb_transport_fw_def demo_mworld_def demo_payload_def)
  have "(master_step (demo_menv True))\<^sup>*\<^sup>* demo_mworld w'"
    using master_step.Fw [OF w'] by blast
  moreover have "m_port demo_mworld = SCMasterPort" by (simp add: demo_mworld_def)
  ultimately show ?thesis using master_port_invariant [OF demo_menv_quiet] w' by blast
qed

end
