(* ===== verification/Master_Traces.thy ===== *)
theory Master_Traces
  imports Master_Properties
begin

text \<open>
  What the operations of the master port do on each branch, for calls that return: requests that gem5
  takes at once or after a retry, the way back from a response packet to its transaction, rejected
  transactions, blocking accesses, and the two defects of the end of a response.
\<close>

section \<open>Requests\<close>

text \<open>The initiator accepts what it is sent, and a transactor is bound.\<close>

definition accepting :: "master_env \<Rightarrow> bool" where
  "accepting E \<longleftrightarrow> quiet E \<and> (\<forall>t ph d w a w'. me_nb_transport_bw E t ph d w = Inr (a, w') \<longrightarrow> fst a = TLM_ACCEPTED)"

lemma accepting_sendEndReq:
  assumes "accepting E" and "mp_transactor (m_port w) \<noteq> None"
  shows "sendEndReq E t w = Inr (m_note (Nb_transport_bw t END_REQ 0) w)"
proof -
  obtain a where "me_nb_transport_bw E t END_REQ 0 (m_note (Nb_transport_bw t END_REQ 0) w)
        = Inr (a, m_note (Nb_transport_bw t END_REQ 0) w)"
      "call_nb_transport_bw E t END_REQ 0 w = Inr (a, m_note (Nb_transport_bw t END_REQ 0) w)"
    using assms quiet_nb_transport_bw [of E w] unfolding accepting_def by blast
  moreover from this(1) have "fst a = TLM_ACCEPTED" using assms(1) unfolding accepting_def by blast
  ultimately show ?thesis by (simp add: sendEndReq_def case_prod_beta)
qed

text \<open>The end of a request: \<open>END_REQ\<close> goes out and the transaction is released.\<close>

lemma end_request:
  assumes "accepting E" and "mp_transactor (m_port w) \<noteq> None"
  obtains p where "bindr (sendEndReq E t w) (m_release E t)
    = Inr (m_set_gp t p (m_note (M_release t) (m_note (Nb_transport_bw t END_REQ 0) w)))"
proof -
  have "quiet E" using assms(1) by (simp add: accepting_def)
  then obtain p where "m_release E t (m_note (Nb_transport_bw t END_REQ 0) w)
      = Inr (m_set_gp t p (m_note (M_release t) (m_note (Nb_transport_bw t END_REQ 0) w)))"
    by (rule quiet_release)
  with that show thesis using accepting_sendEndReq [OF assms] by simp
qed

lemma packet_for_total:
  assumes "gp_extension (m_gp w t) \<noteq> None \<or> gp_command (m_gp w t) \<noteq> TLM_IGNORE_COMMAND"
  obtains pkt w' where "packet_for E t w = Inr (pkt, w')"
  using assms
  by (cases "gp_extension (m_gp w t)"; cases "gp_command (m_gp w t)")
    (auto simp: packet_for_def generatePacket_def Let_def)

text \<open>
  What the start of a request does in an idle port. The transaction is acquired, its packet - the
  original one, or a new one for a transaction from outside gem5 - gets it as sender state and is
  offered to gem5 once. If gem5 takes the packet, \<open>END_REQ\<close> is sent and the reference given back; if
  not, exactly this transaction and packet are kept for the retry, with the reference.
\<close>

theorem begin_req_outcome:
  assumes acc: "accepting E" and bound: "mp_transactor (m_port w) \<noteq> None"
    and idle: "mp_ok (m_port w)" "\<not> waitForRetry (m_port w)"
    and cmd: "gp_extension (m_gp w t) \<noteq> None \<or> gp_command (m_gp w t) \<noteq> TLM_IGNORE_COMMAND"
    and answer: "\<And>pkt v. me_sendTimingReq E pkt v = Inr (sent, v)"
  shows "\<exists>pkt w'. handleBeginReq E t w = Inr w'
     \<and> (\<exists>ss. pkt_senderStates (m_pkt w' pkt) = TlmSenderState t # ss)
     \<and> (\<forall>e. gp_extension (m_gp w t) = Some e \<longrightarrow> pkt = Packet e)
     \<and> m_log w' = m_log w @ M_acquire t # (if gp_extension (m_gp w t) = None then [New_packet pkt] else [])
         @ [Send_timing_req pkt] @ (if sent then [Nb_transport_bw t END_REQ 0, M_release t] else [])
     \<and> m_port w' = (if sent then m_port w else
         (m_port w)\<lparr>waitForRetry := True, pendingRequest := Some t, pendingPacket := Some pkt\<rparr>)"
proof -
  have q: "quiet E" using acc by (simp add: accepting_def)
  have none: "pendingRequest (m_port w) = None" "pendingPacket (m_port w) = None"
    using idle by (auto simp: mp_ok_def)
  have cmd': "gp_extension (m_gp (m_acquire t w) t) \<noteq> None \<or> gp_command (m_gp (m_acquire t w) t) \<noteq> TLM_IGNORE_COMMAND"
    using cmd by (simp add: frame_simps)
  obtain pkt w1 where p: "packet_for E t (m_acquire t w) = Inr (pkt, w1)"
    using packet_for_total [OF cmd'] .
  note f = packet_for_frame [OF p]
  define w2 where "w2 = m_set_pkt pkt (pushSenderState (TlmSenderState t) (m_pkt w1 pkt)) w1"
  have s: "sendTimingReq E pkt w2 = Inr (sent, m_note (Send_timing_req pkt) w2)"
    by (simp add: sendTimingReq_def answer)
  define w3 where "w3 = m_note (Send_timing_req pkt) w2"
  have h: "handleBeginReq E t w = (if sent then bindr (sendEndReq E t w3) (m_release E t)
      else Inr (m_upd (\<lambda>p. p\<lparr>waitForRetry := True, pendingRequest := Some t, pendingPacket := Some pkt\<rparr>) w3))"
    using idle(2) none p s by (simp add: handleBeginReq_def w2_def w3_def)
  have w3: "m_port w3 = m_port w" "\<exists>ss. pkt_senderStates (m_pkt w3 pkt) = TlmSenderState t # ss"
      "m_log w3 = m_log w @ M_acquire t # (if gp_extension (m_gp w t) = None then [New_packet pkt] else [])
         @ [Send_timing_req pkt]"
    using f by (simp_all add: w3_def w2_def frame_simps pushSenderState_def)
  have pkt: "\<forall>e. gp_extension (m_gp w t) = Some e \<longrightarrow> pkt = Packet e"
    using p by (auto simp: packet_for_def frame_simps getPacket_def)
  have "mp_transactor (m_port w3) \<noteq> None" using bound w3(1) by simp
  then obtain p' where e: "bindr (sendEndReq E t w3) (m_release E t)
      = Inr (m_set_gp t p' (m_note (M_release t) (m_note (Nb_transport_bw t END_REQ 0) w3)))"
    by (rule end_request [OF acc])
  show ?thesis
  proof (cases sent)
    case True
    with h e w3 pkt show ?thesis by (intro exI [of _ pkt]) (simp add: frame_simps)
  next
    case False
    with h w3 pkt show ?thesis by (intro exI [of _ pkt]) (simp add: frame_simps)
  qed
qed

definition demo_bound_mworld :: mworld where
  "demo_bound_mworld = demo_mworld\<lparr>m_port := SCMasterPort\<lparr>mp_transactor := Some ''t''\<rparr>\<rparr>"

lemma demo_accepting: "accepting (demo_menv b)"
  using demo_menv_quiet by (auto simp: accepting_def demo_menv_def)

lemma demo_bound_mworld_ok:
  "mp_transactor (m_port demo_bound_mworld) \<noteq> None" "mp_ok (m_port demo_bound_mworld)"
  "\<not> waitForRetry (m_port demo_bound_mworld)" "\<not> responseInProgress (m_port demo_bound_mworld)"
  "gp_extension (m_gp demo_bound_mworld 0) = None" "gp_command (m_gp demo_bound_mworld 0) = TLM_READ_COMMAND"
  "m_log demo_bound_mworld = []"
  by (simp_all add: demo_bound_mworld_def demo_mworld_def SCMasterPort_def mp_ok_def demo_payload_def)

theorem begin_req_outcome_witness:
  "\<exists>pkt w'. handleBeginReq (demo_menv True) 0 demo_bound_mworld = Inr w'
     \<and> m_log w' = [M_acquire 0, New_packet pkt, Send_timing_req pkt, Nb_transport_bw 0 END_REQ 0, M_release 0]"
  using begin_req_outcome [OF demo_accepting, of demo_bound_mworld 0 True True] demo_bound_mworld_ok
  by (auto simp: demo_menv_def)

text \<open>
  A retry from gem5 completes the request that waits. The kept packet is offered again; if gem5
  takes it, \<open>END_REQ\<close> is sent for the kept transaction, its reference is given back and the port is
  idle; if not, the port keeps waiting for the same packet.
\<close>

theorem retry_completes_request:
  assumes acc: "accepting E" and bound: "mp_transactor (m_port w) \<noteq> None"
    and wait: "waitForRetry (m_port w)" "pendingRequest (m_port w) = Some t" "pendingPacket (m_port w) = Some pkt"
    and answer: "\<And>v. me_sendTimingReq E pkt v = Inr (sent, v)"
  shows "\<exists>w'. recvReqRetry E w = Inr w'
     \<and> m_log w' = m_log w @ [Send_timing_req pkt] @ (if sent then [Nb_transport_bw t END_REQ 0, M_release t] else [])
     \<and> m_port w' = (if sent
         then (m_port w)\<lparr>waitForRetry := False, pendingRequest := None, pendingPacket := None\<rparr> else m_port w)"
proof -
  have q: "quiet E" using acc by (simp add: accepting_def)
  have s: "sendTimingReq E pkt w = Inr (sent, m_note (Send_timing_req pkt) w)"
    by (simp add: sendTimingReq_def answer)
  define w1 where "w1 = m_upd (\<lambda>p. p\<lparr>waitForRetry := False, pendingPacket := None\<rparr>)
      (m_note (Send_timing_req pkt) w)"
  have "mp_transactor (m_port w1) \<noteq> None" using bound by (simp add: w1_def frame_simps)
  then obtain p' where e: "bindr (sendEndReq E t w1) (m_release E t)
      = Inr (m_set_gp t p' (m_note (M_release t) (m_note (Nb_transport_bw t END_REQ 0) w1)))"
    by (rule end_request [OF acc])
  have r: "recvReqRetry E w = (if sent
      then bindr (bindr (sendEndReq E t w1) (m_release E t)) (\<lambda>w. Inr (m_upd (\<lambda>p. p\<lparr>pendingRequest := None\<rparr>) w))
      else Inr (m_note (Send_timing_req pkt) w))"
    using wait s by (simp add: recvReqRetry_def w1_def frame_simps bindr_assoc)
  show ?thesis
  proof (cases sent)
    case True
    with r e show ?thesis by (simp add: frame_simps w1_def)
  next
    case False
    with r show ?thesis by (simp add: frame_simps)
  qed
qed

definition demo_waiting :: mworld where
  "demo_waiting = demo_bound_mworld\<lparr>m_port := (m_port demo_bound_mworld)\<lparr>waitForRetry := True,
     pendingRequest := Some 4, pendingPacket := Some 6\<rparr>\<rparr>"

theorem retry_completes_request_witness:
  "\<exists>w'. recvReqRetry (demo_menv True) demo_waiting = Inr w'
     \<and> m_log w' = [Send_timing_req 6, Nb_transport_bw 4 END_REQ 0, M_release 4]"
proof -
  have "mp_transactor (m_port demo_waiting) \<noteq> None" "waitForRetry (m_port demo_waiting)"
      "pendingRequest (m_port demo_waiting) = Some 4" "pendingPacket (m_port demo_waiting) = Some 6"
      "m_log demo_waiting = []" "\<And>v. me_sendTimingReq (demo_menv True) 6 v = Inr (True, v)"
    using demo_bound_mworld_ok(1,7) by (simp_all add: demo_waiting_def demo_menv_def)
  then show ?thesis using retry_completes_request [OF demo_accepting, of demo_waiting 4 6 True True] by auto
qed

section \<open>Responses\<close>

lemma recvTimingResp_trace:
  assumes q: "quiet E" and bound: "mp_transactor (m_port w) \<noteq> None"
    and free: "\<not> responseInProgress (m_port w)"
    and pkt: "g_isResponse (me_gem5 E) (pkt_cmd (m_pkt w pkt))"
      "pkt_senderStates (m_pkt w pkt) = TlmSenderState t # ss"
    and answer: "\<And>d v. \<exists>d'. me_nb_transport_bw E t BEGIN_RESP d v = Inr ((st, ph, d'), v)"
      "st = TLM_UPDATED \<longrightarrow> ph = END_RESP"
  shows "\<exists>w'. recvTimingResp E pkt w = Inr (True, w')
     \<and> m_log w' = m_log w @ (if gp_extension (m_gp w t) = None then [Delete_packet pkt] else [])
         @ [Nb_transport_bw t BEGIN_RESP (pkt_payloadDelay (m_pkt w pkt)), M_release t]
     \<and> pkt_senderStates (m_pkt w' pkt) = ss \<and> pkt_payloadDelay (m_pkt w' pkt) = 0
     \<and> m_port w' = (m_port w)\<lparr>responseInProgress := (st = TLM_ACCEPTED)\<rparr>"
proof -
  let ?d = "pkt_payloadDelay (m_pkt w pkt)"
  define p where "p = (m_pkt w pkt)\<lparr>pkt_payloadDelay := 0, pkt_headerDelay := 0, pkt_senderStates := ss\<rparr>"
  define w1 where "w1 = (let w1 = m_set_pkt pkt p w in
      if gp_extension (m_gp w1 t) = None then destroyPacket pkt w1 else w1)"
  have w1: "m_port w1 = m_port w" "m_pkt w1 pkt = p"
      "m_log w1 = m_log w @ (if gp_extension (m_gp w t) = None then [Delete_packet pkt] else [])"
    by (simp_all add: w1_def Let_def frame_simps)
  have pop: "popSenderState ((m_pkt w pkt)\<lparr>pkt_payloadDelay := 0, pkt_headerDelay := 0\<rparr>) = Inr (TlmSenderState t, p)"
    using pkt(2) by (simp add: popSenderState_def p_def)
  have r: "recvTimingResp E pkt w = bindr (sendBeginResp E t ?d w1) (\<lambda>w. bindr (m_release E t w) (\<lambda>w. Inr (True, w)))"
    using free pkt(1) pop by (simp add: recvTimingResp_def w1_def Let_def)
  define w2 where "w2 = m_upd (\<lambda>p. p\<lparr>responseInProgress := (st = TLM_ACCEPTED)\<rparr>)
      (m_note (Nb_transport_bw t BEGIN_RESP ?d) (m_set_gp t ((m_gp w1 t)\<lparr>gp_response_status := TLM_OK_RESPONSE\<rparr>) w1))"
  obtain d' where "me_nb_transport_bw E t BEGIN_RESP ?d (m_note (Nb_transport_bw t BEGIN_RESP ?d)
        (m_set_gp t ((m_gp w1 t)\<lparr>gp_response_status := TLM_OK_RESPONSE\<rparr>) w1))
      = Inr ((st, ph, d'), m_note (Nb_transport_bw t BEGIN_RESP ?d)
        (m_set_gp t ((m_gp w1 t)\<lparr>gp_response_status := TLM_OK_RESPONSE\<rparr>) w1))"
    using answer(1) by blast
  then have "sendBeginResp E t ?d w1 = Inr w2"
    using bound answer(2) w1(1)
    by (cases st) (auto simp: sendBeginResp_def Let_def call_nb_transport_bw_def frame_simps w2_def)
  moreover obtain p' where "m_release E t w2 = Inr (m_set_gp t p' (m_note (M_release t) w2))"
    using quiet_release [OF q] .
  ultimately show ?thesis using r w1 by (simp add: w2_def frame_simps p_def)
qed

text \<open>
  C28: a response packet finds its way back. When no response is in progress and the transaction is
  the packet's top sender state, \<open>recvTimingResp\<close> takes the packet, pops that state only, sends
  \<open>BEGIN_RESP\<close> for this transaction with the packet's payload delay and gives the reference back; a
  packet the port had generated is deleted, one piped through is not. A further response is refused
  with a debt until \<open>END_RESP\<close> exactly when the initiator accepted without completing.
\<close>

theorem response_finds_transaction:
  assumes q: "quiet E" and bound: "mp_transactor (m_port w) \<noteq> None"
    and free: "\<not> responseInProgress (m_port w)"
    and pkt: "g_isResponse (me_gem5 E) (pkt_cmd (m_pkt w pkt))"
      "pkt_senderStates (m_pkt w pkt) = TlmSenderState t # ss"
    and answer: "\<And>d v. \<exists>d'. me_nb_transport_bw E t BEGIN_RESP d v = Inr ((st, ph, d'), v)"
      "st = TLM_UPDATED \<longrightarrow> ph = END_RESP"
  shows "\<exists>w'. recvTimingResp E pkt w = Inr (True, w')
     \<and> m_log w' = m_log w @ (if gp_extension (m_gp w t) = None then [Delete_packet pkt] else [])
         @ [Nb_transport_bw t BEGIN_RESP (pkt_payloadDelay (m_pkt w pkt)), M_release t]
     \<and> pkt_senderStates (m_pkt w' pkt) = ss \<and> pkt_payloadDelay (m_pkt w' pkt) = 0
     \<and> m_port w' = (m_port w)\<lparr>responseInProgress := (st = TLM_ACCEPTED)\<rparr>"
  using assms by (rule recvTimingResp_trace)

definition demo_response :: mworld where
  "demo_response = demo_bound_mworld\<lparr>m_pkt := (\<lambda>_. (m_pkt demo_mworld 0)\<lparr>pkt_cmd := OtherCmd 1,
     pkt_payloadDelay := 9, pkt_senderStates := [TlmSenderState 2, OtherSenderState 8]\<rparr>)\<rparr>"

theorem response_finds_transaction_witness:
  "\<exists>w'. recvTimingResp (demo_menv True) 0 demo_response = Inr (True, w')
     \<and> m_log w' = [Delete_packet 0, Nb_transport_bw 2 BEGIN_RESP 9, M_release 2]
     \<and> responseInProgress (m_port w')"
proof -
  have "m_port demo_response = m_port demo_bound_mworld" "m_log demo_response = []"
      "gp_extension (m_gp demo_response 2) = None" "pkt_payloadDelay (m_pkt demo_response 0) = 9"
      "pkt_senderStates (m_pkt demo_response 0) = [TlmSenderState 2, OtherSenderState 8]"
      "g_isResponse (me_gem5 (demo_menv True)) (pkt_cmd (m_pkt demo_response 0))"
      "\<And>d v. \<exists>d'. me_nb_transport_bw (demo_menv True) 2 BEGIN_RESP d v = Inr ((TLM_ACCEPTED, BEGIN_RESP, d'), v)"
    by (simp_all add: demo_response_def demo_bound_mworld_def demo_mworld_def demo_payload_def demo_menv_def demo_gem5_def)
  then show ?thesis
    using response_finds_transaction [OF demo_menv_quiet, of demo_response True 0 2 "[OtherSenderState 8]"
      TLM_ACCEPTED BEGIN_RESP] demo_bound_mworld_ok by auto
qed

text \<open>
  A transaction the port cannot serve is completed at once with the matching error status, and
  changes nothing else: byte enables are refused before bursts (a streaming width below the length).
  Every other transaction is acquired and queued, with its phase and delay.
\<close>

theorem unsupported_is_refused:
  "mp_nb_transport_fw t ph d w =
     (if gp_byte_enable_ptr (m_gp w t) \<noteq> None \<or> gp_streaming_width (m_gp w t) < gp_data_length (m_gp w t)
      then (TLM_COMPLETED, w\<lparr>m_gp := (m_gp w)(t := (m_gp w t)\<lparr>gp_response_status :=
              if gp_byte_enable_ptr (m_gp w t) \<noteq> None then TLM_BYTE_ENABLE_ERROR_RESPONSE
              else TLM_BURST_ERROR_RESPONSE\<rparr>)\<rparr>)
      else (TLM_ACCEPTED, w\<lparr>m_log := m_log w @ [M_acquire t, Peq_notify t ph d]\<rparr>))"
  by (auto simp: mp_nb_transport_fw_def Let_def m_set_gp_def m_acquire_def m_note_def)

theorem unsupported_is_refused_witness:
  "\<exists>w'. mp_nb_transport_fw 0 BEGIN_REQ 0 (demo_mworld\<lparr>m_gp := (\<lambda>_. demo_payload\<lparr>gp_streaming_width := 4\<rparr>)\<rparr>)
       = (TLM_COMPLETED, w')
     \<and> gp_response_status (m_gp w' 0) = TLM_BURST_ERROR_RESPONSE \<and> m_log w' = []"
  using unsupported_is_refused [of 0 BEGIN_REQ 0 "demo_mworld\<lparr>m_gp := (\<lambda>_. demo_payload\<lparr>gp_streaming_width := 4\<rparr>)\<rparr>"]
  by (simp add: demo_mworld_def demo_payload_def)

section \<open>Packets and payloads\<close>

lemma packet2payload_fields:
  assumes "gem5_lib_ok G" and "pkt_cmd p = ReadReq \<or> pkt_cmd p = WriteReq" and "packet2payload G p q = Inr r"
  shows "gp_address r = pkt_addr p" "gp_data_length r = pkt_size p" "gp_data_ptr r = pkt_data p"
    "gp_command r = (if pkt_cmd p = ReadReq then TLM_READ_COMMAND else TLM_WRITE_COMMAND)"
  using assms by (auto simp: packet2payload_def Let_def gem5_lib_ok_def split: if_splits)

text \<open>
  C36: translating back and forth loses nothing. A payload that the slave port fills from a read or
  write packet, without the packet attached, makes the master port generate a packet with the same
  address, size, data and command, carrying the port's own requestor id.
\<close>

theorem packet_payload_round_trip:
  assumes G: "gem5_lib_ok (me_gem5 E)"
    and ctor: "\<And>addr size i cmd. pkt_addr (me_Packet E addr size i cmd) = addr
        \<and> pkt_size (me_Packet E addr size i cmd) = size \<and> pkt_requestorId (me_Packet E addr size i cmd) = i
        \<and> pkt_cmd (me_Packet E addr size i cmd) = cmd"
    and cmd: "pkt_cmd p = ReadReq \<or> pkt_cmd p = WriteReq"
    and fill: "packet2payload (me_gem5 E) p q = Inr (m_gp w t)"
  shows "\<exists>i w'. generatePacket E t w = Inr (i, w') \<and> pkt_addr (m_pkt w' i) = pkt_addr p
     \<and> pkt_size (m_pkt w' i) = pkt_size p \<and> pkt_data (m_pkt w' i) = pkt_data p
     \<and> pkt_cmd (m_pkt w' i) = pkt_cmd p \<and> pkt_requestorId (m_pkt w' i) = me_owner_id E"
proof -
  note packet2payload_fields [OF G cmd fill]
  then show ?thesis using cmd ctor by (auto simp: generatePacket_def Let_def frame_simps)
qed

definition demo_pkt :: packet where
  "demo_pkt = (me_Packet (demo_menv True) 64 8 1 WriteReq)\<lparr>pkt_data := 5\<rparr>"

theorem packet_payload_round_trip_witness:
  "\<exists>q w i w'. packet2payload demo_gem5 demo_pkt demo_payload = Inr q \<and> m_gp w 0 = q
     \<and> generatePacket (demo_menv True) 0 w = Inr (i, w') \<and> pkt_addr (m_pkt w' i) = 64
     \<and> pkt_cmd (m_pkt w' i) = WriteReq"
proof -
  define q where "q = demo_payload\<lparr>gp_address := 64, gp_command := TLM_WRITE_COMMAND\<rparr>"
  define w where "w = demo_mworld\<lparr>m_gp := (\<lambda>_. q)\<rparr>"
  have fill: "packet2payload (me_gem5 (demo_menv True)) demo_pkt demo_payload = Inr (m_gp w 0)"
    by (simp add: packet2payload_def demo_pkt_def demo_menv_def demo_gem5_def demo_payload_def q_def w_def)
  have G: "gem5_lib_ok (me_gem5 (demo_menv True))" using demo_gem5_ok by (simp add: demo_menv_def)
  obtain i w' where "generatePacket (demo_menv True) 0 w = Inr (i, w')" "pkt_addr (m_pkt w' i) = pkt_addr demo_pkt"
      "pkt_cmd (m_pkt w' i) = pkt_cmd demo_pkt"
    using packet_payload_round_trip [OF G _ _ fill] by (auto simp: demo_menv_def demo_pkt_def)
  moreover have "packet2payload demo_gem5 demo_pkt demo_payload = Inr (m_gp w 0)"
    using fill by (simp add: demo_menv_def)
  moreover have "pkt_addr demo_pkt = 64" "pkt_cmd demo_pkt = WriteReq" by (simp_all add: demo_pkt_def demo_menv_def)
  ultimately show ?thesis by metis
qed

section \<open>The end of a response\<close>

definition refs :: "ptr \<Rightarrow> mcall list \<Rightarrow> int" where
  "refs t cs = int (count_list cs (M_acquire t)) - int (count_list cs (M_release t))"

text \<open>
  The end of a response leaks a reference. The \<open>END_RESP\<close> of a supported transaction is acquired
  when it is queued, and neither the callback nor anything it calls releases it: after the phase has
  been handled, the transaction has one reference more than before it came in, so it never returns
  to its memory manager.
\<close>

theorem end_resp_leaks_reference:
  assumes q: "quiet E" and "responseInProgress (m_port w)"
    and "gp_byte_enable_ptr (m_gp w t) = None" "\<not> gp_streaming_width (m_gp w t) < gp_data_length (m_gp w t)"
    and "\<not> tl_is_response_error (me_tlm E) (gp_response_status (m_gp w t))"
  shows "\<exists>w1 w2. mp_nb_transport_fw t END_RESP d w = (TLM_ACCEPTED, w1) \<and> mp_peq_cb E t END_RESP w1 = Inr w2
     \<and> refs t (m_log w2) = refs t (m_log w) + 1 \<and> \<not> responseInProgress (m_port w2)"
proof -
  have q': "\<And>v. me_catchup E v = Inr (v\<lparr>m_curTick := m_now v\<rparr>)" "\<And>v. me_notify E v = Inr v"
      "\<And>v. me_sendRetryResp E v = Inr v"
    using q by (simp_all add: quiet_def)
  show ?thesis
    using assms(2-)
    by (simp add: mp_nb_transport_fw_def mp_peq_cb_def q' frame_simps handleEndResp_def checkTransaction_def
        sendRetryResp_def refs_def Let_def)
qed

theorem end_resp_leaks_reference_witness:
  "\<exists>w1 w2. mp_nb_transport_fw 0 END_RESP 0 (demo_mworld\<lparr>m_port := SCMasterPort\<lparr>responseInProgress := True\<rparr>\<rparr>) = (TLM_ACCEPTED, w1)
     \<and> mp_peq_cb (demo_menv True) 0 END_RESP w1 = Inr w2 \<and> refs 0 (m_log w2) = 1"
  using end_resp_leaks_reference [OF demo_menv_quiet, of "demo_mworld\<lparr>m_port := SCMasterPort\<lparr>responseInProgress := True\<rparr>\<rparr>" 0 True 0]
  by (auto simp: demo_mworld_def demo_payload_def demo_menv_def demo_tlm_def refs_def)

text \<open>
  The debt of a retry is cleared too late. \<open>handleEndResp\<close> tells gem5 to retry while
  \<open>needToSendRetry\<close> is still set, so if gem5 delivers two responses inside that call - the first of
  which the initiator accepts without completing - the second one fails the assertion that no debt is
  recorded yet, instead of being refused.
\<close>

theorem second_response_in_retry_asserts:
  assumes q: "quiet E" and bound: "mp_transactor (m_port w) \<noteq> None"
    and state: "responseInProgress (m_port w)" "needToSendRetry (m_port w)"
    and status: "\<not> tl_is_response_error (me_tlm E) (gp_response_status (m_gp w t0))"
    and pkt: "g_isResponse (me_gem5 E) (pkt_cmd (m_pkt w pkt))"
      "pkt_senderStates (m_pkt w pkt) = TlmSenderState t # ss"
    and answer: "\<And>d v. \<exists>d'. me_nb_transport_bw E t BEGIN_RESP d v = Inr ((TLM_ACCEPTED, ph, d'), v)"
    and two: "E2 = E\<lparr>me_sendRetryResp := (\<lambda>v. bindr (recvTimingResp E pkt v) (\<lambda>(_, v).
        bindr (recvTimingResp E pkt' v) (\<lambda>(_, v). Inr v)))\<rparr>"
  shows "handleEndResp E2 t0 w = Inl Sc_assert_failed"
proof -
  define v where "v = m_note Send_retry_resp (m_upd (\<lambda>p. p\<lparr>responseInProgress := False\<rparr>) w)"
  have v: "m_port v = (m_port w)\<lparr>responseInProgress := False\<rparr>" "m_pkt v = m_pkt w"
    by (simp_all add: v_def frame_simps)
  obtain v1 where v1: "recvTimingResp E pkt v = Inr (True, v1)" "m_port v1 = (m_port v)\<lparr>responseInProgress := True\<rparr>"
    using recvTimingResp_trace [OF q, of v pkt t ss TLM_ACCEPTED ph] bound pkt answer v by auto
  then have "recvTimingResp E pkt' v1 = Inl Sc_assert_failed"
    using state(2) v(1) by (simp add: recvTimingResp_def)
  then show ?thesis
    using v1(1) state status
    by (simp add: handleEndResp_def checkTransaction_def frame_simps sendRetryResp_def two v_def [symmetric] Let_def)
qed

theorem second_response_in_retry_asserts_witness:
  "\<exists>E w. responseInProgress (m_port w) \<and> needToSendRetry (m_port w) \<and> handleEndResp E 0 w = Inl Sc_assert_failed"
proof -
  let ?w = "demo_response\<lparr>m_port := (m_port demo_bound_mworld)\<lparr>responseInProgress := True, needToSendRetry := True\<rparr>\<rparr>"
  have "handleEndResp ((demo_menv True)\<lparr>me_sendRetryResp := (\<lambda>v. bindr (recvTimingResp (demo_menv True) 0 v) (\<lambda>(_, v).
        bindr (recvTimingResp (demo_menv True) 1 v) (\<lambda>(_, v). Inr v)))\<rparr>) 0 ?w = Inl Sc_assert_failed"
    by (rule second_response_in_retry_asserts [OF demo_menv_quiet, where t = 2 and ss = "[OtherSenderState 8]"
          and ph = BEGIN_RESP and pkt = 0 and pkt' = 1])
      (use demo_bound_mworld_ok(1) in \<open>simp_all add: demo_response_def demo_bound_mworld_def demo_mworld_def
        demo_payload_def demo_menv_def demo_gem5_def demo_tlm_def SCMasterPort_def\<close>)
  then show ?thesis by (intro exI conjI) simp_all
qed

end
