(* ===== verification/Master_System.thy ===== *)
theory Master_System
  imports Master_Traces
begin

text \<open>
  A master port between an initiator and gem5, as one system. The initiator keeps the rules of the TLM base
  protocol: it begins a request with a transaction that is not in use and only when the request before
  has ended, and it ends each response once. gem5 keeps the rules of its timing ports: a request that it
  refuses it asks for again, a packet it has accepted it answers once and with the sender states it got,
  and a refused response it sends again only after \<open>sendRetryResp\<close>, if it likes at once: from inside that call it
  may send one response. The initiator may end a response with its answer to \<open>BEGIN_RESP\<close>. Each operation
  of the port runs as modelled; the calls it has logged are then carried out on both sides.

  Not in the system: a second response from inside one \<open>sendRetryResp\<close>, which the port's assertion stops
  (\<open>second_response_in_retry_asserts\<close>), and a response from inside \<open>sendTimingReq\<close>, before the request has ended.
\<close>

section \<open>State\<close>

text \<open>
  The port with its payload event queue; the initiator's request that has not been ended and the
  transactions whose response has begun; the packets that gem5 has accepted, whether it will ask for a
  refused request again and whether it waits for \<open>sendRetryResp\<close>. \<open>u_refs\<close> counts the port's references to
  each transaction, \<open>u_ended\<close> how often the initiator has ended a response of it with \<open>END_RESP\<close>.
\<close>

record msys =
  u_port :: mworld
  u_peq :: "(ptr \<times> tlm_phase) list"
  u_request :: "ptr option"
  u_answered :: "ptr list"
  u_gem5 :: "ptr list"
  u_retry :: bool
  u_refused :: bool
  u_refs :: "ptr \<Rightarrow> int"
  u_ended :: "ptr \<Rightarrow> int"

record master_lib =
  ml_tlm :: tlm_lib
  ml_gem5 :: gem5_lib
  ml_owner_id :: nat
  ml_Packet :: "u64 \<Rightarrow> u32 \<Rightarrow> nat \<Rightarrow> mem_cmd \<Rightarrow> packet"
  ml_sc_time :: "tick \<Rightarrow> tick"

text \<open>
  The port's environment: \<open>accept\<close> says whether gem5 takes a request now, \<open>ans\<close> what the initiator answers to
  the start of a response. The end of a request it can only accept.
\<close>

type_synonym bw_answer = "tlm_sync_enum \<times> tlm_phase \<times> tick"

definition master_env_of :: "master_lib \<Rightarrow> bool \<Rightarrow> bw_answer \<Rightarrow> master_env" where
  "master_env_of L accept ans = \<lparr>me_tlm = ml_tlm L, me_gem5 = ml_gem5 L, me_owner_id = ml_owner_id L,
     me_Packet = ml_Packet L, me_sc_time = ml_sc_time L, me_isTimingMode = True, me_isAtomicMode = False,
     me_catchup = (\<lambda>w. Inr (w\<lparr>m_curTick := m_now w\<rparr>)), me_notify = Inr, me_release = (\<lambda>t. Inr),
     me_sendTimingReq = (\<lambda>pkt w. Inr (accept, w)), me_sendRetryResp = Inr,
     me_sendAtomic = (\<lambda>pkt w. Inr (0, w)), me_sendFunctional = (\<lambda>pkt. Inr),
     me_nb_transport_bw = (\<lambda>t ph d w. Inr (if ph = BEGIN_RESP then ans else (TLM_ACCEPTED, ph, d), w))\<rparr>"

text \<open>The answers to \<open>BEGIN_RESP\<close> that the base protocol has; two of them end the response.\<close>

definition closes :: "bw_answer \<Rightarrow> bool" where
  "closes ans \<longleftrightarrow> fst ans = TLM_COMPLETED \<or> fst ans = TLM_UPDATED \<and> fst (snd ans) = END_RESP"

definition answer_ok :: "bw_answer \<Rightarrow> bool" where
  "answer_ok ans \<longleftrightarrow> fst ans = TLM_ACCEPTED \<or> closes ans"

text \<open>gem5 sends the packet, turned into the response \<open>q\<close>, from inside \<open>sendRetryResp\<close>.\<close>

definition retry_env :: "master_lib \<Rightarrow> bw_answer \<Rightarrow> ptr \<Rightarrow> packet \<Rightarrow> master_env" where
  "retry_env L ans pkt q = (master_env_of L True ans)\<lparr>me_sendRetryResp :=
     (\<lambda>w. bindr (recvTimingResp (master_env_of L True ans) pkt (m_set_pkt pkt q w)) (\<lambda>(taken, w'). Inr w'))\<rparr>"

section \<open>Carrying out the calls\<close>

fun carry :: "bool \<Rightarrow> mcall \<Rightarrow> msys \<Rightarrow> msys" where
  "carry accept (Peq_notify t ph d) s = s\<lparr>u_peq := u_peq s @ [(t, ph)]\<rparr>"
| "carry accept (Nb_transport_bw t END_REQ d) s = s\<lparr>u_request := (if u_request s = Some t then None else u_request s)\<rparr>"
| "carry accept (Nb_transport_bw t BEGIN_RESP d) s = s\<lparr>u_answered := u_answered s @ [t]\<rparr>"
| "carry accept (Send_timing_req pkt) s = (if accept then s\<lparr>u_gem5 := u_gem5 s @ [pkt]\<rparr> else s\<lparr>u_retry := True\<rparr>)"
| "carry accept Send_retry_resp s = s\<lparr>u_refused := False\<rparr>"
| "carry accept (M_acquire t) s = s\<lparr>u_refs := (u_refs s)(t := u_refs s t + 1)\<rparr>"
| "carry accept (M_release t) s = s\<lparr>u_refs := (u_refs s)(t := u_refs s t - 1)\<rparr>"
| "carry accept _ s = s"

definition master_done :: "bool \<Rightarrow> mworld \<Rightarrow> msys \<Rightarrow> msys" where
  "master_done accept w s = fold (carry accept) (drop (length (m_log (u_port s))) (m_log w)) (s\<lparr>u_port := w\<rparr>)"

section \<open>Steps\<close>

definition sys_begin :: "ptr \<Rightarrow> payload \<Rightarrow> tick \<Rightarrow> msys \<Rightarrow> msys" where
  "sys_begin t p d s =
     (let w0 = m_set_gp t p (u_port s); (status, w) = mp_nb_transport_fw t BEGIN_REQ d w0
      in if status = TLM_ACCEPTED then (master_done True w s)\<lparr>u_request := Some t\<rparr> else s\<lparr>u_port := w\<rparr>)"

definition sys_end :: "ptr \<Rightarrow> tick \<Rightarrow> msys \<Rightarrow> msys" where
  "sys_end t d s =
     (let (status, w) = mp_nb_transport_fw t END_RESP d (u_port s)
      in (master_done True w s)\<lparr>u_answered := remove1 t (u_answered s), u_ended := (u_ended s)(t := u_ended s t + 1)\<rparr>)"

text \<open>The answers of the initiator matter only where a response begins.\<close>

abbreviation plain_env :: "master_lib \<Rightarrow> bool \<Rightarrow> master_env" where
  "plain_env L accept \<equiv> master_env_of L accept (TLM_ACCEPTED, BEGIN_RESP, 0)"

definition sys_phase :: "master_lib \<Rightarrow> bool \<Rightarrow> ptr \<times> tlm_phase \<Rightarrow> msys \<Rightarrow> msys res" where
  "sys_phase L accept m s =
     bindr (mp_peq_cb (plain_env L accept) (fst m) (snd m) (u_port s)) (\<lambda>w.
       Inr (master_done accept w (s\<lparr>u_peq := remove1 m (u_peq s)\<rparr>)))"

definition sys_req_retry :: "master_lib \<Rightarrow> bool \<Rightarrow> msys \<Rightarrow> msys res" where
  "sys_req_retry L accept s =
     bindr (recvReqRetry (plain_env L accept) (u_port s)) (\<lambda>w. Inr (master_done accept w (s\<lparr>u_retry := False\<rparr>)))"

text \<open>The response of the packet has begun; the initiator's answer may have ended it.\<close>

definition begun :: "bw_answer \<Rightarrow> ptr \<Rightarrow> msys \<Rightarrow> msys \<Rightarrow> msys" where
  "begun ans pkt s s' = s'\<lparr>u_gem5 := remove1 pkt (u_gem5 s), u_answered := (if closes ans then u_answered s else u_answered s')\<rparr>"

text \<open>gem5 turns the packet into the response \<open>q\<close> and sends it.\<close>

definition sys_response :: "master_lib \<Rightarrow> bw_answer \<Rightarrow> ptr \<Rightarrow> packet \<Rightarrow> msys \<Rightarrow> (bool \<times> msys) res" where
  "sys_response L ans pkt q s =
     bindr (recvTimingResp (master_env_of L True ans) pkt (m_set_pkt pkt q (u_port s))) (\<lambda>(taken, w).
       let s' = master_done True w s
       in Inr (taken, if taken then begun ans pkt s s' else s'\<lparr>u_refused := True\<rparr>))"

text \<open>The same from inside the retry that the end of a response sends; a response was taken if one has begun.\<close>

definition begins :: "mcall \<Rightarrow> bool" where
  "begins c \<longleftrightarrow> (case c of Nb_transport_bw _ ph _ \<Rightarrow> ph = BEGIN_RESP | _ \<Rightarrow> False)"

definition sys_phase_resending :: "master_lib \<Rightarrow> bw_answer \<Rightarrow> ptr \<Rightarrow> packet \<Rightarrow> ptr \<times> tlm_phase \<Rightarrow> msys \<Rightarrow> msys res" where
  "sys_phase_resending L ans pkt q m s =
     bindr (mp_peq_cb (retry_env L ans pkt q) (fst m) (snd m) (u_port s)) (\<lambda>w.
       let s' = master_done True w (s\<lparr>u_peq := remove1 m (u_peq s)\<rparr>)
       in Inr (if list_ex begins (drop (length (m_log (u_port s))) (m_log w)) then begun ans pkt s s' else s'\<lparr>u_refused := True\<rparr>))"

text \<open>What initiator and gem5 may do.\<close>

definition txn_of :: "mworld \<Rightarrow> ptr \<Rightarrow> ptr option" where
  "txn_of w pkt = (case pkt_senderStates (m_pkt w pkt) of TlmSenderState t # _ \<Rightarrow> Some t | _ \<Rightarrow> None)"

definition in_flight :: "msys \<Rightarrow> ptr \<Rightarrow> bool" where
  "in_flight s t \<longleftrightarrow> u_request s = Some t \<or> t \<in> set (u_answered s) \<or> (\<exists>ph. (t, ph) \<in> set (u_peq s))
     \<or> (\<exists>pkt \<in> set (u_gem5 s). txn_of (u_port s) pkt = Some t)"

definition supported :: "payload \<Rightarrow> bool" where
  "supported p \<longleftrightarrow> gp_byte_enable_ptr p = None \<and> gp_data_length p \<le> gp_streaming_width p
     \<and> (gp_extension p = None \<longrightarrow> gp_command p \<noteq> TLM_IGNORE_COMMAND)"

text \<open>A transaction that came from gem5 carries its packet, which must not be on its way already.\<close>

definition own_packet :: "msys \<Rightarrow> payload \<Rightarrow> bool" where
  "own_packet s p \<longleftrightarrow> (\<forall>e. gp_extension p = Some e \<longrightarrow> getPacket e < m_next (u_port s) \<and> getPacket e \<notin> set (u_gem5 s))"

definition begin_ok :: "ptr \<Rightarrow> payload \<Rightarrow> msys \<Rightarrow> bool" where
  "begin_ok t p s \<longleftrightarrow> u_request s = None \<and> \<not> in_flight s t \<and> supported p \<and> own_packet s p"

definition response_ok :: "master_lib \<Rightarrow> ptr \<Rightarrow> packet \<Rightarrow> msys \<Rightarrow> bool" where
  "response_ok L pkt q s \<longleftrightarrow> pkt \<in> set (u_gem5 s) \<and> \<not> u_refused s \<and> g_isResponse (ml_gem5 L) (pkt_cmd q)
     \<and> pkt_senderStates q = pkt_senderStates (m_pkt (u_port s) pkt)"

inductive msys_step :: "master_lib \<Rightarrow> msys \<Rightarrow> msys \<Rightarrow> bool" for L where
  Clock: "msys_step L s (s\<lparr>u_port := (u_port s)\<lparr>m_now := c\<rparr>\<rparr>)"
| Begin: "begin_ok t p s \<Longrightarrow> msys_step L s (sys_begin t p d s)"
| End: "t \<in> set (u_answered s) \<Longrightarrow> msys_step L s (sys_end t d s)"
| Phase: "m \<in> set (u_peq s) \<Longrightarrow> sys_phase L accept m s = Inr s' \<Longrightarrow> msys_step L s s'"
| Ask: "u_retry s \<Longrightarrow> sys_req_retry L accept s = Inr s' \<Longrightarrow> msys_step L s s'"
| Respond: "response_ok L pkt q s \<Longrightarrow> answer_ok ans \<Longrightarrow> sys_response L ans pkt q s = Inr (taken, s') \<Longrightarrow> msys_step L s s'"
| In_retry: "(t, END_RESP) \<in> set (u_peq s) \<Longrightarrow> u_refused s \<Longrightarrow> response_ok L pkt q (s\<lparr>u_refused := False\<rparr>) \<Longrightarrow> answer_ok ans \<Longrightarrow>
    sys_phase_resending L ans pkt q (t, END_RESP) s = Inr s' \<Longrightarrow> msys_step L s s'"

definition msys_start :: "msys \<Rightarrow> bool" where
  "msys_start s \<longleftrightarrow> (\<exists>name. m_port (u_port s) = SCMasterPort\<lparr>mp_transactor := Some name\<rparr>) \<and> u_peq s = [] \<and> u_request s = None
     \<and> u_answered s = [] \<and> u_gem5 s = [] \<and> \<not> u_retry s \<and> \<not> u_refused s \<and> (\<forall>t. u_refs s t = 0 \<and> u_ended s t = 0)"

definition msys_reachable :: "master_lib \<Rightarrow> msys \<Rightarrow> bool" where
  "msys_reachable L s \<longleftrightarrow> (\<exists>s0. msys_start s0 \<and> (msys_step L)\<^sup>*\<^sup>* s0 s)"

section \<open>What the operations do\<close>

lemma env_of [simp]:
  "call_nb_transport_bw (master_env_of L a ans) t ph d w =
     (if mp_transactor (m_port w) = None then Inl (Undefined_behaviour ''transactor'')
      else Inr (if ph = BEGIN_RESP then ans else (TLM_ACCEPTED, ph, d), m_note (Nb_transport_bw t ph d) w))"
  "sendTimingReq (master_env_of L a ans) pkt w = Inr (a, m_note (Send_timing_req pkt) w)"
  "m_release (master_env_of L a ans) t w = Inr (m_note (M_release t) w)"
  "sendRetryResp (master_env_of L a ans) w = Inr (m_note Send_retry_resp w)"
  "me_gem5 (master_env_of L a ans) = ml_gem5 L" "me_tlm (master_env_of L a ans) = ml_tlm L"
  "me_catchup (master_env_of L a ans) w = Inr (w\<lparr>m_curTick := m_now w\<rparr>)" "me_notify (master_env_of L a ans) w = Inr w"
  by (simp_all add: call_nb_transport_bw_def sendTimingReq_def m_release_def sendRetryResp_def master_env_of_def)

lemma sendEndReq_effect:
  "mp_transactor (m_port w) \<noteq> None \<Longrightarrow> sendEndReq (master_env_of L a ans) t w = Inr (m_note (Nb_transport_bw t END_REQ 0) w)"
  by (simp add: sendEndReq_def)

lemma fw_effect:
  "supported (m_gp w t) \<Longrightarrow> mp_nb_transport_fw t ph d w = (TLM_ACCEPTED, m_note (Peq_notify t ph d) (m_acquire t w))"
  by (simp add: mp_nb_transport_fw_def supported_def Let_def not_less)

lemma packet_for_effect:
  assumes "supported (m_gp w t)"
  obtains pkt w' where "packet_for E t w = Inr (pkt, w')" "m_port w' = m_port w" "m_gp w' = m_gp w" "m_now w' = m_now w"
    "m_curTick w' = m_curTick w" "m_log w' = m_log w @ (if gp_extension (m_gp w t) = None then [New_packet pkt] else [])"
    "pkt = (case gp_extension (m_gp w t) of None \<Rightarrow> m_next w | Some e \<Rightarrow> getPacket e)"
    "m_next w' = (if gp_extension (m_gp w t) = None then Suc (m_next w) else m_next w)" "\<And>i. i \<noteq> pkt \<Longrightarrow> m_pkt w' i = m_pkt w i"
proof (cases "gp_extension (m_gp w t)")
  case None
  then have "gp_command (m_gp w t) \<noteq> TLM_IGNORE_COMMAND" using assms by (simp add: supported_def)
  then obtain cmd where cmd: "(case gp_command (m_gp w t) of TLM_READ_COMMAND \<Rightarrow> Inr ReadReq | TLM_WRITE_COMMAND \<Rightarrow> Inr WriteReq
      | TLM_IGNORE_COMMAND \<Rightarrow> Inl (Sc_report_fatal ''SCMasterPort'' ''received transaction with unsupported command'')) = Inr cmd"
    by (cases "gp_command (m_gp w t)") simp_all
  define p where "p = (me_Packet E (gp_address (m_gp w t)) (gp_data_length (m_gp w t)) (me_owner_id E) cmd)\<lparr>pkt_data := gp_data_ptr (m_gp w t)\<rparr>"
  have "packet_for E t w = Inr (m_next w, m_note (New_packet (m_next w)) ((m_set_pkt (m_next w) p w)\<lparr>m_next := Suc (m_next w)\<rparr>))"
    using None cmd by (simp add: packet_for_def generatePacket_def Let_def p_def)
  then show thesis by (rule that) (simp_all add: None frame_simps m_set_pkt_def m_note_def)
next
  case (Some e)
  then show thesis by (intro that [of "getPacket e" w]) (simp_all add: packet_for_def)
qed

lemma begin_req_effect:
  assumes sup: "supported (m_gp w t)" and idle: "\<not> waitForRetry (m_port w)" "pendingRequest (m_port w) = None"
      "pendingPacket (m_port w) = None" and bound: "mp_transactor (m_port w) \<noteq> None"
  obtains pkt news w' where "mp_peq_cb (master_env_of L accept ans) t BEGIN_REQ w = Inr w'"
    "m_port w' = (if accept then m_port w
       else (m_port w)\<lparr>waitForRetry := True, pendingRequest := Some t, pendingPacket := Some pkt\<rparr>)"
    "m_gp w' = m_gp w" "pkt = (case gp_extension (m_gp w t) of None \<Rightarrow> m_next w | Some e \<Rightarrow> getPacket e)"
    "m_next w' = (if gp_extension (m_gp w t) = None then Suc (m_next w) else m_next w)"
    "txn_of w' pkt = Some t" "\<And>i. i \<noteq> pkt \<Longrightarrow> txn_of w' i = txn_of w i" "news = [] \<or> news = [New_packet pkt]"
    "m_log w' = m_log w @ [Catchup, M_acquire t] @ news @ [Send_timing_req pkt]
       @ (if accept then [Nb_transport_bw t END_REQ 0, M_release t] else []) @ [Notify_loop]"
proof -
  let ?E = "master_env_of L accept ans"
  define w1 where "w1 = m_acquire t ((m_note Catchup w)\<lparr>m_curTick := m_now w\<rparr>)"
  have w1: "m_port w1 = m_port w" "m_gp w1 = m_gp w" "m_next w1 = m_next w" "m_pkt w1 = m_pkt w"
      "m_log w1 = m_log w @ [Catchup, M_acquire t]"
    by (simp_all add: w1_def frame_simps)
  obtain pkt w2 where p: "packet_for ?E t w1 = Inr (pkt, w2)" "m_port w2 = m_port w1" "m_gp w2 = m_gp w1"
      "m_log w2 = m_log w1 @ (if gp_extension (m_gp w1 t) = None then [New_packet pkt] else [])"
      "pkt = (case gp_extension (m_gp w1 t) of None \<Rightarrow> m_next w1 | Some e \<Rightarrow> getPacket e)"
      "m_next w2 = (if gp_extension (m_gp w1 t) = None then Suc (m_next w1) else m_next w1)"
      "\<And>i. i \<noteq> pkt \<Longrightarrow> m_pkt w2 i = m_pkt w1 i"
    by (rule packet_for_effect [OF sup [folded w1(2)], of ?E]) (rule that)
  define w3 where "w3 = m_note (Send_timing_req pkt) (m_set_pkt pkt (pushSenderState (TlmSenderState t) (m_pkt w2 pkt)) w2)"
  have w3: "m_port w3 = m_port w" "m_gp w3 = m_gp w" "m_next w3 = m_next w2"
      "m_pkt w3 = (m_pkt w2)(pkt := pushSenderState (TlmSenderState t) (m_pkt w2 pkt))"
      "m_log w3 = m_log w @ [Catchup, M_acquire t] @ (if gp_extension (m_gp w t) = None then [New_packet pkt] else []) @ [Send_timing_req pkt]"
    using p(2-4) w1 by (simp_all add: w3_def frame_simps m_set_pkt_def m_note_def)
  define w4 where "w4 = (if accept then m_note (M_release t) (m_note (Nb_transport_bw t END_REQ 0) w3)
      else m_upd (\<lambda>p. p\<lparr>waitForRetry := True, pendingRequest := Some t, pendingPacket := Some pkt\<rparr>) w3)"
  have "mp_peq_cb ?E t BEGIN_REQ w = Inr (m_note Notify_loop w4)"
    using idle bound p(1) w3(1)
    by (simp add: mp_peq_cb_def handleBeginReq_def frame_simps w1_def [symmetric] w1 w3_def [symmetric] sendEndReq_effect w4_def)
  moreover have "txn_of (m_note Notify_loop w4) i = (if i = pkt then Some t else txn_of w i)" for i
    using w3(4) p(7) [of i] w1(4) by (simp add: txn_of_def w4_def frame_simps pushSenderState_def)
  moreover have "pkt = (case gp_extension (m_gp w t) of None \<Rightarrow> m_next w | Some e \<Rightarrow> getPacket e)"
    "m_next w2 = (if gp_extension (m_gp w t) = None then Suc (m_next w) else m_next w)"
    unfolding p(5) p(6) w1(2,3) by (rule refl)+
  ultimately show thesis
    using w3(1-3,5)
    by (intro that [of "m_note Notify_loop w4" pkt "if gp_extension (m_gp w t) = None then [New_packet pkt] else []"])
      (simp_all add: w4_def frame_simps)
qed

lemma end_resp_effect:
  assumes "responseInProgress (m_port w)" and "\<not> tl_is_response_error (ml_tlm L) (gp_response_status (m_gp w t))"
  obtains w' where "mp_peq_cb (master_env_of L accept ans) t END_RESP w = Inr w'"
    "m_port w' = (m_port w)\<lparr>responseInProgress := False, needToSendRetry := False\<rparr>" "m_gp w' = m_gp w" "m_pkt w' = m_pkt w"
    "m_next w' = m_next w"
    "m_log w' = m_log w @ [Catchup] @ (if needToSendRetry (m_port w) then [Send_retry_resp] else []) @ [Notify_loop]"
proof -
  define w1 where "w1 = m_upd (\<lambda>p. p\<lparr>responseInProgress := False\<rparr>) ((m_note Catchup w)\<lparr>m_curTick := m_now w\<rparr>)"
  define w2 where "w2 = (if needToSendRetry (m_port w)
      then m_upd (\<lambda>p. p\<lparr>needToSendRetry := False\<rparr>) (m_note Send_retry_resp w1) else w1)"
  have "mp_peq_cb (master_env_of L accept ans) t END_RESP w = Inr (m_note Notify_loop w2)"
    using assms by (simp add: mp_peq_cb_def handleEndResp_def checkTransaction_def frame_simps Let_def w1_def w2_def)
  moreover have "m_port w2 = (m_port w)\<lparr>responseInProgress := False, needToSendRetry := False\<rparr>"
    by (cases "m_port w") (simp add: w2_def w1_def frame_simps)
  ultimately show thesis by (intro that [of "m_note Notify_loop w2"]) (simp_all add: w2_def w1_def frame_simps)
qed

lemma req_retry_effect:
  assumes "waitForRetry (m_port w)" and "pendingRequest (m_port w) = Some t" and "pendingPacket (m_port w) = Some pkt"
    and bound: "mp_transactor (m_port w) \<noteq> None"
  obtains w' where "recvReqRetry (master_env_of L accept ans) w = Inr w'"
    "m_port w' = (if accept then (m_port w)\<lparr>waitForRetry := False, pendingRequest := None, pendingPacket := None\<rparr> else m_port w)"
    "m_gp w' = m_gp w" "m_pkt w' = m_pkt w" "m_next w' = m_next w"
    "m_log w' = m_log w @ Send_timing_req pkt # (if accept then [Nb_transport_bw t END_REQ 0, M_release t] else [])"
  using assms
  by (intro that [of "if accept then m_upd (\<lambda>p. p\<lparr>pendingRequest := None\<rparr>) (m_note (M_release t) (m_note (Nb_transport_bw t END_REQ 0)
        (m_upd (\<lambda>p. p\<lparr>waitForRetry := False, pendingPacket := None\<rparr>) (m_note (Send_timing_req pkt) w))))
      else m_note (Send_timing_req pkt) w"])
    (auto simp: recvReqRetry_def Let_def frame_simps sendEndReq_effect)

lemma response_refused_effect:
  assumes "responseInProgress (m_port w)" and "\<not> needToSendRetry (m_port w)"
  shows "recvTimingResp E pkt w = Inr (False, m_upd (\<lambda>p. p\<lparr>needToSendRetry := True\<rparr>) w)"
  using assms by (simp add: recvTimingResp_def)

lemma response_taken_effect:
  assumes free: "\<not> responseInProgress (m_port w)" and resp: "g_isResponse (ml_gem5 L) (pkt_cmd (m_pkt w pkt))"
    and t: "txn_of w pkt = Some t" and bound: "mp_transactor (m_port w) \<noteq> None" and ans: "answer_ok ans"
  obtains w' news d where "recvTimingResp (master_env_of L accept ans) pkt w = Inr (True, w')"
    "m_port w' = (m_port w)\<lparr>responseInProgress := \<not> closes ans\<rparr>" "\<And>i. i \<noteq> pkt \<Longrightarrow> txn_of w' i = txn_of w i" "m_next w' = m_next w"
    "m_gp w' = (m_gp w)(t := (m_gp w t)\<lparr>gp_response_status := TLM_OK_RESPONSE\<rparr>)" "news = [] \<or> news = [Delete_packet pkt]"
    "m_log w' = m_log w @ news @ [Nb_transport_bw t BEGIN_RESP d, M_release t]"
proof -
  obtain ss where ss: "pkt_senderStates (m_pkt w pkt) = TlmSenderState t # ss"
    using t by (auto simp: txn_of_def split: list.splits sender_state.splits)
  define d where "d = pkt_payloadDelay (m_pkt w pkt)"
  define w1 where "w1 = m_set_pkt pkt ((m_pkt w pkt)\<lparr>pkt_payloadDelay := 0, pkt_headerDelay := 0, pkt_senderStates := ss\<rparr>) w"
  define w2 where "w2 = (if gp_extension (m_gp w1 t) = None then destroyPacket pkt w1 else w1)"
  have w1: "m_port w1 = m_port w" "m_gp w1 = m_gp w" by (simp_all add: w1_def frame_simps)
  have w2: "m_port w2 = m_port w" "m_gp w2 = m_gp w" "m_next w2 = m_next w" "\<And>i. i \<noteq> pkt \<Longrightarrow> txn_of w2 i = txn_of w i"
      "m_log w2 = m_log w @ (if gp_extension (m_gp w t) = None then [Delete_packet pkt] else [])"
    by (auto simp: w2_def w1_def frame_simps m_set_pkt_def destroyPacket_def m_note_def txn_of_def)
  define w3 where "w3 = m_upd (\<lambda>p. p\<lparr>responseInProgress := \<not> closes ans\<rparr>) (m_note (Nb_transport_bw t BEGIN_RESP d)
      (m_set_gp t ((m_gp w2 t)\<lparr>gp_response_status := TLM_OK_RESPONSE\<rparr>) w2))"
  have "recvTimingResp (master_env_of L accept ans) pkt w = Inr (True, m_note (M_release t) w3)"
    using free resp ss bound w1 ans
    by (cases ans; cases "gp_extension (m_gp w t)") (auto simp: recvTimingResp_def popSenderState_def Let_def w1_def [symmetric]
        d_def [symmetric] sendBeginResp_def frame_simps w3_def w2_def answer_ok_def closes_def)
  then show thesis
    using w2 by (intro that [of "m_note (M_release t) w3" "if gp_extension (m_gp w t) = None then [Delete_packet pkt] else []" d])
      (auto simp: w3_def frame_simps txn_of_def m_set_gp_def m_note_def m_upd_def)
qed

lemma retry_env_simps:
  "me_catchup (retry_env L ans pkt q) w = Inr (w\<lparr>m_curTick := m_now w\<rparr>)" "me_notify (retry_env L ans pkt q) w = Inr w"
  "me_tlm (retry_env L ans pkt q) = ml_tlm L"
  "sendRetryResp (retry_env L ans pkt q) w = bindr (recvTimingResp (master_env_of L True ans) pkt (m_set_pkt pkt q (m_note Send_retry_resp w)))
     (\<lambda>(taken, w'). Inr w')"
  by (simp_all add: retry_env_def sendRetryResp_def)

text \<open>The retry at the end of a response, with the next response sent from inside it: the port is free and takes it.\<close>

lemma resent_effect:
  assumes busy: "responseInProgress (m_port w)" "needToSendRetry (m_port w)"
    and status: "\<not> tl_is_response_error (ml_tlm L) (gp_response_status (m_gp w t0))"
    and resp: "g_isResponse (ml_gem5 L) (pkt_cmd q)" "pkt_senderStates q = pkt_senderStates (m_pkt w pkt)"
    and t: "txn_of w pkt = Some t" and bound: "mp_transactor (m_port w) \<noteq> None" and ans: "answer_ok ans"
  obtains w' news d where "mp_peq_cb (retry_env L ans pkt q) t0 END_RESP w = Inr w'"
    "m_port w' = (m_port w)\<lparr>responseInProgress := \<not> closes ans, needToSendRetry := False\<rparr>"
    "\<And>i. i \<noteq> pkt \<Longrightarrow> txn_of w' i = txn_of w i" "m_next w' = m_next w"
    "m_gp w' = (m_gp w)(t := (m_gp w t)\<lparr>gp_response_status := TLM_OK_RESPONSE\<rparr>)" "news = [] \<or> news = [Delete_packet pkt]"
    "m_log w' = m_log w @ [Catchup, Send_retry_resp] @ news @ [Nb_transport_bw t BEGIN_RESP d, M_release t, Notify_loop]"
proof -
  define w1 where "w1 = m_upd (\<lambda>p. p\<lparr>responseInProgress := False\<rparr>) ((m_note Catchup w)\<lparr>m_curTick := m_now w\<rparr>)"
  define w2 where "w2 = m_set_pkt pkt q (m_note Send_retry_resp w1)"
  have w2: "m_port w2 = (m_port w)\<lparr>responseInProgress := False\<rparr>" "m_gp w2 = m_gp w" "m_next w2 = m_next w"
      "m_log w2 = m_log w @ [Catchup, Send_retry_resp]" "m_pkt w2 = (m_pkt w)(pkt := q)"
    by (simp_all add: w2_def w1_def frame_simps m_set_pkt_def m_note_def m_upd_def)
  have tx: "txn_of w2 = txn_of w" using resp(2) by (simp add: txn_of_def w2(5) fun_eq_iff)
  have pre: "\<not> responseInProgress (m_port w2)" "g_isResponse (ml_gem5 L) (pkt_cmd (m_pkt w2 pkt))" "txn_of w2 pkt = Some t"
      "mp_transactor (m_port w2) \<noteq> None" using w2 resp(1) t bound by (simp_all add: tx)
  obtain w3 news d where w3: "recvTimingResp (master_env_of L True ans) pkt w2 = Inr (True, w3)"
    "m_port w3 = (m_port w2)\<lparr>responseInProgress := \<not> closes ans\<rparr>" "\<And>i. i \<noteq> pkt \<Longrightarrow> txn_of w3 i = txn_of w2 i" "m_next w3 = m_next w2"
    "m_gp w3 = (m_gp w2)(t := (m_gp w2 t)\<lparr>gp_response_status := TLM_OK_RESPONSE\<rparr>)" "news = [] \<or> news = [Delete_packet pkt]"
    "m_log w3 = m_log w2 @ news @ [Nb_transport_bw t BEGIN_RESP d, M_release t]"
    by (rule response_taken_effect [OF pre ans, of True]) (rule that)
  let ?w = "m_note Notify_loop (m_upd (\<lambda>p. p\<lparr>needToSendRetry := False\<rparr>) w3)"
  have "mp_peq_cb (retry_env L ans pkt q) t0 END_RESP w = Inr ?w"
    using busy status w3(1)
    by (simp add: mp_peq_cb_def handleEndResp_def checkTransaction_def retry_env_simps frame_simps Let_def w1_def [symmetric] w2_def [symmetric])
      (simp add: w1_def frame_simps)
  moreover have "txn_of ?w = txn_of w3" by (simp add: txn_of_def fun_eq_iff frame_simps)
  ultimately show thesis using w3 w2 by (intro that [of ?w news d]) (simp_all add: tx frame_simps)
qed

end
