(* ===== verification/Master_System_Properties.thy ===== *)
theory Master_System_Properties
  imports Master_System
begin

text \<open>
  The properties of a master port between an initiator and gem5: no step ends the simulation, at most one
  request and one response are open, every request is answered, and how many references are left.
\<close>

section \<open>The invariant\<close>

abbreviation port :: "msys \<Rightarrow> master_port" where
  "port s \<equiv> m_port (u_port s)"

definition queued :: "tlm_phase \<Rightarrow> (ptr \<times> tlm_phase) list \<Rightarrow> ptr list" where
  "queued ph P = map fst (filter (\<lambda>m. snd m = ph) P)"

lemma queued_simps [simp]:
  "queued ph [] = []" "queued ph (P @ Q) = queued ph P @ queued ph Q"
  "queued ph ((t, ph') # P) = (if ph' = ph then t # queued ph P else queued ph P)"
  by (simp_all add: queued_def)

lemma queued_member: "t \<in> set (queued ph P) \<longleftrightarrow> (t, ph) \<in> set P"
  by (force simp: queued_def)

lemma queued_remove1:
  "(t, ph) \<in> set P \<Longrightarrow> length (queued ph (remove1 (t, ph) P)) = length (queued ph P) - 1"
  "ph' \<noteq> ph \<Longrightarrow> queued ph' (remove1 (t, ph) P) = queued ph' P"
  by (auto simp: queued_def filter_remove1 remove1_idem length_remove1)

definition references :: "msys \<Rightarrow> ptr \<Rightarrow> int" where
  "references s t = (if u_request s = Some t then if waitForRetry (port s) then 2 else 1 else 0)
     + int (length (filter (\<lambda>pkt. txn_of (u_port s) pkt = Some t) (u_gem5 s)))"

text \<open>Each of the two sides agrees with the port on the request and on the response that are open.\<close>

definition request_inv :: "msys \<Rightarrow> bool" where
  "request_inv s \<longleftrightarrow>
     queued BEGIN_REQ (u_peq s) = (case u_request s of None \<Rightarrow> [] | Some t \<Rightarrow> if waitForRetry (port s) then [] else [t])
   \<and> (waitForRetry (port s) \<longrightarrow> u_request s = pendingRequest (port s)) \<and> (u_retry s \<longleftrightarrow> waitForRetry (port s))
   \<and> (\<forall>pkt. pendingPacket (port s) = Some pkt \<longrightarrow>
        pkt < m_next (u_port s) \<and> pkt \<notin> set (u_gem5 s) \<and> txn_of (u_port s) pkt = u_request s)
   \<and> (\<forall>t. u_request s = Some t \<longrightarrow> \<not> waitForRetry (port s) \<longrightarrow> own_packet s (m_gp (u_port s) t))"

definition response_inv :: "msys \<Rightarrow> bool" where
  "response_inv s \<longleftrightarrow>
     length (u_answered s) + length (queued END_RESP (u_peq s)) = (if responseInProgress (port s) then 1 else 0)
   \<and> (u_refused s \<longleftrightarrow> needToSendRetry (port s))
   \<and> (\<forall>t. t \<in> set (u_answered s) \<or> (t, END_RESP) \<in> set (u_peq s) \<longrightarrow> gp_response_status (m_gp (u_port s) t) = TLM_OK_RESPONSE)"

definition msys_inv :: "msys \<Rightarrow> bool" where
  "msys_inv s \<longleftrightarrow> mp_ok (port s) \<and> mp_transactor (port s) \<noteq> None
   \<and> (\<forall>m \<in> set (u_peq s). snd m = BEGIN_REQ \<or> snd m = END_RESP) \<and> request_inv s \<and> response_inv s
   \<and> distinct (u_gem5 s) \<and> (\<forall>pkt \<in> set (u_gem5 s). pkt < m_next (u_port s) \<and> txn_of (u_port s) pkt \<noteq> None)
   \<and> (\<forall>t. in_flight s t \<longrightarrow> supported (m_gp (u_port s) t))
   \<and> (\<forall>t. u_refs s t = u_ended s t + references s t)"

lemma msys_invD:
  assumes "msys_inv s"
  shows "mp_ok (port s)" "mp_transactor (port s) \<noteq> None" "m \<in> set (u_peq s) \<Longrightarrow> snd m = BEGIN_REQ \<or> snd m = END_RESP"
    "request_inv s" "response_inv s" "distinct (u_gem5 s)" "pkt \<in> set (u_gem5 s) \<Longrightarrow> pkt < m_next (u_port s)"
    "pkt \<in> set (u_gem5 s) \<Longrightarrow> txn_of (u_port s) pkt \<noteq> None" "in_flight s t \<Longrightarrow> supported (m_gp (u_port s) t)"
    "u_refs s t = u_ended s t + references s t"
  using assms by (simp_all add: msys_inv_def)

lemma request_invD:
  assumes "request_inv s"
  shows "queued BEGIN_REQ (u_peq s) = (case u_request s of None \<Rightarrow> [] | Some t \<Rightarrow> if waitForRetry (port s) then [] else [t])"
    "waitForRetry (port s) \<Longrightarrow> u_request s = pendingRequest (port s)" "u_retry s \<longleftrightarrow> waitForRetry (port s)"
    "pendingPacket (port s) = Some pkt \<Longrightarrow> pkt < m_next (u_port s)" "pendingPacket (port s) = Some pkt \<Longrightarrow> pkt \<notin> set (u_gem5 s)"
    "pendingPacket (port s) = Some pkt \<Longrightarrow> txn_of (u_port s) pkt = u_request s"
    "u_request s = Some t \<Longrightarrow> \<not> waitForRetry (port s) \<Longrightarrow> own_packet s (m_gp (u_port s) t)"
  using assms by (simp_all add: request_inv_def)

definition m_work :: "msys \<Rightarrow> nat" where
  "m_work s = (case u_request s of None \<Rightarrow> 0 | Some _ \<Rightarrow> if waitForRetry (port s) then 4 else 5)
     + 3 * length (u_gem5 s) + 2 * length (u_answered s) + length (queued END_RESP (u_peq s))"

definition master_lib_ok :: "master_lib \<Rightarrow> bool" where
  "master_lib_ok L \<longleftrightarrow> \<not> tl_is_response_error (ml_tlm L) TLM_OK_RESPONSE"

section \<open>Steps of the initiator\<close>

lemma master_done_log:
  "m_log w = m_log w0 @ cs \<Longrightarrow> m_log (u_port s) = m_log w0 \<Longrightarrow> master_done accept w s = fold (carry accept) cs (s\<lparr>u_port := w\<rparr>)"
  by (simp add: master_done_def)

lemma sys_begin_effect:
  assumes "begin_ok t p s"
  shows "\<exists>w. sys_begin t p d s = s\<lparr>u_port := w, u_peq := u_peq s @ [(t, BEGIN_REQ)], u_request := Some t,
      u_refs := (u_refs s)(t := u_refs s t + 1)\<rparr>
    \<and> m_port w = port s \<and> m_gp w = (m_gp (u_port s))(t := p) \<and> m_pkt w = m_pkt (u_port s) \<and> m_next w = m_next (u_port s)"
proof -
  let ?w = "m_note (Peq_notify t BEGIN_REQ d) (m_acquire t (m_set_gp t p (u_port s)))"
  have "mp_nb_transport_fw t BEGIN_REQ d (m_set_gp t p (u_port s)) = (TLM_ACCEPTED, ?w)"
    using assms by (intro fw_effect) (simp add: begin_ok_def frame_simps)
  then have "sys_begin t p d s = s\<lparr>u_port := ?w, u_peq := u_peq s @ [(t, BEGIN_REQ)], u_request := Some t,
      u_refs := (u_refs s)(t := u_refs s t + 1)\<rparr>"
    by (simp add: sys_begin_def master_done_def frame_simps)
  then show ?thesis by (intro exI [of _ ?w]) (simp add: frame_simps m_set_gp_def)
qed

lemma txn_of_cong: "m_pkt w' = m_pkt w \<Longrightarrow> txn_of w' = txn_of w"
  by (simp add: txn_of_def fun_eq_iff)

lemma begin_keeps:
  assumes inv: "msys_inv s" and b: "begin_ok t p s"
  shows "msys_inv (sys_begin t p d s)"
proof -
  obtain w where s': "sys_begin t p d s = s\<lparr>u_port := w, u_peq := u_peq s @ [(t, BEGIN_REQ)], u_request := Some t,
      u_refs := (u_refs s)(t := u_refs s t + 1)\<rparr>"
    and w: "m_port w = port s" "m_gp w = (m_gp (u_port s))(t := p)" "m_pkt w = m_pkt (u_port s)" "m_next w = m_next (u_port s)"
    using sys_begin_effect [OF b] by blast
  note D = msys_invD [OF inv] and R = request_invD [OF msys_invD(4) [OF inv]]
  have b': "u_request s = None" "\<not> in_flight s t" "supported p" "own_packet s p" using b by (simp_all add: begin_ok_def)
  have wait: "\<not> waitForRetry (port s)" using D(1) R(2) b'(1) by (auto simp: mp_ok_def)
  have tx: "txn_of w = txn_of (u_port s)" by (rule txn_of_cong [OF w(3)])
  show ?thesis
    using D(1-3,6-10) R(1,3) b' wait D(5)
    unfolding msys_inv_def request_inv_def response_inv_def s'
    by (auto simp: w tx in_flight_def own_packet_def references_def mp_ok_def)
qed

lemma sys_end_effect:
  assumes inv: "msys_inv s" and t: "t \<in> set (u_answered s)"
  shows "\<exists>w. sys_end t d s = s\<lparr>u_port := w, u_peq := u_peq s @ [(t, END_RESP)], u_answered := remove1 t (u_answered s),
      u_refs := (u_refs s)(t := u_refs s t + 1), u_ended := (u_ended s)(t := u_ended s t + 1)\<rparr>
    \<and> m_port w = port s \<and> m_gp w = m_gp (u_port s) \<and> m_pkt w = m_pkt (u_port s) \<and> m_next w = m_next (u_port s)"
proof -
  let ?w = "m_note (Peq_notify t END_RESP d) (m_acquire t (u_port s))"
  have "supported (m_gp (u_port s) t)" using t by (intro msys_invD(9) [OF inv]) (simp add: in_flight_def)
  then have "mp_nb_transport_fw t END_RESP d (u_port s) = (TLM_ACCEPTED, ?w)" by (rule fw_effect)
  then have "sys_end t d s = s\<lparr>u_port := ?w, u_peq := u_peq s @ [(t, END_RESP)], u_answered := remove1 t (u_answered s),
      u_refs := (u_refs s)(t := u_refs s t + 1), u_ended := (u_ended s)(t := u_ended s t + 1)\<rparr>"
    by (simp add: sys_end_def master_done_def frame_simps)
  then show ?thesis by (intro exI [of _ ?w]) (simp add: frame_simps)
qed

lemma end_keeps:
  assumes inv: "msys_inv s" and t: "t \<in> set (u_answered s)"
  shows "msys_inv (sys_end t d s) \<and> m_work (sys_end t d s) < m_work s"
proof -
  obtain w where s': "sys_end t d s = s\<lparr>u_port := w, u_peq := u_peq s @ [(t, END_RESP)], u_answered := remove1 t (u_answered s),
      u_refs := (u_refs s)(t := u_refs s t + 1), u_ended := (u_ended s)(t := u_ended s t + 1)\<rparr>"
    and w: "m_port w = port s" "m_gp w = m_gp (u_port s)" "m_pkt w = m_pkt (u_port s)" "m_next w = m_next (u_port s)"
    using sys_end_effect [OF inv t] by blast
  note D = msys_invD [OF inv] and R = request_invD [OF msys_invD(4) [OF inv]]
  have tx: "txn_of w = txn_of (u_port s)" by (rule txn_of_cong [OF w(3)])
  have sub: "set (remove1 t (u_answered s)) \<subseteq> set (u_answered s)" by (rule set_remove1_subset)
  have len: "Suc (length (remove1 t (u_answered s))) = length (u_answered s)"
    using t length_pos_if_in_set [OF t] by (simp add: length_remove1)
  have flight: "in_flight s u" if "in_flight (s\<lparr>u_port := w, u_peq := u_peq s @ [(t, END_RESP)], u_answered := remove1 t (u_answered s),
      u_refs := (u_refs s)(t := u_refs s t + 1), u_ended := (u_ended s)(t := u_ended s t + 1)\<rparr>) u" for u
    using that t sub by (auto simp: in_flight_def tx)
  have resp: "response_inv (sys_end t d s)"
    using D(5) t sub len unfolding response_inv_def s' by (auto simp: w)
  have req: "request_inv (sys_end t d s)"
    using D(4) unfolding request_inv_def s' by (auto simp: w tx own_packet_def cong: option.case_cong)
  show ?thesis
    using D(1-3,6-10) resp req flight len
    unfolding msys_inv_def s' m_work_def by (auto simp: w tx references_def cong: option.case_cong if_cong)
qed

section \<open>Steps of the port\<close>

lemma queued_by_initiator:
  assumes inv: "msys_inv s" and m: "(t, BEGIN_REQ) \<in> set (u_peq s)"
  shows "u_request s = Some t" "\<not> waitForRetry (port s)" "queued BEGIN_REQ (remove1 (t, BEGIN_REQ) (u_peq s)) = []"
proof -
  have q: "t \<in> set (queued BEGIN_REQ (u_peq s))" using m by (simp add: queued_member)
  note R = request_invD(1) [OF msys_invD(4) [OF inv]]
  show r: "u_request s = Some t" "\<not> waitForRetry (port s)" using q unfolding R by (auto split: option.splits if_splits)
  have "length (queued BEGIN_REQ (u_peq s)) = 1" unfolding R using r by simp
  then show "queued BEGIN_REQ (remove1 (t, BEGIN_REQ) (u_peq s)) = []" using queued_remove1(1) [OF m] by simp
qed

text \<open>The packet that the port makes for a request, or gets from it, is not on its way.\<close>

lemma new_packet:
  assumes inv: "msys_inv s" and own: "own_packet s (m_gp (u_port s) t)"
    and pkt: "pkt = (case gp_extension (m_gp (u_port s) t) of None \<Rightarrow> m_next (u_port s) | Some e \<Rightarrow> getPacket e)"
    and next': "next' = (if gp_extension (m_gp (u_port s) t) = None then Suc (m_next (u_port s)) else m_next (u_port s))"
  shows "pkt \<notin> set (u_gem5 s)" "pkt < next'" "p \<in> set (u_gem5 s) \<Longrightarrow> p < next'"
  using msys_invD(7) [OF inv] own pkt next' by (auto simp: own_packet_def split: option.splits if_splits) fastforce+

lemma phase_begin_effect:
  assumes inv: "msys_inv s" and m: "(t, BEGIN_REQ) \<in> set (u_peq s)"
  obtains pkt w where "sys_phase L accept (t, BEGIN_REQ) s = Inr (if accept
      then s\<lparr>u_port := w, u_peq := remove1 (t, BEGIN_REQ) (u_peq s), u_request := None, u_gem5 := u_gem5 s @ [pkt]\<rparr>
      else s\<lparr>u_port := w, u_peq := remove1 (t, BEGIN_REQ) (u_peq s), u_retry := True, u_refs := (u_refs s)(t := u_refs s t + 1)\<rparr>)"
    "m_port w = (if accept then port s else (port s)\<lparr>waitForRetry := True, pendingRequest := Some t, pendingPacket := Some pkt\<rparr>)"
    "m_gp w = m_gp (u_port s)" "txn_of w pkt = Some t" "\<And>i. i \<in> set (u_gem5 s) \<Longrightarrow> txn_of w i = txn_of (u_port s) i"
    "pkt \<notin> set (u_gem5 s)" "pkt < m_next w" "\<And>p. p \<in> set (u_gem5 s) \<Longrightarrow> p < m_next w"
proof -
  note D = msys_invD [OF inv] and R = request_invD [OF msys_invD(4) [OF inv]] and r = queued_by_initiator [OF inv m]
  have sup: "supported (m_gp (u_port s) t)" using r(1) by (intro D(9)) (simp add: in_flight_def)
  have idle: "pendingRequest (port s) = None" "pendingPacket (port s) = None" using D(1) r(2) by (simp_all add: mp_ok_def)
  obtain pkt news w where w: "mp_peq_cb (plain_env L accept) t BEGIN_REQ (u_port s) = Inr w"
      "m_port w = (if accept then port s else (port s)\<lparr>waitForRetry := True, pendingRequest := Some t, pendingPacket := Some pkt\<rparr>)"
      "m_gp w = m_gp (u_port s)"
      "pkt = (case gp_extension (m_gp (u_port s) t) of None \<Rightarrow> m_next (u_port s) | Some e \<Rightarrow> getPacket e)"
      "m_next w = (if gp_extension (m_gp (u_port s) t) = None then Suc (m_next (u_port s)) else m_next (u_port s))"
      "txn_of w pkt = Some t" "\<And>i. i \<noteq> pkt \<Longrightarrow> txn_of w i = txn_of (u_port s) i" "news = [] \<or> news = [New_packet pkt]"
      "m_log w = m_log (u_port s) @ [Catchup, M_acquire t] @ news @ [Send_timing_req pkt]
       @ (if accept then [Nb_transport_bw t END_REQ 0, M_release t] else []) @ [Notify_loop]"
    by (rule begin_req_effect [OF sup r(2) idle D(2), of L accept]) (rule that)
  note fresh = new_packet [OF inv R(7) [OF r(1,2)] w(4,5)]
  have "fold (carry accept) ([Catchup, M_acquire t] @ news @ [Send_timing_req pkt]
       @ (if accept then [Nb_transport_bw t END_REQ 0, M_release t] else []) @ [Notify_loop])
      (s\<lparr>u_peq := remove1 (t, BEGIN_REQ) (u_peq s), u_port := w\<rparr>) = (if accept
      then s\<lparr>u_port := w, u_peq := remove1 (t, BEGIN_REQ) (u_peq s), u_request := None, u_gem5 := u_gem5 s @ [pkt]\<rparr>
      else s\<lparr>u_port := w, u_peq := remove1 (t, BEGIN_REQ) (u_peq s), u_retry := True, u_refs := (u_refs s)(t := u_refs s t + 1)\<rparr>)"
    using w(8) r(1) by (cases s) auto
  then have "sys_phase L accept (t, BEGIN_REQ) s = Inr (if accept
      then s\<lparr>u_port := w, u_peq := remove1 (t, BEGIN_REQ) (u_peq s), u_request := None, u_gem5 := u_gem5 s @ [pkt]\<rparr>
      else s\<lparr>u_port := w, u_peq := remove1 (t, BEGIN_REQ) (u_peq s), u_retry := True, u_refs := (u_refs s)(t := u_refs s t + 1)\<rparr>)"
    using w(1) master_done_log [OF w(9), of "s\<lparr>u_peq := remove1 (t, BEGIN_REQ) (u_peq s)\<rparr>"] by (simp add: sys_phase_def)
  moreover have "txn_of w i = txn_of (u_port s) i" if "i \<in> set (u_gem5 s)" for i using w(7) [of i] fresh(1) that by blast
  ultimately show thesis using w(2,3,6) fresh by (intro that)
qed

lemma txn_filter_cong:
  "(\<And>i. i \<in> set P \<Longrightarrow> txn_of w i = txn_of w' i) \<Longrightarrow> filter (\<lambda>i. txn_of w i = Some t) P = filter (\<lambda>i. txn_of w' i = Some t) P"
  by (rule filter_cong) simp_all

lemma phase_begin_keeps:
  assumes inv: "msys_inv s" and m: "(t, BEGIN_REQ) \<in> set (u_peq s)"
  shows "\<exists>s'. sys_phase L accept (t, BEGIN_REQ) s = Inr s' \<and> msys_inv s' \<and> m_work s' < m_work s"
proof -
  note D = msys_invD [OF inv] and R = request_invD [OF msys_invD(4) [OF inv]] and r = queued_by_initiator [OF inv m]
  obtain pkt w where s': "sys_phase L accept (t, BEGIN_REQ) s = Inr (if accept
      then s\<lparr>u_port := w, u_peq := remove1 (t, BEGIN_REQ) (u_peq s), u_request := None, u_gem5 := u_gem5 s @ [pkt]\<rparr>
      else s\<lparr>u_port := w, u_peq := remove1 (t, BEGIN_REQ) (u_peq s), u_retry := True, u_refs := (u_refs s)(t := u_refs s t + 1)\<rparr>)"
    and w: "m_port w = (if accept then port s else (port s)\<lparr>waitForRetry := True, pendingRequest := Some t, pendingPacket := Some pkt\<rparr>)"
      "m_gp w = m_gp (u_port s)" "txn_of w pkt = Some t" "\<And>i. i \<in> set (u_gem5 s) \<Longrightarrow> txn_of w i = txn_of (u_port s) i"
      "pkt \<notin> set (u_gem5 s)" "pkt < m_next w" "\<And>p. p \<in> set (u_gem5 s) \<Longrightarrow> p < m_next w"
    by (rule phase_begin_effect [OF inv m, of L accept]) (rule that)
  have idle: "pendingRequest (port s) = None" "pendingPacket (port s) = None" using D(1) r(2) by (simp_all add: mp_ok_def)
  have retry: "\<not> u_retry s" using R(3) r(2) by simp
  have sub: "set (remove1 (t, BEGIN_REQ) (u_peq s)) \<subseteq> set (u_peq s)" by (rule set_remove1_subset)
  have refs: "u_refs s v = u_ended s v + (if v = t then 1 else 0)
      + int (length (filter (\<lambda>i. txn_of (u_port s) i = Some v) (u_gem5 s)))" for v
    using D(10) [of v] r by (auto simp: references_def)
  have phases: "\<forall>m \<in> set (remove1 (t, BEGIN_REQ) (u_peq s)). snd m = BEGIN_REQ \<or> snd m = END_RESP"
    using D(3) sub by blast
  note count = txn_filter_cong [of "u_gem5 s" w "u_port s", OF w(4)]
  show ?thesis
  proof (cases accept)
    case True
    let ?s = "s\<lparr>u_port := w, u_peq := remove1 (t, BEGIN_REQ) (u_peq s), u_request := None, u_gem5 := u_gem5 s @ [pkt]\<rparr>"
    have "request_inv ?s" using True w(1) r idle retry by (simp add: request_inv_def)
    moreover have "response_inv ?s"
      using True D(5) sub w(1,2) unfolding response_inv_def by (auto simp: queued_remove1(2))
    moreover have "in_flight s v" if "in_flight ?s v" for v
      using that sub w(3,4) r(1) by (auto simp: in_flight_def)
    moreover have "references ?s v = (if v = t then 1 else 0) + int (length (filter (\<lambda>i. txn_of (u_port s) i = Some v) (u_gem5 s)))" for v
      using count w(3) by (simp add: references_def)
    ultimately have "msys_inv ?s"
      using True D(1,2,6-9) phases w refs unfolding msys_inv_def by auto
    moreover have "m_work ?s < m_work s" using r by (simp add: m_work_def queued_remove1(2))
    ultimately show ?thesis using s' True by simp
  next
    case False
    let ?s = "s\<lparr>u_port := w, u_peq := remove1 (t, BEGIN_REQ) (u_peq s), u_retry := True, u_refs := (u_refs s)(t := u_refs s t + 1)\<rparr>"
    have "request_inv ?s" using False w r by (simp add: request_inv_def)
    moreover have "response_inv ?s"
      using False D(5) sub w(1,2) unfolding response_inv_def by (auto simp: queued_remove1(2))
    moreover have "in_flight s v" if "in_flight ?s v" for v
      using that sub w(4) r(1) by (auto simp: in_flight_def)
    moreover have "references ?s v = (if v = t then 2 else 0) + int (length (filter (\<lambda>i. txn_of (u_port s) i = Some v) (u_gem5 s)))" for v
      using False count w(1) r(1) by (simp add: references_def)
    moreover have "mp_ok (m_port w)" using D(1) False w(1) by (auto simp: mp_ok_def)
    ultimately have "msys_inv ?s"
      using False D(2,6-9) phases w refs unfolding msys_inv_def by auto
    moreover have "m_work ?s < m_work s" using False w(1) r by (simp add: m_work_def queued_remove1(2))
    ultimately show ?thesis using s' False by simp
  qed
qed

text \<open>The end of a response: the port is free for the next one, and gem5 gets the retry it is owed.\<close>

lemma response_open:
  assumes inv: "msys_inv s" and m: "(t, END_RESP) \<in> set (u_peq s)"
  shows "responseInProgress (port s)" "u_answered s = []" "length (queued END_RESP (u_peq s)) = 1"
proof -
  have len: "0 < length (queued END_RESP (u_peq s))" using m queued_member [of t END_RESP "u_peq s"] by (auto intro: length_pos_if_in_set)
  have sum: "length (u_answered s) + length (queued END_RESP (u_peq s)) = (if responseInProgress (port s) then 1 else 0)"
    using msys_invD(5) [OF inv] by (simp add: response_inv_def)
  show one: "responseInProgress (port s)" using sum len by (cases "responseInProgress (port s)") simp_all
  have "length (u_answered s) = 0 \<and> length (queued END_RESP (u_peq s)) = 1" using sum len unfolding if_P [OF one] by linarith
  then show "u_answered s = []" "length (queued END_RESP (u_peq s)) = 1" by simp_all
qed

lemma phase_end_effect:
  assumes inv: "msys_inv s" and lib: "master_lib_ok L" and m: "(t, END_RESP) \<in> set (u_peq s)"
  shows "\<exists>w. sys_phase L accept (t, END_RESP) s = Inr (s\<lparr>u_port := w, u_peq := remove1 (t, END_RESP) (u_peq s), u_refused := False\<rparr>)
    \<and> m_port w = (port s)\<lparr>responseInProgress := False, needToSendRetry := False\<rparr> \<and> m_gp w = m_gp (u_port s)
    \<and> m_pkt w = m_pkt (u_port s) \<and> m_next w = m_next (u_port s)"
proof -
  note D = msys_invD [OF inv] and busy = response_open [OF inv m]
  have "\<not> tl_is_response_error (ml_tlm L) (gp_response_status (m_gp (u_port s) t))"
    using D(5) m lib by (simp add: response_inv_def master_lib_ok_def)
  then obtain w where w: "mp_peq_cb (plain_env L accept) t END_RESP (u_port s) = Inr w"
      "m_port w = (port s)\<lparr>responseInProgress := False, needToSendRetry := False\<rparr>" "m_gp w = m_gp (u_port s)"
      "m_pkt w = m_pkt (u_port s)" "m_next w = m_next (u_port s)"
      "m_log w = m_log (u_port s) @ [Catchup] @ (if needToSendRetry (port s) then [Send_retry_resp] else []) @ [Notify_loop]"
    by (rule end_resp_effect [OF busy(1)])
  let ?s = "s\<lparr>u_port := w, u_peq := remove1 (t, END_RESP) (u_peq s), u_refused := False\<rparr>"
  have "fold (carry accept) ([Catchup] @ (if needToSendRetry (port s) then [Send_retry_resp] else []) @ [Notify_loop])
      (s\<lparr>u_peq := remove1 (t, END_RESP) (u_peq s), u_port := w\<rparr>) = ?s"
    using D(5) by (cases s) (auto simp: response_inv_def)
  then have "sys_phase L accept (t, END_RESP) s = Inr ?s"
    using w(1) master_done_log [OF w(6), of "s\<lparr>u_peq := remove1 (t, END_RESP) (u_peq s)\<rparr>"] by (simp add: sys_phase_def)
  with w show ?thesis by blast
qed

lemma phase_end_keeps:
  assumes inv: "msys_inv s" and lib: "master_lib_ok L" and m: "(t, END_RESP) \<in> set (u_peq s)"
  shows "\<exists>s'. sys_phase L accept (t, END_RESP) s = Inr s' \<and> msys_inv s' \<and> m_work s' < m_work s"
proof -
  note D = msys_invD [OF inv] and busy = response_open [OF inv m]
  have none: "queued END_RESP (remove1 (t, END_RESP) (u_peq s)) = []" using queued_remove1(1) [OF m] busy(3) by simp
  obtain w where step: "sys_phase L accept (t, END_RESP) s = Inr (s\<lparr>u_port := w, u_peq := remove1 (t, END_RESP) (u_peq s), u_refused := False\<rparr>)"
      and w: "m_port w = (port s)\<lparr>responseInProgress := False, needToSendRetry := False\<rparr>" "m_gp w = m_gp (u_port s)"
      "m_pkt w = m_pkt (u_port s)" "m_next w = m_next (u_port s)"
    using phase_end_effect [OF inv lib m] by blast
  let ?s = "s\<lparr>u_port := w, u_peq := remove1 (t, END_RESP) (u_peq s), u_refused := False\<rparr>"
  have sub: "set (remove1 (t, END_RESP) (u_peq s)) \<subseteq> set (u_peq s)" by (rule set_remove1_subset)
  then have phases: "\<forall>m \<in> set (remove1 (t, END_RESP) (u_peq s)). snd m = BEGIN_REQ \<or> snd m = END_RESP" using D(3) by blast
  have tx: "txn_of w = txn_of (u_port s)" by (rule txn_of_cong [OF w(3)])
  have "request_inv ?s"
    using D(4) unfolding request_inv_def by (auto simp: w tx own_packet_def queued_remove1(2) cong: option.case_cong)
  moreover have "response_inv ?s"
    using busy(2) none queued_member [of _ END_RESP "remove1 (t, END_RESP) (u_peq s)"] w(1) by (auto simp: response_inv_def)
  moreover have "in_flight s v" if "in_flight ?s v" for v using that sub by (auto simp: in_flight_def tx)
  moreover have "references ?s v = references s v" for v by (simp add: references_def w(1) tx)
  moreover have "mp_ok (m_port w)" using D(1) by (auto simp: mp_ok_def w(1))
  ultimately have "msys_inv ?s" using D(2,6-10) phases by (auto simp: msys_inv_def w tx)
  moreover have "m_work ?s < m_work s" using none busy(3) by (simp add: m_work_def w(1) cong: option.case_cong)
  ultimately show ?thesis using step by blast
qed

text \<open>gem5 asks for the request that it has refused.\<close>

lemma ask_keeps:
  assumes inv: "msys_inv s" and owed: "u_retry s"
  shows "\<exists>s'. sys_req_retry L accept s = Inr s' \<and> msys_inv s' \<and> (accept \<longrightarrow> m_work s' < m_work s)"
proof -
  note D = msys_invD [OF inv] and R = request_invD [OF msys_invD(4) [OF inv]]
  have wait: "waitForRetry (port s)" using R(3) owed by simp
  obtain t pkt where t: "pendingRequest (port s) = Some t" "pendingPacket (port s) = Some pkt" using D(1) wait by (auto simp: mp_ok_def)
  have r: "u_request s = Some t" using R(2) [OF wait] t(1) by simp
  note P = R(4-6) [OF t(2)]
  obtain w where w: "recvReqRetry (plain_env L accept) (u_port s) = Inr w"
      "m_port w = (if accept then (port s)\<lparr>waitForRetry := False, pendingRequest := None, pendingPacket := None\<rparr> else port s)"
      "m_gp w = m_gp (u_port s)" "m_pkt w = m_pkt (u_port s)" "m_next w = m_next (u_port s)"
      "m_log w = m_log (u_port s) @ Send_timing_req pkt # (if accept then [Nb_transport_bw t END_REQ 0, M_release t] else [])"
    by (rule req_retry_effect [OF wait t D(2), of L accept])
  have tx: "txn_of w = txn_of (u_port s)" by (rule txn_of_cong [OF w(4)])
  show ?thesis
  proof (cases accept)
    case True
    let ?s = "s\<lparr>u_port := w, u_retry := False, u_request := None, u_gem5 := u_gem5 s @ [pkt], u_refs := (u_refs s)(t := u_refs s t - 1)\<rparr>"
    have "sys_req_retry L accept s = Inr ?s"
      using w(1) master_done_log [OF w(6), of "s\<lparr>u_retry := False\<rparr>"] True r by (simp add: sys_req_retry_def)
    moreover have "request_inv ?s" using True w(2) R(1) r wait by (simp add: request_inv_def)
    moreover have "response_inv ?s" using True D(5) by (simp add: response_inv_def w)
    moreover have "in_flight s v" if "in_flight ?s v" for v using that P(3) r by (auto simp: in_flight_def tx)
    moreover have "u_refs ?s v = u_ended s v + references ?s v" for v
      using D(10) [of v] r wait P(3) by (auto simp: references_def tx)
    moreover have "mp_ok (m_port w)" using D(1) wait True w(2) by (auto simp: mp_ok_def)
    ultimately have "msys_inv ?s" using True D(2,3,6-9) P r by (auto simp: msys_inv_def w tx)
    moreover have "m_work ?s < m_work s" using r wait by (simp add: m_work_def)
    ultimately show ?thesis using \<open>sys_req_retry L accept s = Inr ?s\<close> by blast
  next
    case False
    let ?s = "s\<lparr>u_port := w\<rparr>"
    have "sys_req_retry L accept s = Inr ?s"
      using w(1) master_done_log [OF w(6), of "s\<lparr>u_retry := False\<rparr>"] False owed by (cases s) (simp add: sys_req_retry_def)
    moreover have "request_inv ?s"
      using False D(4) unfolding request_inv_def by (simp add: w tx own_packet_def cong: option.case_cong)
    moreover have "response_inv ?s" using False D(5) by (simp add: response_inv_def w)
    moreover have "in_flight ?s v = in_flight s v" for v by (simp add: in_flight_def tx)
    moreover have "references ?s v = references s v" for v using False by (simp add: references_def w tx)
    ultimately have "msys_inv ?s" using False D(1-3,6-10) by (simp add: msys_inv_def w tx)
    then show ?thesis using False \<open>sys_req_retry L accept s = Inr ?s\<close> by blast
  qed
qed

text \<open>
  gem5 answers a packet: the port takes the response when no other one is open and begins it, or refuses it
  and owes gem5 a retry.
\<close>

lemma txn_of_response:
  "pkt_senderStates q = pkt_senderStates (m_pkt w pkt) \<Longrightarrow> txn_of (m_set_pkt pkt q w) = txn_of w"
  by (simp add: txn_of_def m_set_pkt_def fun_eq_iff)

text \<open>The response of \<open>pkt\<close> has begun, in the world \<open>w\<close>.\<close>

lemma taken_keeps:
  assumes inv: "msys_inv s" and free: "\<not> responseInProgress (port s)" and pkt: "pkt \<in> set (u_gem5 s)"
    and t: "txn_of (u_port s) pkt = Some t"
    and w: "m_port w = (port s)\<lparr>responseInProgress := \<not> over\<rparr>" "\<And>i. i \<noteq> pkt \<Longrightarrow> txn_of w i = txn_of (u_port s) i"
      "m_next w = m_next (u_port s)"
      "m_gp w = (m_gp (u_port s))(t := (m_gp (u_port s) t)\<lparr>gp_response_status := TLM_OK_RESPONSE\<rparr>)"
    and s': "s' = s\<lparr>u_port := w, u_answered := (if over then u_answered s else u_answered s @ [t]), u_gem5 := remove1 pkt (u_gem5 s),
      u_refs := (u_refs s)(t := u_refs s t - 1)\<rparr>"
  shows "msys_inv s' \<and> m_work s' < m_work s"
proof -
  note D = msys_invD [OF inv] and R = request_invD [OF msys_invD(4) [OF inv]]
  have others: "txn_of w i = txn_of (u_port s) i" if "i \<in> set (remove1 pkt (u_gem5 s))" for i
    using w(2) [of i] that D(6) by (auto simp: set_remove1_eq)
  have "request_inv s'"
  proof -
    have "pendingPacket (port s) \<noteq> Some pkt" using R(5) pkt by auto
    then have "txn_of w p = txn_of (u_port s) p" if "pendingPacket (port s) = Some p" for p using w(2) [of p] that by auto
    then show ?thesis
      using D(4) set_remove1_subset [of pkt "u_gem5 s"] unfolding request_inv_def s'
      by (auto simp: w(1,3,4) own_packet_def cong: option.case_cong)
  qed
  moreover have none: "u_answered s = []" "queued END_RESP (u_peq s) = []" using D(5) free by (simp_all add: response_inv_def)
  have "response_inv s'"
    using D(5) none free by (auto simp: response_inv_def w(1,4) s')
  moreover have "in_flight s v" if "in_flight s' v" for v
    using that t pkt others set_remove1_subset [of pkt "u_gem5 s"] by (auto simp: in_flight_def s' split: if_splits)
  moreover have "u_refs s' v = u_ended s v + references s' v" for v
  proof -
    let ?Q = "\<lambda>i. txn_of (u_port s) i = Some v"
    have "filter (\<lambda>i. txn_of w i = Some v) (remove1 pkt (u_gem5 s)) = filter ?Q (remove1 pkt (u_gem5 s))"
      by (rule txn_filter_cong) (rule others)
    also have "int (length \<dots>) = int (length (filter ?Q (u_gem5 s))) - (if v = t then 1 else 0)"
    proof (cases "v = t")
      case True
      then have mem: "pkt \<in> set (filter ?Q (u_gem5 s))" using pkt t by simp
      obtain m where "length (filter ?Q (u_gem5 s)) = Suc m" using length_pos_if_in_set [OF mem] gr0_implies_Suc by blast
      with mem True show ?thesis by (simp add: filter_remove1 length_remove1)
    next
      case False
      with t show ?thesis by (simp add: filter_remove1 remove1_idem)
    qed
    finally show ?thesis using D(10) [of v] by (auto simp: references_def w(1) s')
  qed
  moreover have "mp_ok (m_port w)" using D(1) free by (auto simp: mp_ok_def w(1))
  moreover have "supported (m_gp w v)" if "in_flight s v" for v
    using D(9) [OF that] by (auto simp: w(4) supported_def)
  moreover have "distinct (remove1 pkt (u_gem5 s))" "\<forall>i \<in> set (remove1 pkt (u_gem5 s)). i < m_next w \<and> txn_of w i \<noteq> None"
    using D(6-8) others set_remove1_subset [of pkt "u_gem5 s"] by (auto simp: w(3))
  ultimately have "msys_inv s'" using D(2,3) by (simp add: msys_inv_def w(1) s')
  moreover have "m_work s' < m_work s"
  proof -
    obtain m where "length (u_gem5 s) = Suc m" using length_pos_if_in_set [OF pkt] gr0_implies_Suc by blast
    then show ?thesis using pkt by (simp add: m_work_def w(1) s' length_remove1 cong: option.case_cong)
  qed
  ultimately show ?thesis ..
qed

lemma respond_keeps:
  assumes inv: "msys_inv s" and ok: "response_ok L pkt q s" and ans: "answer_ok ans"
  shows "\<exists>s'. sys_response L ans pkt q s = Inr (\<not> responseInProgress (port s), s') \<and> msys_inv s'
    \<and> (\<not> responseInProgress (port s) \<longrightarrow> m_work s' < m_work s)"
proof -
  note D = msys_invD [OF inv]
  have pkt: "pkt \<in> set (u_gem5 s)" "\<not> u_refused s" "g_isResponse (ml_gem5 L) (pkt_cmd q)"
      "pkt_senderStates q = pkt_senderStates (m_pkt (u_port s) pkt)" using ok by (simp_all add: response_ok_def)
  define w0 where "w0 = m_set_pkt pkt q (u_port s)"
  have w0: "m_port w0 = port s" "m_gp w0 = m_gp (u_port s)" "m_next w0 = m_next (u_port s)" "m_log w0 = m_log (u_port s)"
      "m_pkt w0 pkt = q" "txn_of w0 = txn_of (u_port s)"
    using txn_of_response [OF pkt(4)] by (simp_all add: w0_def frame_simps m_set_pkt_def)
  obtain t where t: "txn_of (u_port s) pkt = Some t" using D(8) [OF pkt(1)] by auto
  show ?thesis
  proof (cases "responseInProgress (port s)")
    case True
    have need: "\<not> needToSendRetry (port s)" using D(5) pkt(2) by (simp add: response_inv_def)
    let ?w = "m_upd (\<lambda>p. p\<lparr>needToSendRetry := True\<rparr>) w0"
    let ?s = "s\<lparr>u_port := ?w, u_refused := True\<rparr>"
    have "recvTimingResp (master_env_of L True ans) pkt w0 = Inr (False, ?w)"
      by (rule response_refused_effect) (simp_all add: w0 True need)
    then have "sys_response L ans pkt q s = Inr (False, ?s)"
      by (simp add: sys_response_def w0_def [symmetric] master_done_def w0(4) frame_simps)
    moreover have tx: "txn_of ?w = txn_of (u_port s)" using txn_of_cong [of ?w w0] w0(6) by (simp add: frame_simps)
    have "request_inv ?s"
      using D(4) unfolding request_inv_def by (simp add: w0 tx own_packet_def frame_simps cong: option.case_cong)
    moreover have "response_inv ?s" using D(5) True by (simp add: response_inv_def w0 frame_simps)
    moreover have "in_flight ?s v = in_flight s v" for v by (simp add: in_flight_def tx)
    moreover have "references ?s v = references s v" for v by (simp add: references_def tx w0 frame_simps)
    moreover have "mp_ok (m_port ?w)" using D(1) True by (auto simp: mp_ok_def w0 frame_simps)
    ultimately have "msys_inv ?s" using D(2,3,6-10) by (simp add: msys_inv_def w0 tx frame_simps)
    then show ?thesis using True \<open>sys_response L ans pkt q s = Inr (False, ?s)\<close> by simp
  next
    case False
    have pre: "\<not> responseInProgress (m_port w0)" "g_isResponse (ml_gem5 L) (pkt_cmd (m_pkt w0 pkt))" "txn_of w0 pkt = Some t"
        "mp_transactor (m_port w0) \<noteq> None" unfolding w0 by (rule False pkt(3) t D(2))+
    obtain w news d where w: "recvTimingResp (master_env_of L True ans) pkt w0 = Inr (True, w)"
      "m_port w = (m_port w0)\<lparr>responseInProgress := \<not> closes ans\<rparr>" "\<And>i. i \<noteq> pkt \<Longrightarrow> txn_of w i = txn_of w0 i" "m_next w = m_next w0"
      "m_gp w = (m_gp w0)(t := (m_gp w0 t)\<lparr>gp_response_status := TLM_OK_RESPONSE\<rparr>)" "news = [] \<or> news = [Delete_packet pkt]"
      "m_log w = m_log w0 @ news @ [Nb_transport_bw t BEGIN_RESP d, M_release t]"
      by (rule response_taken_effect [OF pre ans, of True]) (rule that)
    let ?s = "s\<lparr>u_port := w, u_answered := (if closes ans then u_answered s else u_answered s @ [t]), u_gem5 := remove1 pkt (u_gem5 s),
      u_refs := (u_refs s)(t := u_refs s t - 1)\<rparr>"
    have "master_done True w s = fold (carry True) (news @ [Nb_transport_bw t BEGIN_RESP d, M_release t]) (s\<lparr>u_port := w\<rparr>)"
      by (rule master_done_log [OF w(7) w0(4) [symmetric]])
    also have "\<dots> = s\<lparr>u_port := w, u_answered := u_answered s @ [t], u_refs := (u_refs s)(t := u_refs s t - 1)\<rparr>"
      using w(6) by auto
    finally have "sys_response L ans pkt q s = Inr (True, ?s)"
      using w(1) by (simp add: sys_response_def begun_def w0_def [symmetric])
    moreover have "msys_inv ?s \<and> m_work ?s < m_work s"
      by (rule taken_keeps [OF inv False pkt(1) t, of w "closes ans"]) (use w(2-5) in \<open>simp_all add: w0\<close>)
    ultimately show ?thesis using False by (intro exI [of _ ?s]) simp
  qed
qed

text \<open>gem5 sends the next response from inside the retry that the end of a response sends.\<close>

lemma resent_keeps:
  assumes inv: "msys_inv s" and lib: "master_lib_ok L" and m: "(t0, END_RESP) \<in> set (u_peq s)" and owed: "u_refused s"
    and ok: "response_ok L pkt q (s\<lparr>u_refused := False\<rparr>)" and ans: "answer_ok ans"
  shows "\<exists>s'. sys_phase_resending L ans pkt q (t0, END_RESP) s = Inr s' \<and> msys_inv s' \<and> m_work s' < m_work s"
proof -
  note D = msys_invD [OF inv]
  have pkt: "pkt \<in> set (u_gem5 s)" "g_isResponse (ml_gem5 L) (pkt_cmd q)"
      "pkt_senderStates q = pkt_senderStates (m_pkt (u_port s) pkt)" using ok by (simp_all add: response_ok_def)
  have need: "needToSendRetry (port s)" "responseInProgress (port s)"
    using D(1,5) owed by (auto simp: response_inv_def mp_ok_def)
  have status: "\<not> tl_is_response_error (ml_tlm L) (gp_response_status (m_gp (u_port s) t0))"
    using D(5) m lib by (simp add: response_inv_def master_lib_ok_def)
  obtain t where t: "txn_of (u_port s) pkt = Some t" using D(8) [OF pkt(1)] by auto
  obtain s1 where s1: "sys_phase L True (t0, END_RESP) s = Inr s1" "msys_inv s1" "m_work s1 < m_work s"
    using phase_end_keeps [OF inv lib m, of True] by blast
  obtain v where v: "s1 = s\<lparr>u_port := v, u_peq := remove1 (t0, END_RESP) (u_peq s), u_refused := False\<rparr>"
      "m_port v = (port s)\<lparr>responseInProgress := False, needToSendRetry := False\<rparr>" "m_gp v = m_gp (u_port s)"
      "m_pkt v = m_pkt (u_port s)" "m_next v = m_next (u_port s)"
    using phase_end_effect [OF inv lib m, of True] s1(1) by auto
  have tx: "txn_of v = txn_of (u_port s)" by (rule txn_of_cong [OF v(4)])
  obtain w news d where w: "mp_peq_cb (retry_env L ans pkt q) t0 END_RESP (u_port s) = Inr w"
    "m_port w = (port s)\<lparr>responseInProgress := \<not> closes ans, needToSendRetry := False\<rparr>"
    "\<And>i. i \<noteq> pkt \<Longrightarrow> txn_of w i = txn_of (u_port s) i" "m_next w = m_next (u_port s)"
    "m_gp w = (m_gp (u_port s))(t := (m_gp (u_port s) t)\<lparr>gp_response_status := TLM_OK_RESPONSE\<rparr>)" "news = [] \<or> news = [Delete_packet pkt]"
    "m_log w = m_log (u_port s) @ [Catchup, Send_retry_resp] @ news @ [Nb_transport_bw t BEGIN_RESP d, M_release t, Notify_loop]"
    by (rule resent_effect [OF need(2,1) status pkt(2,3) t D(2) ans]) (rule that)
  let ?s = "s1\<lparr>u_port := w, u_answered := (if closes ans then u_answered s1 else u_answered s1 @ [t]), u_gem5 := remove1 pkt (u_gem5 s1),
      u_refs := (u_refs s1)(t := u_refs s1 t - 1)\<rparr>"
  have "master_done True w (s\<lparr>u_peq := remove1 (t0, END_RESP) (u_peq s)\<rparr>)
      = fold (carry True) ([Catchup, Send_retry_resp] @ news @ [Nb_transport_bw t BEGIN_RESP d, M_release t, Notify_loop])
        ((s\<lparr>u_peq := remove1 (t0, END_RESP) (u_peq s)\<rparr>)\<lparr>u_port := w\<rparr>)"
    by (rule master_done_log [OF w(7)]) simp
  also have "\<dots> = s1\<lparr>u_port := w, u_answered := u_answered s @ [t], u_refs := (u_refs s)(t := u_refs s t - 1)\<rparr>"
    using w(6) by (auto simp: v(1))
  finally have "sys_phase_resending L ans pkt q (t0, END_RESP) s = Inr ?s"
    using w(1,7) by (simp add: sys_phase_resending_def Let_def begins_def begun_def v(1))
  moreover have "msys_inv ?s \<and> m_work ?s < m_work s1"
    by (rule taken_keeps [OF s1(2), of pkt t w "closes ans"]) (use w(2-5) t pkt(1) in \<open>simp_all add: v tx\<close>)
  ultimately show ?thesis using s1(3) by (intro exI [of _ ?s]) simp
qed

section \<open>Reachable states\<close>

lemma phase_keeps:
  assumes inv: "msys_inv s" and lib: "master_lib_ok L" and m: "m \<in> set (u_peq s)"
  shows "\<exists>s'. sys_phase L accept m s = Inr s' \<and> msys_inv s' \<and> m_work s' < m_work s"
proof -
  obtain t ph where tph: "m = (t, ph)" by (cases m)
  then consider "ph = BEGIN_REQ" | "ph = END_RESP" using msys_invD(3) [OF inv m] by auto
  then show ?thesis
    using phase_begin_keeps [OF inv] phase_end_keeps [OF inv lib] m tph by cases auto
qed

lemma msys_step_inv:
  assumes "msys_step L s s'" and inv: "msys_inv s" and lib: "master_lib_ok L"
  shows "msys_inv s'"
  using assms(1)
proof (cases rule: msys_step.cases)
  case (Clock c)
  then show ?thesis
    using inv txn_of_cong [of "(u_port s)\<lparr>m_now := c\<rparr>" "u_port s"]
    by (simp add: msys_inv_def request_inv_def response_inv_def in_flight_def own_packet_def references_def cong: option.case_cong)
next
  case (Begin t p d)
  then show ?thesis using begin_keeps [OF inv] by simp
next
  case (End t d)
  then show ?thesis using end_keeps [OF inv] by simp
next
  case (Phase m accept)
  then show ?thesis using phase_keeps [OF inv lib, of m accept] by auto
next
  case (Ask accept)
  then show ?thesis using ask_keeps [OF inv, of L accept] by auto
next
  case (Respond pkt q ans taken)
  then show ?thesis using respond_keeps [OF inv, of L pkt q ans] by auto
next
  case (In_retry t pkt q ans)
  then show ?thesis using resent_keeps [OF inv lib In_retry(1-4)] by auto
qed

lemma msys_start_inv: "msys_start s \<Longrightarrow> msys_inv s"
  by (auto simp: msys_start_def msys_inv_def request_inv_def response_inv_def in_flight_def references_def mp_ok_def SCMasterPort_def)

lemma msys_reachable_inv:
  assumes "msys_reachable L s" and lib: "master_lib_ok L"
  shows "msys_inv s"
proof -
  obtain s0 where s0: "msys_start s0" "(msys_step L)\<^sup>*\<^sup>* s0 s" using assms(1) by (auto simp: msys_reachable_def)
  from s0(2) show ?thesis
    by (induction rule: rtranclp_induct) (use msys_start_inv [OF s0(1)] msys_step_inv [OF _ _ lib] in blast)+
qed

text \<open>
  C13: a master port never ends the simulation when initiator and gem5 keep their protocols and gem5 does not
  send more than one response from inside a retry, nor one from inside \<open>sendTimingReq\<close>. In every state that the
  system of the three can reach, every queued phase, every request that gem5 asks for again and every
  response, whether the initiator accepts it or ends it with its answer, is handled without a failed
  assertion, a panic or an error report; a response is taken exactly when no other one is open. The same
  holds for the end of a response when gem5 sends the next one from inside the retry. (A second one there
  is stopped by an assertion: \<open>second_response_in_retry_asserts\<close>.) And the port keeps the base protocol: at most
  one request waits for its end, and at most one response for its own.
\<close>

theorem master_system_never_stops:
  assumes "msys_reachable L s" and "master_lib_ok L"
  shows "(m \<in> set (u_peq s) \<longrightarrow> returns (sys_phase L accept m s))
    \<and> (u_retry s \<longrightarrow> returns (sys_req_retry L accept s))
    \<and> (response_ok L pkt q s \<longrightarrow> answer_ok ans \<longrightarrow>
         (\<exists>s'. sys_response L ans pkt q s = Inr (\<not> responseInProgress (m_port (u_port s)), s')))
    \<and> ((t, END_RESP) \<in> set (u_peq s) \<longrightarrow> u_refused s \<longrightarrow> response_ok L pkt q (s\<lparr>u_refused := False\<rparr>) \<longrightarrow> answer_ok ans \<longrightarrow>
         returns (sys_phase_resending L ans pkt q (t, END_RESP) s))
    \<and> length (queued BEGIN_REQ (u_peq s)) \<le> 1 \<and> length (u_answered s) + length (queued END_RESP (u_peq s)) \<le> 1"
proof -
  have inv: "msys_inv s" by (rule msys_reachable_inv [OF assms])
  note D = msys_invD [OF inv]
  have "length (queued BEGIN_REQ (u_peq s)) \<le> 1"
    using request_invD(1) [OF D(4)] by (auto split: option.splits if_splits)
  moreover have "length (u_answered s) + length (queued END_RESP (u_peq s)) \<le> 1"
    using D(5) by (simp add: response_inv_def)
  moreover have "returns (sys_phase L accept m s)" if "m \<in> set (u_peq s)"
    using phase_keeps [OF inv assms(2) that, of accept] by (auto simp: returns_iff)
  moreover have "returns (sys_req_retry L accept s)" if "u_retry s"
    using ask_keeps [OF inv that, of L accept] by (auto simp: returns_iff)
  moreover have "returns (sys_phase_resending L ans pkt q (t, END_RESP) s)"
    if "(t, END_RESP) \<in> set (u_peq s)" "u_refused s" "response_ok L pkt q (s\<lparr>u_refused := False\<rparr>)" "answer_ok ans"
    using resent_keeps [OF inv assms(2) that] by (auto simp: returns_iff)
  ultimately show ?thesis using respond_keeps [OF inv, of L pkt q ans] by blast
qed

section \<open>Every request is answered\<close>

definition quiet_system :: "msys \<Rightarrow> bool" where
  "quiet_system s \<longleftrightarrow> u_request s = None \<and> u_peq s = [] \<and> u_answered s = [] \<and> u_gem5 s = [] \<and> \<not> u_retry s \<and> \<not> u_refused s
     \<and> (\<exists>name. port s = SCMasterPort\<lparr>mp_transactor := Some name\<rparr>)"

definition answering_lib :: "master_lib \<Rightarrow> bool" where
  "answering_lib L \<longleftrightarrow> master_lib_ok L \<and> (\<exists>c. g_isResponse (ml_gem5 L) c)"

lemma unquiet_step:
  assumes inv: "msys_inv s" and lib: "answering_lib L" and "\<not> quiet_system s"
  shows "\<exists>s'. msys_step L s s' \<and> msys_inv s' \<and> m_work s' < m_work s"
proof -
  note D = msys_invD [OF inv] and R = request_invD [OF msys_invD(4) [OF inv]]
  have ok: "master_lib_ok L" using lib by (simp add: answering_lib_def)
  obtain c where c: "g_isResponse (ml_gem5 L) c" using lib by (auto simp: answering_lib_def)
  consider (phase) m where "m \<in> set (u_peq s)" | (retry) "u_retry s" | (ended) t where "t \<in> set (u_answered s)"
    | (answer) pkt where "pkt \<in> set (u_gem5 s)" "\<not> responseInProgress (port s)"
    | (quiet) "u_peq s = []" "\<not> u_retry s" "u_answered s = []" "\<not> responseInProgress (port s)" "u_gem5 s = []"
  proof -
    have "responseInProgress (port s) \<longrightarrow> u_answered s \<noteq> [] \<or> u_peq s \<noteq> []"
      using D(5) by (auto simp: response_inv_def)
    with that show thesis by (metis ex_in_conv set_empty)
  qed
  then show ?thesis
  proof cases
    case phase
    then show ?thesis using phase_keeps [OF inv ok phase, of True] msys_step.Phase [OF phase, of L True] by blast
  next
    case retry
    then show ?thesis using ask_keeps [OF inv retry, of L True] msys_step.Ask [OF retry, of L True] by blast
  next
    case ended
    then show ?thesis using end_keeps [OF inv ended] msys_step.End [OF ended] by blast
  next
    case answer
    have "\<not> u_refused s" using D(1,5) answer(2) by (auto simp: mp_ok_def response_inv_def)
    then have r: "response_ok L pkt ((m_pkt (u_port s) pkt)\<lparr>pkt_cmd := c\<rparr>) s" using answer(1) c by (simp add: response_ok_def)
    have a: "answer_ok (TLM_ACCEPTED, BEGIN_RESP, 0)" by (simp add: answer_ok_def)
    show ?thesis using respond_keeps [OF inv r a] msys_step.Respond [OF r a] answer(2) by blast
  next
    case quiet
    have wait: "\<not> waitForRetry (port s)" using R(3) quiet(2) by simp
    have "u_request s = None" using R(1) quiet(1) wait by (auto split: option.splits)
    moreover have "\<not> u_refused s" using D(1,5) quiet(4) by (auto simp: mp_ok_def response_inv_def)
    moreover have "\<exists>name. port s = SCMasterPort\<lparr>mp_transactor := Some name\<rparr>"
      using D(1,2) wait quiet(4) by (cases "port s") (auto simp: mp_ok_def SCMasterPort_def)
    ultimately show ?thesis using quiet assms(3) by (simp add: quiet_system_def)
  qed
qed

text \<open>
  C14: every request through a master port is answered. From every state that the system can reach, steps of
  the port with a gem5 that accepts requests and answers packets, and an initiator that ends responses,
  lead to a state with nothing open, in which the port is as after its construction and binding; at most
  \<open>m_work s\<close> steps are needed.
\<close>

theorem master_system_drains:
  assumes "msys_reachable L s" and "answering_lib L"
  shows "\<exists>N s'. N \<le> m_work s \<and> (msys_step L ^^ N) s s' \<and> quiet_system s'"
proof -
  have "msys_inv s" by (rule msys_reachable_inv [OF assms(1)]) (use assms(2) in \<open>simp add: answering_lib_def\<close>)
  then show ?thesis
  proof (induction "m_work s" arbitrary: s rule: less_induct)
    case less
    show ?case
    proof (cases "quiet_system s")
      case True
      then show ?thesis by (intro exI [of _ 0] exI [of _ s]) simp
    next
      case False
      obtain s1 where s1: "msys_step L s s1" "msys_inv s1" "m_work s1 < m_work s"
        using unquiet_step [OF less.prems assms(2) False] by blast
      from less.hyps [OF s1(3,2)] obtain N s' where "N \<le> m_work s1" "(msys_step L ^^ N) s1 s'" "quiet_system s'" by blast
      moreover from relpowp_Suc_I2 [OF s1(1) this(2)] have "(msys_step L ^^ Suc N) s s'" .
      ultimately show ?thesis using s1(3) by (intro exI [of _ "Suc N"] exI [of _ s']) simp
    qed
  qed
qed

text \<open>
  C15: what a master port does with references. In every reachable state it holds, beyond one reference for
  each response of a transaction that the initiator has ended with \<open>END_RESP\<close>, two references while the request waits for
  a retry, one while it is queued or gem5 has its packet, and none otherwise. The references for ended
  responses are never given back: a transaction that is no longer in flight keeps one for every time
  it has been used.
\<close>

theorem master_references:
  assumes "msys_reachable L s" and "master_lib_ok L"
  shows "u_refs s t = u_ended s t + references s t \<and> (\<not> in_flight s t \<longrightarrow> u_refs s t = u_ended s t)"
proof -
  have inv: "msys_inv s" by (rule msys_reachable_inv [OF assms])
  have "references s t = 0" if "\<not> in_flight s t"
  proof -
    have "filter (\<lambda>pkt. txn_of (u_port s) pkt = Some t) (u_gem5 s) = []" using that by (auto simp: in_flight_def filter_empty_conv)
    moreover have "u_request s \<noteq> Some t" using that by (simp add: in_flight_def)
    ultimately show ?thesis by (simp add: references_def)
  qed
  with msys_invD(10) [OF inv, of t] show ?thesis by simp
qed

section \<open>A run\<close>

text \<open>gem5 refuses the request, takes it when it asks again, and answers; the initiator ends the response.\<close>

definition demo_mlib :: master_lib where
  "demo_mlib = \<lparr>ml_tlm = demo_tlm, ml_gem5 = demo_gem5, ml_owner_id = 3, ml_Packet = me_Packet (demo_menv True),
     ml_sc_time = (\<lambda>t. t)\<rparr>"

definition demo_msys :: msys where
  "demo_msys = \<lparr>u_port = demo_bound_mworld, u_peq = [], u_request = None, u_answered = [], u_gem5 = [], u_retry = False,
     u_refused = False, u_refs = (\<lambda>_. 0), u_ended = (\<lambda>_. 0)\<rparr>"

definition demo_asked :: "msys res" where
  "demo_asked =
     bindr (sys_phase demo_mlib False (0, BEGIN_REQ) (sys_begin 0 demo_payload 0 demo_msys)) (\<lambda>s.
     if u_retry s then sys_req_retry demo_mlib True s else Inl Assert_failed)"

definition demo_reply :: "msys \<Rightarrow> packet" where
  "demo_reply s = (m_pkt (u_port s) 0)\<lparr>pkt_cmd := OtherCmd 1\<rparr>"

definition demo_answered :: "msys res" where
  "demo_answered =
     bindr demo_asked (\<lambda>s.
     if response_ok demo_mlib 0 (demo_reply s) s then
     bindr (sys_response demo_mlib (TLM_ACCEPTED, BEGIN_RESP, 0) 0 (demo_reply s) s) (\<lambda>(_, s).
     if u_answered s = [0] then sys_phase demo_mlib True (0, END_RESP) (sys_end 0 0 s) else Inl Assert_failed)
     else Inl Assert_failed)"

lemma demo_mlib_ok: "master_lib_ok demo_mlib" "answering_lib demo_mlib"
  by (auto simp: answering_lib_def master_lib_ok_def demo_mlib_def demo_tlm_def demo_gem5_def)

lemma demo_asked_runs:
  "case demo_asked of Inl _ \<Rightarrow> False
   | Inr s \<Rightarrow> response_ok demo_mlib 0 (demo_reply s) s \<and> \<not> responseInProgress (port s)"
  by code_simp

lemma demo_answered_runs:
  "case demo_answered of Inl _ \<Rightarrow> False
   | Inr s \<Rightarrow> u_request s = None \<and> u_answered s = [] \<and> u_peq s = [] \<and> u_gem5 s = [] \<and> u_ended s 0 = 1"
  by code_simp

lemma msys_reachable_step: "msys_reachable L s \<Longrightarrow> msys_step L s s' \<Longrightarrow> msys_reachable L s'"
  unfolding msys_reachable_def by (blast intro: rtranclp.rtrancl_into_rtrancl)

lemma demo_begun: "msys_reachable demo_mlib (sys_begin 0 demo_payload 0 demo_msys)"
    "(0, BEGIN_REQ) \<in> set (u_peq (sys_begin 0 demo_payload 0 demo_msys))"
proof -
  have "msys_start demo_msys" by (auto simp: msys_start_def demo_msys_def demo_bound_mworld_def)
  then have start: "msys_reachable demo_mlib demo_msys" by (auto simp: msys_reachable_def)
  have b: "begin_ok 0 demo_payload demo_msys"
    by (simp add: begin_ok_def in_flight_def supported_def own_packet_def demo_msys_def demo_payload_def)
  show "msys_reachable demo_mlib (sys_begin 0 demo_payload 0 demo_msys)"
    by (rule msys_reachable_step [OF start msys_step.Begin [OF b]])
  obtain w where "sys_begin 0 demo_payload 0 demo_msys = demo_msys\<lparr>u_port := w, u_peq := u_peq demo_msys @ [(0, BEGIN_REQ)],
      u_request := Some 0, u_refs := (u_refs demo_msys)(0 := u_refs demo_msys 0 + 1)\<rparr>"
    using sys_begin_effect [OF b] by blast
  then show "(0, BEGIN_REQ) \<in> set (u_peq (sys_begin 0 demo_payload 0 demo_msys))" by simp
qed

lemma demo_asked_outcome:
  obtains s where "demo_asked = Inr s" "msys_reachable demo_mlib s" "response_ok demo_mlib 0 (demo_reply s) s"
    "\<not> responseInProgress (port s)"
proof -
  obtain s where s: "demo_asked = Inr s" "response_ok demo_mlib 0 (demo_reply s) s" "\<not> responseInProgress (port s)"
    using demo_asked_runs by (auto split: sum.splits)
  obtain s1 where s1: "sys_phase demo_mlib False (0, BEGIN_REQ) (sys_begin 0 demo_payload 0 demo_msys) = Inr s1" "u_retry s1"
      "sys_req_retry demo_mlib True s1 = Inr s"
    using s(1) by (auto simp: demo_asked_def res_simps split: if_splits)
  have "msys_reachable demo_mlib s"
    using msys_reachable_step [OF msys_reachable_step [OF demo_begun(1) msys_step.Phase [OF demo_begun(2) s1(1)]]
        msys_step.Ask [OF s1(2,3)]] .
  with s show thesis by (intro that)
qed

lemma demo_answered_outcome:
  obtains s where "demo_answered = Inr s" "msys_reachable demo_mlib s" "\<not> in_flight s 0" "u_ended s 0 = 1"
proof -
  obtain s where s: "demo_answered = Inr s" "u_request s = None" "u_answered s = []" "u_peq s = []" "u_gem5 s = []" "u_ended s 0 = 1"
    using demo_answered_runs by (auto split: sum.splits)
  obtain s0 where s0: "demo_asked = Inr s0" "msys_reachable demo_mlib s0" "response_ok demo_mlib 0 (demo_reply s0) s0"
    by (rule demo_asked_outcome) (rule that)
  obtain taken s1 where s1: "sys_response demo_mlib (TLM_ACCEPTED, BEGIN_RESP, 0) 0 (demo_reply s0) s0 = Inr (taken, s1)" "u_answered s1 = [0]"
      "sys_phase demo_mlib True (0, END_RESP) (sys_end 0 0 s1) = Inr s"
    using s(1) s0(3) by (auto simp: demo_answered_def s0(1) res_simps split: if_splits)
  have a: "answer_ok (TLM_ACCEPTED, BEGIN_RESP, 0)" by (simp add: answer_ok_def)
  note r1 = msys_reachable_step [OF s0(2) msys_step.Respond [OF s0(3) a s1(1)]]
  have m: "0 \<in> set (u_answered s1)" using s1(2) by simp
  note r2 = msys_reachable_step [OF r1 msys_step.End [OF m, of demo_mlib 0]]
  have "(0, END_RESP) \<in> set (u_peq (sys_end 0 0 s1))"
    using sys_end_effect [OF msys_reachable_inv [OF r1 demo_mlib_ok(1)] m, of 0] by auto
  from msys_reachable_step [OF r2 msys_step.Phase [OF this s1(3)]] have "msys_reachable demo_mlib s" .
  moreover have "\<not> in_flight s 0" using s(2-5) by (simp add: in_flight_def)
  ultimately show thesis using s(1,6) by (intro that)
qed

theorem master_system_never_stops_witness:
  "\<exists>s. demo_asked = Inr s \<and> (\<exists>s'. sys_response demo_mlib (TLM_COMPLETED, END_RESP, 0) 0 (demo_reply s) s = Inr (True, s')) \<and> length (queued BEGIN_REQ (u_peq s)) \<le> 1"
proof -
  obtain s where s: "demo_asked = Inr s" "msys_reachable demo_mlib s" "response_ok demo_mlib 0 (demo_reply s) s"
      "\<not> responseInProgress (port s)" by (rule demo_asked_outcome)
  have "answer_ok (TLM_COMPLETED, END_RESP, 0)" by (simp add: answer_ok_def closes_def)
  with master_system_never_stops [OF s(2) demo_mlib_ok(1), of _ _ 0 "demo_reply s" "(TLM_COMPLETED, END_RESP, 0)"] s show ?thesis by auto
qed

theorem master_system_drains_witness:
  "\<exists>N s'. (msys_step demo_mlib ^^ N) (sys_begin 0 demo_payload 0 demo_msys) s' \<and> quiet_system s'"
  using master_system_drains [OF demo_begun(1) demo_mlib_ok(2)] by blast

theorem master_references_witness: "\<exists>s. demo_answered = Inr s \<and> \<not> in_flight s 0 \<and> u_refs s 0 = 1"
proof -
  obtain s where s: "demo_answered = Inr s" "msys_reachable demo_mlib s" "\<not> in_flight s 0" "u_ended s 0 = 1"
    by (rule demo_answered_outcome)
  from master_references [OF s(2) demo_mlib_ok(1), of 0] s show ?thesis by auto
qed

end
