(* ===== verification/Module_Properties.thy ===== *)
theory Module_Properties
  imports Sc_Module
begin

text \<open>
  The properties of the event loop: gem5 time never passes SystemC time, events are served exactly when
  they are due, the loop ends and how, and the limit of a simulation saturates.
\<close>

lemma s_frame [frame_simps]:
  "s_mod (s_note c w) = s_mod w" "s_queue (s_note c w) = s_queue w" "s_curTick (s_note c w) = s_curTick w"
  "s_now (s_note c w) = s_now w" "s_log (s_note c w) = s_log w @ [c]" "s_async (s_note c w) = s_async w"
  "s_mod (s_upd f w) = f (s_mod w)" "s_queue (s_upd f w) = s_queue w" "s_curTick (s_upd f w) = s_curTick w"
  "s_now (s_upd f w) = s_now w" "s_log (s_upd f w) = s_log w" "s_async (s_upd f w) = s_async w"
  by (simp_all add: s_note_def s_upd_def)

section \<open>A concrete queue\<close>

text \<open>The ticks of the events in order; serving one removes it.\<close>

definition demo_qenv :: "tick list module_env" where
  "demo_qenv = \<lparr>mo_empty = (\<lambda>q. q = []), mo_nextTick = (\<lambda>q. case q of [] \<Rightarrow> 0 | t # _ \<Rightarrow> t),
     mo_serviceOne = (\<lambda>w. case s_queue w of [] \<Rightarrow> (Some 0, w) | t # q \<Rightarrow> (None, w\<lparr>s_queue := q\<rparr>)),
     mo_schedStatEvent = (\<lambda>d r w. w), mo_exitSimLoop = id, mo_pollService = id,
     mo_MaxTick = - 1, mo_new_limit = (\<lambda>t w. (0, w)), mo_deschedule = (\<lambda>e w. w), mo_wait_exit = Inr,
     mo_globalEvent = Some, mo_isExitEvent = (\<lambda>_. True)\<rparr>"

definition demo_sworld :: "tick list sworld" where
  "demo_sworld = \<lparr>s_mod = (Module 0 None)\<lparr>in_simulate := True\<rparr>, s_queue = [5, 5, 9], s_queues = 1, s_curTick = 2,
     s_now = 5, s_async = \<lparr>async_event = False, async_statdump = False, async_statreset = False, async_exit = False,
       async_io = False, async_exception = False\<rparr>, s_log = []\<rparr>"

lemma demo_loop: "\<exists>w'. event_loop demo_qenv (Suc (Suc (Suc 0))) demo_sworld = Inr w' \<and> s_queue w' = [9] \<and> s_log w' = [Notify_enter 4]"
  by (simp add: catchup_def demo_sworld_def demo_qenv_def frame_simps Module_def Let_def s_note_def s_upd_def)

section \<open>Properties\<close>

text \<open>
  Catching up returns exactly when gem5 is not ahead of SystemC and has not passed the time of its
  next event; its only effect is that gem5 time becomes SystemC time. In every other case it ends
  the simulation with the matching report.
\<close>

theorem catchup_exact:
  "catchup E w =
     (if s_curTick w \<le> s_now w
      then if mo_empty E (s_queue w) \<or> s_curTick w \<le> mo_nextTick E (s_queue w)
           then Inr (w\<lparr>s_curTick := s_now w\<rparr>) else Inl (Fatal ''Missed an event'')
      else Inl (Fatal ''gem5 time must lag SystemC time''))"
  by (auto simp: catchup_def Let_def not_le not_less)

theorem catchup_exact_witness:
  "catchup demo_qenv demo_sworld = Inr (demo_sworld\<lparr>s_curTick := 5\<rparr>)"
  using catchup_exact [of demo_qenv demo_sworld] by (simp add: demo_sworld_def demo_qenv_def)

text \<open>The world in which the loop decides what to do, and the worlds in which the next event is due.\<close>

definition loop_world :: "'q sworld \<Rightarrow> 'q sworld" where
  "loop_world w = (let w = w\<lparr>s_curTick := s_now w\<rparr> in
     if wait_exit_time (s_mod w) > s_now w then s_upd (\<lambda>m. m\<lparr>wait_exit_time := s_now w\<rparr>) w else w)"

definition due :: "'q module_env \<Rightarrow> 'q sworld \<Rightarrow> bool" where
  "due E w \<longleftrightarrow> \<not> mo_empty E (s_queue w) \<and> s_curTick w = s_now w \<and> mo_nextTick E (s_queue w) = s_now w"

lemma loop_world_frame [frame_simps]:
  "s_queue (loop_world w) = s_queue w" "s_now (loop_world w) = s_now w" "s_curTick (loop_world w) = s_now w"
  "s_log (loop_world w) = s_log w"
  by (simp_all add: loop_world_def Let_def frame_simps)

definition go_to_sleep :: "tick \<Rightarrow> 'q sworld \<Rightarrow> 'q sworld" where
  "go_to_sleep next w = s_note (Notify_enter (next - s_now w)) (s_upd (\<lambda>m. m\<lparr>wait_exit_time := next\<rparr>) w)"

text \<open>One round of the loop, in the four ways it can go.\<close>

lemma event_loop_round:
  "event_loop E (Suc n) w =
     (if mo_empty E (s_queue w) then Inl (Fatal ''Ran out of events without seeing exit event'')
      else if s_curTick w > s_now w then Inl (Fatal ''gem5 time must lag SystemC time'')
      else if s_curTick w > mo_nextTick E (s_queue w) \<or> s_now w > mo_nextTick E (s_queue w)
      then Inl (Fatal ''Missed an event'')
      else if s_now w < mo_nextTick E (s_queue w)
      then Inr (go_to_sleep (mo_nextTick E (s_queue w)) (loop_world w))
      else case mo_serviceOne E (loop_world w) of (e, w1) \<Rightarrow>
        if e \<noteq> None then Inr (s_note Notify_exit (s_upd (\<lambda>m. m\<lparr>exitEvent := e\<rparr>) w1))
        else event_loop E n (s_upd (\<lambda>m. m\<lparr>exitEvent := e\<rparr>) w1))"
proof (cases "mo_empty E (s_queue w) \<or> s_curTick w > s_now w \<or> s_curTick w > mo_nextTick E (s_queue w)")
  case True
  then show ?thesis by (auto simp: catchup_def)
next
  case False
  then have c: "catchup E w = Inr (w\<lparr>s_curTick := s_now w\<rparr>)" by (auto simp: catchup_def)
  have step: "event_loop E (Suc n) w =
      (if s_now w < mo_nextTick E (s_queue w)
       then Inr (go_to_sleep (mo_nextTick E (s_queue w)) (loop_world w))
       else if s_now w > mo_nextTick E (s_queue w) then Inl (Fatal ''Missed an event'')
       else case mo_serviceOne E (loop_world w) of (e, w1) \<Rightarrow>
         if e \<noteq> None then Inr (s_note Notify_exit (s_upd (\<lambda>m. m\<lparr>exitEvent := e\<rparr>) w1))
         else event_loop E n (s_upd (\<lambda>m. m\<lparr>exitEvent := e\<rparr>) w1))"
    using False
    by (subst event_loop.simps) (simp add: c Let_def loop_world_def go_to_sleep_def frame_simps del: event_loop.simps)
  show ?thesis unfolding step using False by (auto simp del: event_loop.simps)
qed

text \<open>
  C30: gem5 serves its events on time. The result of the loop depends on what serving an event does only
  in worlds where gem5 time, SystemC time and the time of the next event coincide: no event is ever
  served early or late, and none is served at a time gem5 has not caught up with.
\<close>

theorem events_served_when_due:
  assumes "\<And>v. due E v \<Longrightarrow> mo_serviceOne E v = f v"
  shows "event_loop E n w = event_loop (E\<lparr>mo_serviceOne := f\<rparr>) n w"
proof (induction n arbitrary: w)
  case 0
  show ?case by simp
next
  case (Suc n)
  show ?case
  proof (cases "\<not> mo_empty E (s_queue w) \<and> s_now w = mo_nextTick E (s_queue w)")
    case True
    then have "due E (loop_world w)" by (simp add: due_def frame_simps)
    then have "mo_serviceOne E (loop_world w) = f (loop_world w)" by (rule assms)
    then show ?thesis
      unfolding event_loop_round by (simp add: Suc.IH case_prod_beta del: event_loop.simps)
  next
    case False
    then show ?thesis unfolding event_loop_round by (auto simp del: event_loop.simps)
  qed
qed

theorem events_served_when_due_witness:
  "event_loop demo_qenv 4 demo_sworld = event_loop (demo_qenv\<lparr>mo_serviceOne :=
     (\<lambda>w. if due demo_qenv w then mo_serviceOne demo_qenv w else (Some 1, w))\<rparr>) 4 demo_sworld"
  by (rule events_served_when_due) simp

lemma event_loop_end:
  assumes now: "\<forall>v e v'. due E v \<longrightarrow> mo_serviceOne E v = (e, v') \<longrightarrow> s_now v' = s_now v"
    and "event_loop E n w = Inr w'"
  shows "s_now w' = s_now w
    \<and> (exitEvent (s_mod w') \<noteq> None \<and> (\<exists>l. s_log w' = l @ [Notify_exit])
     \<or> s_curTick w' = s_now w' \<and> \<not> mo_empty E (s_queue w') \<and> s_now w' < mo_nextTick E (s_queue w')
       \<and> wait_exit_time (s_mod w') = mo_nextTick E (s_queue w')
       \<and> (\<exists>l. s_log w' = l @ [Notify_enter (mo_nextTick E (s_queue w') - s_now w')]))"
  using assms(2)
proof (induction n arbitrary: w)
  case 0
  then show ?case by (simp split: if_splits)
next
  case (Suc n)
  show ?case
  proof (cases "s_now w < mo_nextTick E (s_queue w)")
    case True
    with Suc.prems have "w' = go_to_sleep (mo_nextTick E (s_queue w)) (loop_world w)"
      "\<not> mo_empty E (s_queue w)"
      unfolding event_loop_round by (auto split: if_splits simp del: event_loop.simps)
    with True show ?thesis by (simp add: go_to_sleep_def frame_simps)
  next
    case False
    obtain e w1 where s: "mo_serviceOne E (loop_world w) = (e, w1)" by (cases "mo_serviceOne E (loop_world w)")
    have "due E (loop_world w)"
      using Suc.prems False unfolding event_loop_round
      by (auto simp: due_def frame_simps not_less split: if_splits simp del: event_loop.simps)
    then have w1: "s_now w1 = s_now w" using now s by (metis loop_world_frame(2))
    from Suc.prems False s have "(if e \<noteq> None then Inr (s_note Notify_exit (s_upd (\<lambda>m. m\<lparr>exitEvent := e\<rparr>) w1))
        else event_loop E n (s_upd (\<lambda>m. m\<lparr>exitEvent := e\<rparr>) w1)) = Inr w'"
      unfolding event_loop_round by (simp split: if_splits del: event_loop.simps)
    then show ?thesis
      using w1 Suc.IH [of "s_upd (\<lambda>m. m\<lparr>exitEvent := e\<rparr>) w1"]
      by (auto split: if_splits simp: frame_simps simp del: event_loop.simps)
  qed
qed

text \<open>
  C29: the loop ends, and only in a state to go on from. If serving an event without an exit leaves
  fewer events due (by some measure of the queue), then as many rounds as the measure says, and one,
  are enough; and when the loop returns, either an exit event is recorded and announced, or gem5
  time is SystemC time, the next event is in the future, and the loop has asked to be entered again
  after exactly the time that remains.
\<close>

theorem event_loop_ends:
  assumes now: "\<forall>v e v'. due E v \<longrightarrow> mo_serviceOne E v = (e, v') \<longrightarrow> s_now v' = s_now v"
    and progress: "\<forall>v v'. due E v \<longrightarrow> mo_serviceOne E v = (None, v') \<longrightarrow> m (s_queue v') < (m (s_queue v) :: nat)"
  shows "event_loop E (Suc (m (s_queue w))) w \<noteq> Inl No_return
    \<and> (\<forall>w'. event_loop E n w = Inr w' \<longrightarrow> s_now w' = s_now w
      \<and> (exitEvent (s_mod w') \<noteq> None \<and> (\<exists>l. s_log w' = l @ [Notify_exit])
       \<or> s_curTick w' = s_now w' \<and> \<not> mo_empty E (s_queue w') \<and> s_now w' < mo_nextTick E (s_queue w')
         \<and> wait_exit_time (s_mod w') = mo_nextTick E (s_queue w')
         \<and> (\<exists>l. s_log w' = l @ [Notify_enter (mo_nextTick E (s_queue w') - s_now w')])))"
proof -
  have "event_loop E k w \<noteq> Inl No_return" if "m (s_queue w) < k" for k
    using that
  proof (induction k arbitrary: w)
    case (Suc k)
    obtain e w1 where s: "mo_serviceOne E (loop_world w) = (e, w1)" by (cases "mo_serviceOne E (loop_world w)")
    show ?case
    proof (cases "due E (loop_world w) \<and> e = None")
      case True
      then have "m (s_queue w1) < k" using progress s Suc.prems by (fastforce simp: frame_simps)
      then have "event_loop E k (s_upd (\<lambda>m. m\<lparr>exitEvent := e\<rparr>) w1) \<noteq> Inl No_return"
        by (intro Suc.IH) (simp add: frame_simps)
      then show ?thesis unfolding event_loop_round using s by (auto simp del: event_loop.simps)
    next
      case False
      then show ?thesis
        unfolding event_loop_round using s by (auto simp: due_def frame_simps simp del: event_loop.simps)
    qed
  qed simp
  then show ?thesis using event_loop_end [OF now] by blast
qed

theorem event_loop_ends_witness:
  "\<exists>w'. event_loop demo_qenv (Suc (Suc (Suc 0))) demo_sworld = Inr w' \<and> s_queue w' = [9] \<and> s_curTick w' = 5
     \<and> event_loop demo_qenv (Suc (length (s_queue demo_sworld))) demo_sworld \<noteq> Inl No_return"
proof -
  have now: "\<forall>v e v'. due demo_qenv v \<longrightarrow> mo_serviceOne demo_qenv v = (e, v') \<longrightarrow> s_now v' = s_now v"
    by (auto simp: demo_qenv_def split: list.splits)
  have progress: "\<forall>v v'. due demo_qenv v \<longrightarrow> mo_serviceOne demo_qenv v = (None, v')
      \<longrightarrow> length (s_queue v') < length (s_queue v)"
    by (auto simp: demo_qenv_def split: list.splits)
  obtain w' where w': "event_loop demo_qenv (Suc (Suc (Suc 0))) demo_sworld = Inr w'" "s_queue w' = [9]" "s_log w' = [Notify_enter 4]"
    using demo_loop by blast
  have "s_curTick w' = 5"
    using event_loop_ends [OF now progress, of demo_sworld "Suc (Suc (Suc 0))"] w' by (auto simp: demo_sworld_def)
  then show ?thesis using event_loop_ends [OF now progress, of demo_sworld "Suc (Suc (Suc 0))"] w' by blast
qed

text \<open>
  The limit of a simulation saturates. With the largest tick as gem5's maximum, the tick at which
  \<open>simulate\<close> schedules its limit event is the sum of the current tick and the requested cycles, or the
  largest tick when the sum does not fit; it never wraps around to a tick in the past.
\<close>

theorem simulate_limit_saturates:
  "unat (simulate_limit (- 1) cur num) = min (unat cur + unat num) (2 ^ 64 - 1) \<and> cur \<le> simulate_limit (- 1) cur num"
proof -
  have max: "unat (- 1 :: tick) = 2 ^ 64 - 1" by (simp add: unsigned_minus_1_eq_mask mask_eq_exp_minus_1)
  have "unat cur < 2 ^ 64" using unsigned_less [of cur] by simp
  then have cur: "unat cur \<le> 2 ^ 64 - 1" by simp
  have sub: "unat (- 1 - cur) = 2 ^ 64 - 1 - unat cur"
    using cur max by (subst unat_sub) (simp_all add: word_le_nat_alt)
  have "unat (simulate_limit (- 1) cur num) = min (unat cur + unat num) (2 ^ 64 - 1)"
  proof (cases "num < - 1 - cur")
    case True
    then have "unat num < 2 ^ 64 - 1 - unat cur" using sub by (simp add: word_less_nat_alt)
    moreover from this have "unat (cur + num) = unat cur + unat num" by (simp add: unat_word_ariths)
    ultimately show ?thesis using True by (simp add: simulate_limit_def)
  next
    case False
    then have "2 ^ 64 - 1 - unat cur \<le> unat num" using sub by (simp add: word_less_nat_alt)
    then show ?thesis using False max by (simp add: simulate_limit_def)
  qed
  then show ?thesis using cur by (simp add: word_le_nat_alt)
qed

end
