(* ===== verification/Module_Host.thy ===== *)
theory Module_Host
  imports Co_Timed_Properties Module_Properties
begin

text \<open>
  The timed system inside the event loop of \<open>Module\<close>. In \<open>Co_Timed\<close> gem5's clock is always the clock of
  SystemC and a payload event is served at its tick. Here gem5 only runs when SystemC runs one of the
  two methods of \<open>Module\<close>, its clock lags in between, and time passes a payload event unless a pending
  notification stops it.

  The state is the world of \<open>Module\<close> with the timed system in gem5's queue, and the notifications that
  SystemC holds.
\<close>

section \<open>State\<close>

text \<open>What serving gem5's events may change: the system, and the ticks of gem5's own events.\<close>

record gem5_side =
  g_sys :: timed
  g_own :: "tick list"

record hosted =
  h_world :: "gem5_side sworld"
  h_enter :: "tick option"
  h_external :: "tick option"
  h_exit :: bool

abbreviation clock :: "hosted \<Rightarrow> tick" where
  "clock h \<equiv> s_now (h_world h)"

text \<open>The events of the queue in no order; the payload events are those the port has scheduled.\<close>

definition ticks :: "gem5_side \<Rightarrow> tick list" where
  "ticks q = map fst (events (g_sys q)) @ g_own q"

definition next_tick :: "gem5_side \<Rightarrow> tick" where
  "next_tick q = (case ticks q of [] \<Rightarrow> 0 | t # ts \<Rightarrow> foldr min ts t)"

text \<open>The system with the clocks as they are: the port reads SystemC's and, when it checks that gem5 has
  caught up, gem5's.\<close>

definition with_clocks :: "tick \<Rightarrow> tick \<Rightarrow> timed \<Rightarrow> timed" where
  "with_clocks gem5_time c z = z\<lparr>t_sys := (t_sys z)\<lparr>y_port := (y_port (t_sys z))\<lparr>w_now := c, w_curTick := gem5_time\<rparr>\<rparr>\<rparr>"

definition read_clocks :: "gem5_side sworld \<Rightarrow> timed" where
  "read_clocks w = with_clocks (s_curTick w) (s_now w) (g_sys (s_queue w))"

section \<open>Notifications\<close>

text \<open>A notification of a SystemC event that already has one: the earlier stays.\<close>

definition earlier :: "tick \<Rightarrow> tick option \<Rightarrow> tick option" where
  "earlier c p = Some (case p of None \<Rightarrow> c | Some d \<Rightarrow> min d c)"

fun post :: "scall list \<Rightarrow> hosted \<Rightarrow> hosted" where
  "post [] h = h"
| "post (Notify_enter d # cs) h = post cs (h\<lparr>h_enter := earlier (clock h + d) (h_enter h)\<rparr>)"
| "post (Notify_external d # cs) h = post cs (h\<lparr>h_external := earlier (clock h + d) (h_external h)\<rparr>)"
| "post (Notify_exit # cs) h = post cs (h\<lparr>h_exit := True\<rparr>)"
| "post (Cancel_enter # cs) h = post cs (h\<lparr>h_enter := None\<rparr>)"
| "post (Cancel_external # cs) h = post cs (h\<lparr>h_external := None\<rparr>)"
| "post (Cancel_exit # cs) h = post cs (h\<lparr>h_exit := False\<rparr>)"
| "post (_ # cs) h = post cs h"

text \<open>\<open>Module\<close> has gone on to the world \<open>w\<close>.\<close>

definition ran :: "hosted \<Rightarrow> gem5_side sworld \<Rightarrow> hosted" where
  "ran h w = post (drop (length (s_log (h_world h))) (s_log w)) (h\<lparr>h_world := w\<rparr>)"

text \<open>The calls of the port that reach gem5's event queue: \<open>PayloadEvent::notify\<close> wakes it up.\<close>

fun woken :: "call list \<Rightarrow> 'q sworld \<Rightarrow> 'q sworld" where
  "woken [] w = w"
| "woken (Wakeup_event_queue t # cs) w = woken cs (SCEventQueue_wakeup t w)"
| "woken (_ # cs) w = woken cs w"

section \<open>Steps\<close>

text \<open>What a router does, while gem5 stands still.\<close>

definition hosted_router :: "(timed \<Rightarrow> timed res) \<Rightarrow> hosted \<Rightarrow> hosted res" where
  "hosted_router f h =
     (let w = h_world h; z = read_clocks w
      in bindr (f z) (\<lambda>z'. Inr (ran h (woken (new_calls (t_sys z) (t_sys z')) (w\<lparr>s_queue := (s_queue w)\<lparr>g_sys := z'\<rparr>\<rparr>)))))"

definition alarms :: "hosted \<Rightarrow> tick set" where
  "alarms h = set_option (h_enter h) \<union> set_option (h_external h)"

text \<open>Nothing on the side of SystemC happens before \<open>c\<close>; gem5's events do not keep time from passing.\<close>

definition systemc_quiet :: "u32 \<Rightarrow> hosted \<Rightarrow> tick \<Rightarrow> bool" where
  "systemc_quiet n h c \<longleftrightarrow> (\<forall>d \<in> alarms h. c \<le> d)
   \<and> (\<forall>k < n. (\<forall>e \<in> set (t_peq (g_sys (s_queue (h_world h))) k). c \<le> fst e)
        \<and> (\<forall>d. t_done (g_sys (s_queue (h_world h))) k = Some d \<longrightarrow> c \<le> d))"

text \<open>The passing of time is the only step that does nothing by itself; all others are \<open>Internal\<close>.\<close>

inductive hosted_step :: "cosim_lib \<Rightarrow> u32 \<Rightarrow> gem5_side module_env \<Rightarrow> move \<Rightarrow> hosted \<Rightarrow> hosted \<Rightarrow> bool" for C n E where
  Enter: "h_enter h = Some (clock h) \<Longrightarrow> eventLoop E rounds (h_world h) = Inr w
     \<Longrightarrow> hosted_step C n E Internal h (ran (h\<lparr>h_enter := None\<rparr>) w)"
| External: "h_external h = Some (clock h) \<Longrightarrow> serviceExternalEvent E rounds (h_world h) = Inr w
     \<Longrightarrow> hosted_step C n E Internal h (ran (h\<lparr>h_external := None\<rparr>) w)"
| Router_peq: "k < n \<Longrightarrow> e \<in> set (t_peq (g_sys (s_queue (h_world h))) k) \<Longrightarrow> fst e = clock h
     \<Longrightarrow> hosted_router (timed_peq C k e) h = Inr h' \<Longrightarrow> hosted_step C n E Internal h h'"
| Router_done: "k < n \<Longrightarrow> t_done (g_sys (s_queue (h_world h))) k = Some (clock h)
     \<Longrightarrow> hosted_router (timed_execute C k) h = Inr h' \<Longrightarrow> hosted_step C n E Internal h h'"
| Time_passes: "clock h \<le> c \<Longrightarrow> systemc_quiet n h c \<Longrightarrow> unat c + 25000 < 2 ^ 64
     \<Longrightarrow> hosted_step C n E External h (h\<lparr>h_world := (h_world h)\<lparr>s_now := c\<rparr>\<rparr>)"

text \<open>The state in which \<open>simulate\<close> waits: it has asked for the loop at once, and gem5 has an event, such
  as the limit of the simulation. A run goes on until the loop announces its exit.\<close>

definition hosted_start :: "slave_transactor_multi \<Rightarrow> u32 \<Rightarrow> hosted \<Rightarrow> bool" where
  "hosted_start tm n h \<longleftrightarrow>
     timed_start tm n (with_clocks (clock h) (clock h) (g_sys (s_queue (h_world h))))
   \<and> in_simulate (s_mod (h_world h)) \<and> \<not> async_event (s_async (h_world h)) \<and> s_curTick (h_world h) \<le> clock h
   \<and> g_own (s_queue (h_world h)) \<noteq> [] \<and> (\<forall>t \<in> set (g_own (s_queue (h_world h))). clock h \<le> t)
   \<and> h_enter h = Some (clock h) \<and> h_external h = None \<and> \<not> h_exit h"

definition hosted_reachable :: "cosim_lib \<Rightarrow> slave_transactor_multi \<Rightarrow> u32 \<Rightarrow> gem5_side module_env \<Rightarrow> hosted \<Rightarrow> bool" where
  "hosted_reachable C tm n E h \<longleftrightarrow>
     (\<exists>h0. hosted_start tm n h0 \<and> (\<lambda>h h'. \<not> h_exit h \<and> (\<exists>mv. hosted_step C n E mv h h'))\<^sup>*\<^sup>* h0 h)"

section \<open>gem5\<close>

text \<open>While an event is served, gem5 may prepare packets, send requests and ask for held responses.\<close>

inductive gem5_move :: "cosim_lib \<Rightarrow> u32 \<Rightarrow> timed \<Rightarrow> timed \<Rightarrow> bool" for C n where
  Packets: "gem5_move C n z (z\<lparr>t_sys := (t_sys z)\<lparr>y_port := (y_port (t_sys z))\<lparr>w_pkt := pk\<rparr>\<rparr>\<rparr>)"
| Request: "request_ok C n packet (t_sys z) \<Longrightarrow> unat (now z) + unat (pkt_payloadDelay (w_pkt (y_port (t_sys z)) packet)) < 2 ^ 64
     \<Longrightarrow> timed_request C packet z = Inr (accepted, z') \<Longrightarrow> gem5_move C n z z'"
| Retry: "timed_resp_retry C rounds z = Inr z' \<Longrightarrow> gem5_move C n z z'"

text \<open>gem5 serves an event that is due: a payload event, which it takes out of the queue and whose handler
  is the port's, or one of its own.\<close>

definition served :: "cosim_lib \<Rightarrow> bool \<Rightarrow> timed \<Rightarrow> tick list \<Rightarrow> timed \<Rightarrow> bool" where
  "served C eager z own z' \<longleftrightarrow>
     (\<exists>j accept. j < length (events z) \<and> fst (events z ! j) = now z \<and> (eager \<longrightarrow> accept) \<and> timed_event C accept j z = Inr z')
   \<or> now z \<in> set own \<and> z' = z"

text \<open>
  What is assumed of gem5. Its queue holds the payload events and its own; it serves an event that is
  due, then does some of the moves; it schedules nothing in the past and has an event of its own until
  it exits; it leaves the clocks and the module alone, and may wake up the queue.
\<close>

definition gem5_serves :: "cosim_lib \<Rightarrow> slave_transactor_multi \<Rightarrow> u32 \<Rightarrow> bool \<Rightarrow> gem5_side module_env \<Rightarrow> bool" where
  "gem5_serves C tm n eager E \<longleftrightarrow>
     (\<forall>q. mo_empty E q \<longleftrightarrow> ticks q = []) \<and> (\<forall>q. mo_nextTick E q = next_tick q)
   \<and> (\<forall>v e v'. due E v \<longrightarrow> timed_reachable C tm n eager (read_clocks v) \<longrightarrow> mo_serviceOne E v = (e, v') \<longrightarrow>
        (\<exists>z. served C eager (read_clocks v) (g_own (s_queue v)) z \<and> (gem5_move C n)\<^sup>*\<^sup>* z (g_sys (s_queue v')))
      \<and> (\<forall>t \<in> set (g_own (s_queue v')). s_now v \<le> t) \<and> (e = None \<longrightarrow> g_own (s_queue v') \<noteq> [])
      \<and> s_mod v' = s_mod v \<and> s_async v' = s_async v \<and> s_now v' = s_now v \<and> s_curTick v' = s_curTick v
      \<and> (\<exists>l. s_log v' = s_log v @ l \<and> set l \<subseteq> {Notify_external 0}))"

text \<open>A bound on the events that gem5 serves before it exits or sleeps.\<close>

definition steady :: "cosim_lib \<Rightarrow> slave_transactor_multi \<Rightarrow> u32 \<Rightarrow> bool \<Rightarrow> gem5_side module_env \<Rightarrow> (gem5_side \<Rightarrow> nat) \<Rightarrow> bool" where
  "steady C tm n eager E m \<longleftrightarrow>
     (\<forall>v v'. due E v \<longrightarrow> timed_reachable C tm n eager (read_clocks v) \<longrightarrow> mo_serviceOne E v = (None, v')
        \<longrightarrow> m (s_queue v') < m (s_queue v))"

end
