(* ===== verification/Module_Host_Invariant.thy ===== *)
theory Module_Host_Invariant
  imports Module_Host
begin

text \<open>
  The invariant of the timed system inside the event loop of \<open>Module\<close>: brought up to date it is a state of
  the timed system, no event lies in the past, and until the exit a notification is pending for the
  first one. The steps of the routers are shown not to depend on gem5's clock, one event served and
  then the whole loop to keep what they rely on.
\<close>

section \<open>The clocks of the port\<close>

text \<open>The system as it is when gem5 has caught up.\<close>

abbreviation caught_up :: "gem5_side sworld \<Rightarrow> timed" where
  "caught_up w \<equiv> with_clocks (s_now w) (s_now w) (g_sys (s_queue w))"

lemma with_clocks_frame [simp]:
  "events (with_clocks a c z) = events z" "now (with_clocks a c z) = c" "w_curTick (y_port (t_sys (with_clocks a c z))) = a"
  "t_peq (with_clocks a c z) = t_peq z" "t_done (with_clocks a c z) = t_done z" "t_sent (with_clocks a c z) = t_sent z"
  "y_router (t_sys (with_clocks a c z)) = y_router (t_sys z)" "y_peq (t_sys (with_clocks a c z)) = y_peq (t_sys z)"
  "with_clocks b d (with_clocks a c z) = with_clocks b d z" "gp (y_port (t_sys (with_clocks a c z))) = gp (y_port (t_sys z))"
  "w_log (y_port (t_sys (with_clocks a c z))) = w_log (y_port (t_sys z))" "timed_advance c = with_clocks c c"
  by (simp_all add: with_clocks_def gp_def timed_advance_def fun_eq_iff)

lemma with_own_clocks: "w_curTick (y_port (t_sys z)) = a \<Longrightarrow> now z = c \<Longrightarrow> with_clocks a c z = z"
  by (simp add: with_clocks_def)

text \<open>A router does not see gem5's clock, and the port's side of what it calls does not read it.\<close>

lemma to_port_clock: "to_port cs (w\<lparr>w_curTick := a\<rparr>) = (to_port cs w)\<lparr>w_curTick := a\<rparr>"
proof (induction cs w rule: to_port.induct)
  case (2 t ph d cs w)
  have "snd (nb_transport_bw t ph d (w\<lparr>w_curTick := a\<rparr>)) = (snd (nb_transport_bw t ph d w))\<lparr>w_curTick := a\<rparr>"
    by (simp add: nb_transport_bw_def PayloadEvent_notify_def note_call_def Let_def)
  with 2 show ?case by simp
qed simp_all

lemma to_port_wakes:
  "\<exists>es cs'. w_events (to_port cs w) = w_events w @ es \<and> w_log (to_port cs w) = w_log w @ cs'
     \<and> (es \<noteq> [] \<longrightarrow> (\<exists>c. Wakeup_event_queue c \<in> set cs')) \<and> w_now (to_port cs w) = w_now w \<and> w_curTick (to_port cs w) = w_curTick w"
proof (induction cs w rule: to_port.induct)
  case (2 t ph d cs w)
  then show ?case by (fastforce simp: nb_transport_bw_def PayloadEvent_notify_def note_call_def Let_def)
qed auto

lemma set_heap_clocks:
  "set_heap g (w\<lparr>w_now := c, w_curTick := a\<rparr>) = (set_heap g w)\<lparr>w_now := c, w_curTick := a\<rparr>"
  "w_events (set_heap g w) = w_events w" "w_log (set_heap g w) = w_log w" "w_now (set_heap g w) = w_now w" "w_curTick (set_heap g w) = w_curTick w"
  by (simp_all add: set_heap_def)

lemma router_world_clock: "router_world k g (t_sys (with_clocks a c z)) = router_world k g (t_sys z)"
  by (simp add: router_world_def)

lemma timed_router_clock: "timed_router k v (with_clocks a c z) = with_clocks a c (timed_router k v (with_clocks c c z))"
proof -
  have "to_port cs (set_heap g (w\<lparr>w_now := c, w_curTick := a\<rparr>))
      = (to_port cs (set_heap g (w\<lparr>w_now := c, w_curTick := c\<rparr>)))\<lparr>w_now := c, w_curTick := a\<rparr>" for cs g w
    using to_port_clock [where cs = cs and w = "set_heap g (w\<lparr>w_now := c, w_curTick := c\<rparr>)" and a = a]
      to_port_wakes [of cs "set_heap g (w\<lparr>w_now := c, w_curTick := a\<rparr>)"] by (auto simp: set_heap_clocks)
  then show ?thesis by (simp add: timed_router_def router_done_def with_clocks_def Let_def)
qed

text \<open>The steps of a router: the same for every clock of gem5, and they wake gem5 up for what they schedule.\<close>

definition lags :: "(timed \<Rightarrow> timed res) \<Rightarrow> bool" where
  "lags f \<longleftrightarrow> (\<forall>a c z. f (with_clocks a c z) = bindr (f (with_clocks c c z)) (\<lambda>z'. Inr (with_clocks a c z')))
   \<and> (\<forall>z z'. f z = Inr z' \<longrightarrow> now z' = now z \<and> w_curTick (y_port (t_sys z')) = w_curTick (y_port (t_sys z))
        \<and> (\<exists>es cs. events z' = events z @ es \<and> w_log (y_port (t_sys z')) = w_log (y_port (t_sys z)) @ cs
             \<and> (es \<noteq> [] \<longrightarrow> (\<exists>c. Wakeup_event_queue c \<in> set cs))))"

lemma lagsD:
  assumes "lags f"
  shows "f (with_clocks a c z) = bindr (f (with_clocks c c z)) (\<lambda>z'. Inr (with_clocks a c z'))"
    "f z = Inr z' \<Longrightarrow> now z' = now z \<and> w_curTick (y_port (t_sys z')) = w_curTick (y_port (t_sys z))
       \<and> (\<exists>es cs. events z' = events z @ es \<and> w_log (y_port (t_sys z')) = w_log (y_port (t_sys z)) @ cs
            \<and> (es \<noteq> [] \<longrightarrow> (\<exists>c. Wakeup_event_queue c \<in> set cs)))"
  using assms unfolding lags_def by blast+

lemma timed_router_wakes:
  "now (timed_router k v z) = now z \<and> w_curTick (y_port (t_sys (timed_router k v z))) = w_curTick (y_port (t_sys z))
   \<and> (\<exists>es cs. events (timed_router k v z) = events z @ es \<and> w_log (y_port (t_sys (timed_router k v z))) = w_log (y_port (t_sys z)) @ cs
        \<and> (es \<noteq> [] \<longrightarrow> (\<exists>c. Wakeup_event_queue c \<in> set cs)))"
  using to_port_wakes [of "r_log v" "set_heap (r_gp v) (y_port (t_sys z))"]
  by (simp add: timed_router_def router_done_def set_heap_clocks) blast

lemma lags_router:
  assumes f: "\<And>z. f z = bindr (g z) (\<lambda>v. Inr (timed_router k v (p z)))"
    and g: "\<And>a c z. g (with_clocks a c z) = g z" and p: "\<And>a c z. p (with_clocks a c z) = with_clocks a c (p z)"
    and port: "\<And>z. y_port (t_sys (p z)) = y_port (t_sys z)"
  shows "lags f"
proof -
  have "f (with_clocks a c z) = bindr (f (with_clocks c c z)) (\<lambda>z'. Inr (with_clocks a c z'))" for a c z
    unfolding f g p bindr_def by (subst timed_router_clock) (simp split: sum.splits)
  moreover have "now z' = now z \<and> w_curTick (y_port (t_sys z')) = w_curTick (y_port (t_sys z))
      \<and> (\<exists>es cs. events z' = events z @ es \<and> w_log (y_port (t_sys z')) = w_log (y_port (t_sys z)) @ cs
           \<and> (es \<noteq> [] \<longrightarrow> (\<exists>c. Wakeup_event_queue c \<in> set cs)))" if "f z = Inr z'" for z z'
  proof -
    from that have "bindr (g z) (\<lambda>v. Inr (timed_router k v (p z))) = Inr z'" by (simp only: f)
    then obtain v where "z' = timed_router k v (p z)" by (auto simp: bindr_eq_Inr)
    then show ?thesis using timed_router_wakes [of k v "p z"] unfolding port by simp
  qed
  ultimately show ?thesis unfolding lags_def by blast
qed

lemma timed_peq_lags: "lags (timed_peq C k e)"
  by (rule lags_router [where k = k and g = "\<lambda>z. r_peq_cb (target_env C) (fst (snd e)) (snd (snd e)) (router_world k (gp (y_port (t_sys z))) (t_sys z))"
      and p = "\<lambda>z. z\<lparr>t_sys := (t_sys z)\<lparr>y_peq := (y_peq (t_sys z))(k := remove1 (snd e) (y_peq (t_sys z) k))\<rparr>,
        t_peq := (t_peq z)(k := remove1 e (t_peq z k))\<rparr>"])
    (simp_all add: timed_peq_def Let_def router_world_clock, simp_all add: with_clocks_def)

lemma timed_execute_lags: "lags (timed_execute C k)"
  by (rule lags_router [where k = k and g = "\<lambda>z. execute_transaction_process (target_env C) (router_world k (gp (y_port (t_sys z))) (t_sys z))"
      and p = "\<lambda>z. z\<lparr>t_done := (t_done z)(k := None)\<rparr>"])
    (simp_all add: timed_execute_def Let_def router_world_clock, simp_all add: with_clocks_def)

section \<open>What gem5 does\<close>

lemma reachable_caught_up:
  assumes "timed_reachable C tm n eager z" "tlm_lib_ok (cl_tlm C)" "memory_ok (cl_memory C)"
  shows "w_curTick (y_port (t_sys z)) = now z" "e \<in> set (events z) \<Longrightarrow> now z \<le> fst e"
proof -
  obtain H where H: "cosim_inv tm n H (t_sys z)" "timed_ok n z" by (rule timed_reachable_ok [OF assms])
  show "w_curTick (y_port (t_sys z)) = now z" by (rule cosim_invD(3) [OF H(1) refl])
  show "e \<in> set (events z) \<Longrightarrow> now z \<le> fst e" by (rule timed_okD(2) [OF H(2)])
qed

lemma gem5_move_step: "gem5_move C n z z' \<Longrightarrow> timed_step C n eager External z z'"
  by (induction rule: gem5_move.induct) (auto intro: timed_step.intros)

lemma gem5_move_now:
  assumes "timed_reachable C tm n eager z" and lib: "tlm_lib_ok (cl_tlm C)" "memory_ok (cl_memory C)"
    and "gem5_move C n z z'"
  shows "now z' = now z"
proof -
  obtain H where H: "cosim_inv tm n H (t_sys z)" by (rule timed_reachable_ok [OF assms(1-3)])
  from assms(4) show ?thesis
  proof cases
    case (Request packet accepted)
    show ?thesis by (rule timed_request_cases [OF H lib(1) Request(1,3)]) (simp_all add: port_effect_def)
  next
    case (Retry rounds)
    show ?thesis by (rule timed_resp_retry_effect [OF H lib(1) Retry]) (simp add: port_effect_def)
  qed simp
qed

lemma gem5_turn:
  assumes reach: "timed_reachable C tm n eager z" and lib: "tlm_lib_ok (cl_tlm C)" "memory_ok (cl_memory C)"
    and "served C eager z own z1" and moves: "(gem5_move C n)\<^sup>*\<^sup>* z1 z'"
  shows "timed_reachable C tm n eager z' \<and> now z' = now z"
proof -
  obtain H where H: "cosim_inv tm n H (t_sys z)" "timed_ok n z" by (rule timed_reachable_ok [OF assms(1-3)])
  have first: "timed_reachable C tm n eager z1 \<and> now z1 = now z"
    using assms(4) unfolding served_def
  proof (elim disjE exE conjE)
    fix j accept
    assume e: "j < length (events z)" "fst (events z ! j) = now z" "eager \<longrightarrow> accept" "timed_event C accept j z = Inr z1"
    have "timed_reachable C tm n eager z1"
      by (rule timed_reachable_step [OF reach timed_step.Event_due [OF e]])
    moreover have "now z1 = now z"
      by (rule timed_event_cases [OF H(1) lib(1) due_next_event [OF H(1,2) e(1)] e(4)]) (simp_all add: port_effect_def)
    ultimately show ?thesis by simp
  qed (use reach in simp)
  from moves show ?thesis
  proof (induction rule: rtranclp_induct)
    case base
    show ?case by (rule first)
  next
    case (step y z')
    then show ?case
      using timed_reachable_step gem5_move_step [OF step(2)] gem5_move_now [OF _ lib step(2)] by metis
  qed
qed

lemma next_tick:
  assumes "ticks q \<noteq> []"
  shows "next_tick q \<in> set (ticks q)" "t \<in> set (ticks q) \<Longrightarrow> next_tick q \<le> t"
proof -
  obtain x xs where q: "ticks q = x # xs" using assms by (cases "ticks q") auto
  have "foldr min xs x \<in> set (x # xs)" and "\<forall>t \<in> set (x # xs). foldr min xs x \<le> t"
    by (induction xs) (auto simp: min_def)
  then show "next_tick q \<in> set (ticks q)" "t \<in> set (ticks q) \<Longrightarrow> next_tick q \<le> t"
    unfolding next_tick_def q list.case by blast+
qed

section \<open>The event loop\<close>

text \<open>What holds whenever the module may run: no event is in gem5's past, nor in SystemC's.\<close>

definition hosting_ok :: "cosim_lib \<Rightarrow> slave_transactor_multi \<Rightarrow> u32 \<Rightarrow> bool \<Rightarrow> gem5_side sworld \<Rightarrow> bool" where
  "hosting_ok C tm n eager w \<longleftrightarrow> timed_reachable C tm n eager (caught_up w)
   \<and> in_simulate (s_mod w) \<and> \<not> async_event (s_async w) \<and> s_curTick w \<le> s_now w \<and> g_own (s_queue w) \<noteq> []
   \<and> (\<forall>t \<in> set (ticks (s_queue w)). s_now w \<le> t)"

lemma hosting_okD:
  assumes "hosting_ok C tm n eager w"
  shows "timed_reachable C tm n eager (caught_up w)" "in_simulate (s_mod w)" "\<not> async_event (s_async w)" "s_curTick w \<le> s_now w"
    "g_own (s_queue w) \<noteq> []" "ticks (s_queue w) \<noteq> []" "t \<in> set (ticks (s_queue w)) \<Longrightarrow> s_now w \<le> t"
  using assms by (auto simp: hosting_ok_def ticks_def)

text \<open>How the loop ends: with the exit, or asking for the time of the next event.\<close>

definition loop_outcome :: "cosim_lib \<Rightarrow> slave_transactor_multi \<Rightarrow> u32 \<Rightarrow> bool \<Rightarrow> gem5_side sworld \<Rightarrow> gem5_side sworld \<Rightarrow> bool" where
  "loop_outcome C tm n eager w w' \<longleftrightarrow> s_now w' = s_now w \<and> timed_reachable C tm n eager (caught_up w')
   \<and> (\<exists>l c. s_log w' = s_log w @ l @ [c] \<and> set l \<subseteq> {Notify_external 0}
        \<and> (c = Notify_exit \<or> c = Notify_enter (next_tick (s_queue w') - s_now w') \<and> hosting_ok C tm n eager w'))"

lemma gem5_servesD:
  assumes "gem5_serves C tm n eager E"
  shows "mo_empty E q \<longleftrightarrow> ticks q = []" "mo_nextTick E q = next_tick q"
    "due E v \<Longrightarrow> timed_reachable C tm n eager (read_clocks v) \<Longrightarrow> mo_serviceOne E v = (e, v') \<Longrightarrow>
       (\<exists>z. served C eager (read_clocks v) (g_own (s_queue v)) z \<and> (gem5_move C n)\<^sup>*\<^sup>* z (g_sys (s_queue v')))
     \<and> (\<forall>t \<in> set (g_own (s_queue v')). s_now v \<le> t) \<and> (e = None \<longrightarrow> g_own (s_queue v') \<noteq> [])
     \<and> s_mod v' = s_mod v \<and> s_async v' = s_async v \<and> s_now v' = s_now v \<and> s_curTick v' = s_curTick v
     \<and> (\<exists>l. s_log v' = s_log v @ l \<and> set l \<subseteq> {Notify_external 0})"
  using assms unfolding gem5_serves_def by blast+

text \<open>Serving one event keeps what the loop needs.\<close>

lemma serve_ok:
  assumes gem5: "gem5_serves C tm n eager E" and lib: "tlm_lib_ok (cl_tlm C)" "memory_ok (cl_memory C)"
    and ok: "hosting_ok C tm n eager w" and next_now: "next_tick (s_queue w) = s_now w"
    and serve: "mo_serviceOne E (loop_world w) = (e, w1)"
  obtains l where "s_log w1 = s_log w @ l" "set l \<subseteq> {Notify_external 0}" "s_now w1 = s_now w"
    "timed_reachable C tm n eager (caught_up w1)" "e = None \<Longrightarrow> hosting_ok C tm n eager w1"
    "\<And>m. steady C tm n eager E m \<Longrightarrow> e = None \<Longrightarrow> m (s_queue w1) < m (s_queue w)"
proof -
  note D = hosting_okD [OF ok]
  have clocks: "read_clocks (loop_world w) = caught_up w" by (simp add: read_clocks_def frame_simps)
  have mode: "in_simulate (s_mod (loop_world w)) = in_simulate (s_mod w)" "s_async (loop_world w) = s_async w"
    by (simp_all add: loop_world_def Let_def frame_simps)
  have due: "due E (loop_world w)" using next_now D(6) gem5_servesD(1,2) [OF gem5] by (simp add: due_def frame_simps)
  have decr: "m (s_queue w1) < m (s_queue w)" if "steady C tm n eager E m" "e = None" for m
    using that due D(1) serve clocks loop_world_frame(1) unfolding steady_def by metis
  from gem5_servesD(3) [OF gem5 due _ serve] D(1) obtain z l where s:
      "served C eager (caught_up w) (g_own (s_queue w)) z" "(gem5_move C n)\<^sup>*\<^sup>* z (g_sys (s_queue w1))"
      "\<forall>t \<in> set (g_own (s_queue w1)). s_now w \<le> t" "e = None \<longrightarrow> g_own (s_queue w1) \<noteq> []"
      "s_mod w1 = s_mod (loop_world w)" "s_async w1 = s_async w" "s_now w1 = s_now w" "s_curTick w1 = s_now w"
      "s_log w1 = s_log w @ l" "set l \<subseteq> {Notify_external 0}"
    unfolding clocks by (auto simp: frame_simps mode)
  have turn: "timed_reachable C tm n eager (g_sys (s_queue w1))" "now (g_sys (s_queue w1)) = s_now w"
    using gem5_turn [OF D(1) lib s(1,2)] by simp_all
  have cur: "w_curTick (y_port (t_sys (g_sys (s_queue w1)))) = s_now w"
    using reachable_caught_up(1) [OF turn(1) lib] turn(2) by simp
  have up: "caught_up w1 = g_sys (s_queue w1)" using with_own_clocks cur turn(2) s(7) by metis
  have "\<forall>t \<in> set (ticks (s_queue w1)). s_now w1 \<le> t"
    using s(3,7) reachable_caught_up(2) [OF turn(1) lib] turn(2) by (auto simp: ticks_def)
  then have "hosting_ok C tm n eager w1" if "e = None"
    using that s turn(1) D(2,3) mode unfolding hosting_ok_def up by simp
  with s turn(1) up decr show thesis by (intro that) simp_all
qed

lemma event_loop_hosted:
  assumes gem5: "gem5_serves C tm n eager E" and lib: "tlm_lib_ok (cl_tlm C)" "memory_ok (cl_memory C)"
    and "hosting_ok C tm n eager w"
  shows "event_loop E rounds w = Inl No_return \<and> (\<forall>m. steady C tm n eager E m \<longrightarrow> rounds \<le> m (s_queue w))
    \<or> (\<exists>w'. event_loop E rounds w = Inr w' \<and> loop_outcome C tm n eager w w')"
  using assms(4)
proof (induction rounds arbitrary: w)
  case 0
  then show ?case using hosting_okD(6) [OF 0] gem5_servesD(1) [OF gem5] by simp
next
  case (Suc r)
  note D = hosting_okD [OF Suc.prems] and q = gem5_servesD(1,2) [OF gem5]
  have le: "s_now w \<le> next_tick (s_queue w)" using D(7) next_tick(1) [OF D(6)] by blast
  show ?case
  proof (cases "s_now w < next_tick (s_queue w)")
    case True
    let ?w = "go_to_sleep (next_tick (s_queue w)) (loop_world w)"
    have "event_loop E (Suc r) w = Inr ?w"
      unfolding event_loop_round using True D(4,6) le q by (auto simp del: event_loop.simps)
    moreover have "loop_outcome C tm n eager w ?w"
      using D(1-5,7) by (auto simp: loop_outcome_def hosting_ok_def go_to_sleep_def loop_world_def Let_def frame_simps)
    ultimately show ?thesis by blast
  next
    case False
    with le have now: "next_tick (s_queue w) = s_now w" by simp
    obtain e w1 where s: "mo_serviceOne E (loop_world w) = (e, w1)" by (cases "mo_serviceOne E (loop_world w)")
    obtain l where l: "s_log w1 = s_log w @ l" "set l \<subseteq> {Notify_external 0}" "s_now w1 = s_now w"
        "timed_reachable C tm n eager (caught_up w1)" "e = None \<Longrightarrow> hosting_ok C tm n eager w1"
      and decr: "\<And>m. steady C tm n eager E m \<Longrightarrow> e = None \<Longrightarrow> m (s_queue w1) < m (s_queue w)"
      by (rule serve_ok [OF gem5 lib Suc.prems now s]) blast
    let ?w = "s_upd (\<lambda>m. m\<lparr>exitEvent := e\<rparr>) w1"
    have round: "event_loop E (Suc r) w = (if e \<noteq> None then Inr (s_note Notify_exit ?w) else event_loop E r ?w)"
      unfolding event_loop_round using D(4,6) q now s by (auto simp del: event_loop.simps)
    show ?thesis
    proof (cases "e = None")
      case False
      then have "loop_outcome C tm n eager w (s_note Notify_exit ?w)" using l(1-4) by (simp add: loop_outcome_def frame_simps)
      with round False show ?thesis by auto
    next
      case True
      have "hosting_ok C tm n eager ?w" using l(5) [OF True] by (simp add: hosting_ok_def frame_simps)
      from Suc.IH [OF this] round True show ?thesis
      proof (elim disjE exE conjE)
        fix w'
        assume w': "event_loop E r ?w = Inr w'" "loop_outcome C tm n eager ?w w'"
        then obtain l' c where "s_log w' = s_log w @ (l @ l') @ [c]" "set (l @ l') \<subseteq> {Notify_external 0}"
            "c = Notify_exit \<or> c = Notify_enter (next_tick (s_queue w') - s_now w') \<and> hosting_ok C tm n eager w'"
          using l(1,2) by (auto simp: loop_outcome_def frame_simps)
        moreover have "s_now w' = s_now w" "timed_reachable C tm n eager (caught_up w')"
          using w'(2) l(3) by (auto simp: loop_outcome_def frame_simps)
        ultimately have "loop_outcome C tm n eager w w'" unfolding loop_outcome_def by blast
        then show ?thesis using w'(1) round True by auto
      next
        assume "event_loop E r ?w = Inl No_return" and m: "\<forall>m. steady C tm n eager E m \<longrightarrow> r \<le> m (s_queue ?w)"
        moreover have "Suc r \<le> m (s_queue w)" if "steady C tm n eager E m" for m
          using m that decr [OF that True] by (fastforce simp: frame_simps)
        ultimately show ?thesis using round True by simp
      qed
    qed
  qed
qed

section \<open>Pending notifications\<close>

lemma post_append: "post (cs @ ds) h = post ds (post cs h)"
  by (induction cs h rule: post.induct) simp_all

lemma earlier_twice [simp]: "earlier c (earlier c p) = earlier c p"
  by (simp add: earlier_def split: option.splits)

lemma earlier_ge: "c \<le> e \<Longrightarrow> \<forall>d \<in> set_option p. c \<le> d \<Longrightarrow> \<forall>d \<in> set_option (earlier e p). c \<le> d"
  by (auto simp: earlier_def split: option.splits)

lemma alarms_parts:
  "\<forall>d \<in> alarms h. c \<le> d \<Longrightarrow> \<forall>d \<in> set_option (h_enter h). c \<le> d"
  "\<forall>d \<in> alarms h. c \<le> d \<Longrightarrow> \<forall>d \<in> set_option (h_external h). c \<le> d"
  by (simp_all add: alarms_def)

lemma earlier_le: "\<exists>x \<in> set_option (earlier c p). x \<le> c \<and> (\<forall>d \<in> set_option p. x \<le> d)"
  by (auto simp: earlier_def split: option.splits)

lemma post_wakes:
  "set l \<subseteq> {Notify_external 0} \<Longrightarrow>
   post l h = h\<lparr>h_external := if l = [] then h_external h else earlier (clock h) (h_external h)\<rparr>"
proof (induction l arbitrary: h)
  case (Cons c l)
  then show ?case by (cases l) auto
qed simp

lemma woken_effect:
  "\<exists>l. woken cs w = w\<lparr>s_log := s_log w @ l\<rparr> \<and> set l \<subseteq> {Notify_external 0}
     \<and> ((\<exists>c. Wakeup_event_queue c \<in> set cs) \<longrightarrow> l \<noteq> [])"
proof (induction cs w rule: woken.induct)
  case (1 w)
  show ?case by (rule exI [of _ "[]"]) simp
next
  case (2 t cs w)
  then obtain l where "woken (Wakeup_event_queue t # cs) w = w\<lparr>s_log := s_log w @ Notify_external 0 # l\<rparr>"
      "set l \<subseteq> {Notify_external 0}"
    by (auto simp: SCEventQueue_wakeup_def s_notify_def s_note_def)
  then show ?case by (intro exI [of _ "Notify_external 0 # l"]) simp
qed auto

text \<open>The invariant: a notification is pending, no later than the first event.\<close>

definition hosted_ok :: "cosim_lib \<Rightarrow> slave_transactor_multi \<Rightarrow> u32 \<Rightarrow> bool \<Rightarrow> hosted \<Rightarrow> bool" where
  "hosted_ok C tm n eager h \<longleftrightarrow> timed_reachable C tm n eager (caught_up (h_world h))
   \<and> (\<not> h_exit h \<longrightarrow> hosting_ok C tm n eager (h_world h) \<and> (\<forall>d \<in> alarms h. clock h \<le> d)
        \<and> (\<exists>d \<in> alarms h. \<forall>t \<in> set (ticks (s_queue (h_world h))). d \<le> t))"

lemma hosted_start_ok: "hosted_start tm n h \<Longrightarrow> hosted_ok C tm n eager h"
  by (auto simp: hosted_start_def hosted_ok_def hosting_ok_def alarms_def ticks_def timed_reachable_def timed_start_def cosim_start_def)

lemma ran_ok:
  assumes "loop_outcome C tm n eager (h_world h) w" and "h_world h' = h_world h" and alarms: "\<forall>d \<in> alarms h'. clock h \<le> d"
  shows "hosted_ok C tm n eager (ran h' w)"
proof -
  from assms(1) obtain l c where w: "s_now w = clock h" "timed_reachable C tm n eager (caught_up w)"
      "s_log w = s_log (h_world h) @ l @ [c]" "set l \<subseteq> {Notify_external 0}"
    and c: "c = Notify_exit \<or> c = Notify_enter (next_tick (s_queue w) - s_now w) \<and> hosting_ok C tm n eager w"
    by (auto simp: loop_outcome_def)
  define h1 where "h1 = h'\<lparr>h_world := w, h_external := if l = [] then h_external h' else earlier (clock h) (h_external h')\<rparr>"
  have ran: "ran h' w = post [c] h1" using w by (simp add: ran_def assms(2) post_append post_wakes h1_def)
  from c show ?thesis
  proof (elim disjE conjE)
    assume "c = Notify_exit"
    then show ?thesis using w(2) ran by (simp add: hosted_ok_def h1_def)
  next
    assume c: "c = Notify_enter (next_tick (s_queue w) - s_now w)" and ok: "hosting_ok C tm n eager w"
    have r: "ran h' w = h1\<lparr>h_enter := earlier (next_tick (s_queue w)) (h_enter h')\<rparr>" using ran c by (simp add: h1_def)
    have le: "clock h \<le> next_tick (s_queue w)" using next_tick(1) hosting_okD(6,7) [OF ok] w(1) by metis
    note parts = alarms_parts [OF alarms]
    have "\<forall>d \<in> alarms (ran h' w). clock h \<le> d"
      using earlier_ge [OF le parts(1)] earlier_ge [OF order_refl parts(2)] parts(2)
      unfolding r h1_def alarms_def ball_Un by simp
    moreover have "\<exists>d \<in> alarms (ran h' w). \<forall>t \<in> set (ticks (s_queue w)). d \<le> t"
    proof -
      obtain d where "d \<in> set_option (earlier (next_tick (s_queue w)) (h_enter h'))" "d \<le> next_tick (s_queue w)"
        using earlier_le by blast
      then show ?thesis
        using next_tick(2) [OF hosting_okD(6) [OF ok]] by (intro bexI [of _ d]) (auto simp: r alarms_def intro: order_trans)
    qed
    ultimately show ?thesis using ok w(1,2) by (simp add: hosted_ok_def r h1_def)
  qed
qed

lemma router_ok:
  assumes lib: "tlm_lib_ok (cl_tlm C)" "memory_ok (cl_memory C)" and ok: "hosted_ok C tm n eager h" and run: "\<not> h_exit h"
    and f: "lags f" and step: "\<And>z'. f (caught_up (h_world h)) = Inr z' \<Longrightarrow> \<exists>mv. timed_step C n eager mv (caught_up (h_world h)) z'"
    and router: "hosted_router f h = Inr h'"
  shows "hosted_ok C tm n eager h'"
proof -
  let ?w = "h_world h" and ?z = "g_sys (s_queue (h_world h))"
  have host: "hosting_ok C tm n eager ?w" and alarms: "\<forall>d \<in> alarms h. clock h \<le> d"
      "\<exists>d \<in> alarms h. \<forall>t \<in> set (ticks (s_queue ?w)). d \<le> t"
    using ok run by (simp_all add: hosted_ok_def)
  note D = hosting_okD [OF host]
  obtain z' where z': "f (read_clocks ?w) = Inr z'"
      "h' = ran h (woken (new_calls (t_sys (read_clocks ?w)) (t_sys z')) (?w\<lparr>s_queue := (s_queue ?w)\<lparr>g_sys := z'\<rparr>\<rparr>))"
    using router by (auto simp: hosted_router_def Let_def res_simps)
  obtain z2 where z2: "f (caught_up ?w) = Inr z2" "z' = with_clocks (s_curTick ?w) (clock h) z2"
    using lagsD(1) [OF f, of "s_curTick ?w" "clock h" ?z] z'(1) by (auto simp: read_clocks_def bindr_eq_Inr)
  obtain es cs where e: "events z2 = events ?z @ es" "w_log (y_port (t_sys z2)) = w_log (y_port (t_sys ?z)) @ cs"
      "es \<noteq> [] \<longrightarrow> (\<exists>c. Wakeup_event_queue c \<in> set cs)" "now z2 = clock h" "w_curTick (y_port (t_sys z2)) = clock h"
    using lagsD(2) [OF f z2(1)] by auto
  have reach: "timed_reachable C tm n eager z2" using step [OF z2(1)] timed_reachable_step [OF D(1)] by blast
  have up: "with_clocks (clock h) (clock h) z' = z2" using with_own_clocks e(4,5) z2(2) by simp
  obtain l where l: "woken cs (?w\<lparr>s_queue := (s_queue ?w)\<lparr>g_sys := z'\<rparr>\<rparr>)
        = ?w\<lparr>s_queue := (s_queue ?w)\<lparr>g_sys := z'\<rparr>, s_log := s_log ?w @ l\<rparr>"
      "set l \<subseteq> {Notify_external 0}" "es \<noteq> [] \<longrightarrow> l \<noteq> []"
    using woken_effect [of cs "?w\<lparr>s_queue := (s_queue ?w)\<lparr>g_sys := z'\<rparr>\<rparr>"] e(3) by auto
  have h': "h' = h\<lparr>h_world := ?w\<lparr>s_queue := (s_queue ?w)\<lparr>g_sys := z'\<rparr>, s_log := s_log ?w @ l\<rparr>,
      h_external := if l = [] then h_external h else earlier (clock h) (h_external h)\<rparr>"
    using z'(2) l(1,2) e(2) z2(2) by (simp add: ran_def post_wakes new_calls_def read_clocks_def)
  have ticks: "set (ticks (s_queue (h_world h'))) = set (ticks (s_queue ?w)) \<union> fst ` set es"
    using e(1) z2(2) by (auto simp: h' ticks_def)
  have "clock h \<le> t" if "t \<in> fst ` set es" for t
    using that reachable_caught_up(2) [OF reach lib] e(1,4) by auto
  then have new: "\<forall>t \<in> set (ticks (s_queue (h_world h'))). clock h \<le> t" using D(7) ticks by auto
  have host': "hosting_ok C tm n eager (h_world h')" using D(2-5) reach new by (simp add: hosting_ok_def h' up)
  note parts = alarms_parts [OF alarms(1)]
  have "\<forall>d \<in> alarms h'. clock h' \<le> d"
    using parts earlier_ge [OF order_refl parts(2)] unfolding h' alarms_def ball_Un by simp
  moreover have "\<exists>d \<in> alarms h'. \<forall>t \<in> set (ticks (s_queue (h_world h'))). d \<le> t"
  proof (cases "l = []")
    case True
    then show ?thesis using alarms(2) l(3) ticks by (auto simp: h' alarms_def)
  next
    case False
    obtain d where "d \<in> set_option (earlier (clock h) (h_external h))" "d \<le> clock h" using earlier_le by blast
    then show ?thesis using new False by (intro bexI [of _ d]) (auto simp: h' alarms_def)
  qed
  ultimately show ?thesis using host' reach by (simp add: hosted_ok_def h' up)
qed

lemma time_passes_ok:
  assumes ok: "hosted_ok C tm n eager h" and run: "\<not> h_exit h"
    and c: "clock h \<le> c" "systemc_quiet n h c" "unat c + 25000 < 2 ^ 64"
  shows "hosted_ok C tm n eager (h\<lparr>h_world := (h_world h)\<lparr>s_now := c\<rparr>\<rparr>)"
proof -
  let ?w = "h_world h"
  have host: "hosting_ok C tm n eager ?w" and alarms: "\<exists>d \<in> alarms h. \<forall>t \<in> set (ticks (s_queue ?w)). d \<le> t"
    using ok run by (simp_all add: hosted_ok_def)
  note D = hosting_okD [OF host]
  have ticks: "\<forall>t \<in> set (ticks (s_queue ?w)). c \<le> t" using alarms c(2) by (fastforce simp: systemc_quiet_def)
  have "quiet_until n (caught_up ?w) c" using ticks c(2) by (auto simp: quiet_until_def systemc_quiet_def ticks_def)
  then have "timed_step C n eager External (caught_up ?w) (with_clocks c c (g_sys (s_queue ?w)))"
    using timed_step.Advance [of "caught_up ?w" c n C eager] c(1,3) by simp
  then have "timed_reachable C tm n eager (caught_up (?w\<lparr>s_now := c\<rparr>))"
    using timed_reachable_step [OF D(1)] by simp
  moreover have "s_curTick ?w \<le> c" using D(4) c(1) by simp
  ultimately show ?thesis
    using D(2,3,5) ticks alarms c(2) by (auto simp: hosted_ok_def hosting_ok_def alarms_def systemc_quiet_def)
qed

text \<open>Both methods of the module come down to the loop.\<close>

lemma methods_loop:
  assumes "gem5_serves C tm n eager E" and "hosting_ok C tm n eager w"
  shows "eventLoop E r w = event_loop E r w" "serviceExternalEvent E r w = event_loop E r w"
  using hosting_okD(2,3,6) [OF assms(2)] gem5_servesD(1) [OF assms(1)]
  by (simp_all add: eventLoop_def serviceExternalEvent_def Let_def bindr_def del: event_loop.simps)

lemma hosted_step_ok:
  assumes gem5: "gem5_serves C tm n eager E" and lib: "tlm_lib_ok (cl_tlm C)" "memory_ok (cl_memory C)"
    and ok: "hosted_ok C tm n eager h" and run: "\<not> h_exit h" and "hosted_step C n E mv h h'"
  shows "hosted_ok C tm n eager h'"
proof -
  have host: "hosting_ok C tm n eager (h_world h)" and alarms: "\<forall>d \<in> alarms h. clock h \<le> d"
    using ok run by (simp_all add: hosted_ok_def)
  note loop = methods_loop [OF gem5 host]
  have outcome: "loop_outcome C tm n eager (h_world h) w" if "event_loop E r (h_world h) = Inr w" for r w
    using event_loop_hosted [OF gem5 lib host, of r] that by (auto simp del: event_loop.simps)
  from assms(6) show ?thesis
  proof cases
    case (Enter rounds w)
    then show ?thesis
      using alarms loop(1) by (auto simp: alarms_def simp del: event_loop.simps intro!: ran_ok [OF outcome])
  next
    case (External rounds w)
    then show ?thesis
      using alarms loop(2) by (auto simp: alarms_def simp del: event_loop.simps intro!: ran_ok [OF outcome])
  next
    case (Router_peq k e)
    show ?thesis
      by (rule router_ok [OF lib ok run timed_peq_lags _ Router_peq(5)])
        (use Router_peq(2-4) in \<open>auto intro!: exI timed_step.Peq_due\<close>)
  next
    case (Router_done k)
    show ?thesis
      by (rule router_ok [OF lib ok run timed_execute_lags _ Router_done(4)])
        (use Router_done(2,3) in \<open>auto intro!: exI timed_step.Done_due\<close>)
  next
    case (Time_passes c)
    then show ?thesis using time_passes_ok [OF ok run] by simp
  qed
qed

lemma hosted_reachable_ok:
  assumes "hosted_reachable C tm n E h" and gem5: "gem5_serves C tm n eager E"
    and lib: "tlm_lib_ok (cl_tlm C)" "memory_ok (cl_memory C)"
  shows "hosted_ok C tm n eager h"
proof -
  obtain h0 where h0: "hosted_start tm n h0" "(\<lambda>h h'. \<not> h_exit h \<and> (\<exists>mv. hosted_step C n E mv h h'))\<^sup>*\<^sup>* h0 h"
    using assms(1) by (auto simp: hosted_reachable_def)
  from h0(2) show ?thesis
    by (induction rule: rtranclp_induct) (use hosted_start_ok [OF h0(1)] hosted_step_ok [OF gem5 lib] in auto)
qed

end
