(* ===== verification/Module_Host_Properties.thy ===== *)
theory Module_Host_Properties
  imports Module_Host_Invariant
begin

text \<open>
  The event loop is enough. Every payload event is served at its tick, with gem5 caught up, because a
  notification for it is always pending; the hosted system refines the timed one, and the event loop
  never ends it.
\<close>

section \<open>Properties\<close>

text \<open>
  C8: gem5 is always in time. Whatever the routers schedule, and whatever gem5 does, the hosted system,
  seen with gem5's clock brought up to date, is in a state that the timed system reaches: no payload
  event is served before or after its tick, and the check of the port that gem5 has caught up never
  fails. Until the exit, a notification is pending that comes no later than the first event of
  gem5's queue, and neither method of the module can end the simulation: the loop never finds an
  event missed, gem5 ahead of SystemC, or the queue empty.
\<close>

theorem hosted_on_time:
  assumes "hosted_reachable C tm n E h" and "gem5_serves C tm n eager E"
    and "tlm_lib_ok (cl_tlm C)" "memory_ok (cl_memory C)"
  shows "timed_reachable C tm n eager (caught_up (h_world h))
    \<and> (\<not> h_exit h \<longrightarrow> (\<exists>d \<in> alarms h. clock h \<le> d \<and> (\<forall>t \<in> set (ticks (s_queue (h_world h))). d \<le> t))
      \<and> (eventLoop E rounds (h_world h) = Inl e \<or> serviceExternalEvent E rounds (h_world h) = Inl e \<longrightarrow> e = No_return))"
proof -
  have ok: "hosted_ok C tm n eager h" by (rule hosted_reachable_ok [OF assms])
  have "e = No_return" if host: "hosting_ok C tm n eager (h_world h)"
      and "eventLoop E rounds (h_world h) = Inl e \<or> serviceExternalEvent E rounds (h_world h) = Inl e"
    using that(2) event_loop_hosted [OF assms(2-4) host, of rounds] unfolding methods_loop [OF assms(2) host] by auto
  with ok show ?thesis by (auto simp: hosted_ok_def)
qed

text \<open>When SystemC has to do something next.\<close>

definition systemc_times :: "u32 \<Rightarrow> hosted \<Rightarrow> tick set" where
  "systemc_times n h = (let z = g_sys (s_queue (h_world h)) in
     alarms h \<union> (\<Union>k \<in> {k. k < n}. fst ` set (t_peq z k) \<union> set_option (t_done z k)))"

lemma systemc_quiet_iff: "systemc_quiet n h c \<longleftrightarrow> (\<forall>x \<in> systemc_times n h. c \<le> x)"
  by (auto simp: systemc_quiet_def systemc_times_def Let_def)

lemma router_returns:
  assumes "lags f" and "f (caught_up (h_world h)) = Inr z'"
  shows "\<exists>h'. hosted_router f h = Inr h'"
  using lagsD(1) [OF assms(1), of "s_curTick (h_world h)" "clock h" "g_sys (s_queue (h_world h))"] assms(2)
  by (simp add: hosted_router_def Let_def read_clocks_def bindr_def)

text \<open>
  C9: the simulation goes on until gem5 exits. In every state that the hosted system reaches before
  that there is a next time at which SystemC has something to do, and nothing is due before it. What
  is due now, all of it, can be done: each of the module's two methods runs the event loop without a
  fatal report, in a number of rounds that is enough because gem5 serves only so many events before it
  exits or sleeps, and every phase and every end of a latency of a router is processed without a failed
  assertion. So when something is due now, the system has a step other than the passing of time.
\<close>

theorem hosted_goes_on:
  assumes "hosted_reachable C tm n E h" and "\<not> h_exit h" and "gem5_serves C tm n eager E"
    and "tlm_lib_ok (cl_tlm C)" "memory_ok (cl_memory C)" and "steady C tm n eager E m"
  shows "(\<exists>c \<in> systemc_times n h. clock h \<le> c \<and> systemc_quiet n h c
       \<and> (c = clock h \<longrightarrow> (\<exists>h'. hosted_step C n E Internal h h')))
    \<and> (h_enter h = Some (clock h) \<longrightarrow> returns (eventLoop E (Suc (m (s_queue (h_world h)))) (h_world h)))
    \<and> (h_external h = Some (clock h) \<longrightarrow> returns (serviceExternalEvent E (Suc (m (s_queue (h_world h)))) (h_world h)))
    \<and> (\<forall>k < n. \<forall>e \<in> set (t_peq (g_sys (s_queue (h_world h))) k). fst e = clock h \<longrightarrow> returns (hosted_router (timed_peq C k e) h))
    \<and> (\<forall>k < n. t_done (g_sys (s_queue (h_world h))) k = Some (clock h) \<longrightarrow> returns (hosted_router (timed_execute C k) h))"
proof -
  let ?w = "h_world h" and ?z = "g_sys (s_queue (h_world h))"
  let ?rounds = "Suc (m (s_queue (h_world h)))"
  have ok: "hosted_ok C tm n eager h" by (rule hosted_reachable_ok [OF assms(1,3-5)])
  have host: "hosting_ok C tm n eager ?w" and alarms: "\<forall>d \<in> alarms h. clock h \<le> d" "alarms h \<noteq> {}"
    using ok assms(2) by (auto simp: hosted_ok_def)
  obtain H where H: "cosim_inv tm n H (t_sys (caught_up ?w))" "timed_ok n (caught_up ?w)"
    by (rule timed_reachable_ok [OF hosting_okD(1) [OF host] assms(4,5)])
  note due = timed_okD(4) [OF H(2)]
  have le: "clock h \<le> x" if "x \<in> systemc_times n h" for x
    using that alarms(1) due_okD(3,6) [OF due] by (fastforce simp: systemc_times_def Let_def)
  have fin: "finite (systemc_times n h)" by (rule finite_subset [OF subset_UNIV]) simp
  have some: "systemc_times n h \<noteq> {}" using alarms(2) by (simp add: systemc_times_def Let_def)
  define c where "c = Min (systemc_times n h)"
  have c: "c \<in> systemc_times n h" "systemc_quiet n h c"
    using Min_in [OF fin some] Min_le [OF fin] by (simp_all add: c_def systemc_quiet_iff)
  have loop: "\<exists>w. event_loop E ?rounds ?w = Inr w"
    using event_loop_hosted [OF assms(3-5) host, of ?rounds] assms(6) by (auto simp del: event_loop.simps)
  have enter: "\<exists>w. eventLoop E ?rounds ?w = Inr w"
    using loop unfolding methods_loop(1) [OF assms(3) host, symmetric] .
  have external: "\<exists>w. serviceExternalEvent E ?rounds ?w = Inr w"
    using loop unfolding methods_loop(2) [OF assms(3) host, symmetric] .
  have peq: "\<exists>h'. hosted_router (timed_peq C k e) h = Inr h'" if "k < n" "e \<in> set (t_peq ?z k)" "fst e = clock h" for k e
  proof -
    have "\<exists>z'. timed_peq C k e (caught_up ?w) = Inr z'" using peq_due_ok [OF H that(1), of e C] that(2,3) by simp
    then show ?thesis using router_returns [OF timed_peq_lags] by blast
  qed
  have latency: "\<exists>h'. hosted_router (timed_execute C k) h = Inr h'" if "k < n" "t_done ?z k = Some (clock h)" for k
  proof -
    have "\<exists>z'. timed_execute C k (caught_up ?w) = Inr z'" using done_due_ok [OF H that(1) _ assms(5)] that(2) by auto
    then show ?thesis using router_returns [OF timed_execute_lags] by blast
  qed
  have step: "\<exists>h'. hosted_step C n E Internal h h'" if now: "c = clock h"
  proof -
    from c(1) consider "h_enter h = Some c" | "h_external h = Some c"
      | k e where "k < n" "e \<in> set (t_peq ?z k)" "fst e = c" | k where "k < n" "t_done ?z k = Some c"
      by (auto simp: systemc_times_def alarms_def Let_def)
    then show ?thesis
      using now enter external peq latency
      by cases (blast intro: hosted_step.Enter hosted_step.External hosted_step.Router_peq hosted_step.Router_done)+
  qed
  have "\<exists>c \<in> systemc_times n h. clock h \<le> c \<and> systemc_quiet n h c
       \<and> (c = clock h \<longrightarrow> (\<exists>h'. hosted_step C n E Internal h h'))"
    using c le step by blast
  then show ?thesis using enter external peq latency by (simp add: returns_iff)
qed

section \<open>The start of a simulation\<close>

text \<open>
  C10: \<open>simulate\<close> starts the hosted system, if its limit is not in SystemC's past. The world in which it
  waits for the exit is an initial state of the hosted system, whatever notifications were left from
  an earlier run. But the limit is counted from gem5's clock, which may be behind: when the requested
  cycles do not make up for that, the limit lies in the past and the first entry of the event loop
  ends the simulation.
\<close>

theorem simulate_hosts:
  assumes "timed_start tm n (caught_up w)" and "\<not> async_event (s_async w)" and "s_curTick w \<le> s_now w"
    and own: "\<forall>t \<in> set (g_own (s_queue w)). s_now w \<le> t"
    and queue: "\<forall>q. mo_empty E q \<longleftrightarrow> ticks q = []" "\<forall>q. mo_nextTick E q = next_tick q"
    and limit: "\<forall>c v. snd (mo_new_limit E c v) = v\<lparr>s_queue := (s_queue v)\<lparr>g_own := g_own (s_queue v) @ [c]\<rparr>\<rparr>"
  shows "\<exists>v k. (\<forall>f. simulate (E\<lparr>mo_wait_exit := f\<rparr>) num w = bindr (f v) k)
    \<and> (if s_now w \<le> simulate_limit (mo_MaxTick E) (s_curTick w) num
       then hosted_start tm n (post (drop (length (s_log w)) (s_log v))
              \<lparr>h_world = v, h_enter = None, h_external = x, h_exit = b\<rparr>)
       else eventLoop E (Suc rounds) v = Inl (Fatal ''Missed an event''))"
proof -
  let ?c = "simulate_limit (mo_MaxTick E) (s_curTick w) num"
  let ?q = "(s_queue w)\<lparr>g_own := g_own (s_queue w) @ [?c]\<rparr>"
  define v where "v = w\<lparr>s_queue := ?q, s_mod := (s_mod w)\<lparr>exitEvent := None, in_simulate := True\<rparr>,
    s_log := s_log w @ [New_limit_event ?c, Cancel_exit, Cancel_external, Notify_enter 0]\<rparr>"
  obtain p where new: "mo_new_limit E ?c (s_note (New_limit_event ?c) w)
      = (p, w\<lparr>s_queue := ?q, s_log := s_log w @ [New_limit_event ?c]\<rparr>)"
    using limit [rule_format, of ?c "s_note (New_limit_event ?c) w"]
    by (cases "mo_new_limit E ?c (s_note (New_limit_event ?c) w)") (simp add: s_note_def)
  let ?k = "\<lambda>w. let w = s_upd (\<lambda>m. m\<lparr>in_simulate := False\<rparr>) (s_note Cancel_enter w) in case exitEvent (s_mod w) of
      None \<Rightarrow> Inl (Undefined_behaviour ''exitEvent'')
    | Some e \<Rightarrow> (case mo_globalEvent E e of None \<Rightarrow> Inl Assert_failed
       | Some global \<Rightarrow> if \<not> mo_isExitEvent E global then Inl Assert_failed
           else Inr (global, if global \<noteq> p then mo_deschedule E p (s_note (Deschedule_limit p) w) else w))"
  have "simulate (E\<lparr>mo_wait_exit := f\<rparr>) num w = bindr (f v) ?k" for f
    using new by (simp add: simulate_def Let_def v_def s_note_def s_upd_def cong: option.case_cong if_cong)
  then have "\<exists>k. \<forall>f. simulate (E\<lparr>mo_wait_exit := f\<rparr>) num w = bindr (f v) k" by blast
  moreover have "hosted_start tm n (post (drop (length (s_log w)) (s_log v))
      \<lparr>h_world = v, h_enter = None, h_external = x, h_exit = b\<rparr>)" if "s_now w \<le> ?c"
    using assms(1-3) own that by (auto simp: v_def hosted_start_def earlier_def)
  moreover have "eventLoop E (Suc rounds) v = Inl (Fatal ''Missed an event'')" if "\<not> s_now w \<le> ?c"
  proof -
    have t: "ticks ?q \<noteq> []" "?c \<in> set (ticks ?q)" by (simp_all add: ticks_def)
    have "next_tick ?q \<le> ?c" by (rule next_tick(2) [OF t])
    then have "next_tick ?q < s_now w" using that by simp
    then show ?thesis
      using assms(2,3) queue t(1) by (simp add: eventLoop_def event_loop_round v_def del: event_loop.simps)
  qed
  ultimately show ?thesis by auto
qed

section \<open>A run in the event loop\<close>

text \<open>A gem5 with two events of its own: at the first it sends a packet, at the last it exits.\<close>

definition demo_send :: "timed \<Rightarrow> timed" where
  "demo_send z =
     (if request_ok demo_lib 2 0 (t_sys z) \<and> now z < 1000 \<and> pkt_payloadDelay (w_pkt (y_port (t_sys z)) 0) < 1000
      then case timed_request demo_lib 0 z of Inl _ \<Rightarrow> z | Inr (_, z') \<Rightarrow> z' else z)"

definition demo_host_serve :: "gem5_side sworld \<Rightarrow> ptr option \<times> gem5_side sworld" where
  "demo_host_serve v =
     (let z = read_clocks v; own = g_own (s_queue v)
      in case find (\<lambda>j. fst (events z ! j) = now z) [0..<length (events z)] of
           Some j \<Rightarrow>
             (case timed_event demo_lib True j z of
                Inl _ \<Rightarrow> (Some 0, v)
              | Inr z' \<Rightarrow> (if own = [] then Some 0 else None, v\<lparr>s_queue := \<lparr>g_sys = z', g_own = own\<rparr>\<rparr>))
         | None \<Rightarrow>
             (let own = remove1 (now z) own
              in (if own = [] then Some 0 else None, v\<lparr>s_queue := \<lparr>g_sys = demo_send z, g_own = own\<rparr>\<rparr>)))"

definition demo_henv :: "gem5_side module_env" where
  "demo_henv = \<lparr>mo_empty = (\<lambda>q. ticks q = []), mo_nextTick = next_tick, mo_serviceOne = demo_host_serve,
     mo_schedStatEvent = (\<lambda>d r w. w), mo_exitSimLoop = id, mo_pollService = id,
     mo_MaxTick = 1000000, mo_new_limit = (\<lambda>t w. (0, w)), mo_deschedule = (\<lambda>e w. w), mo_wait_exit = Inr,
     mo_globalEvent = Some, mo_isExitEvent = (\<lambda>_. True)\<rparr>"

lemma demo_send_move: "gem5_move demo_lib 2 z (demo_send z)"
proof (cases "demo_send z = z")
  case True
  have "gem5_move demo_lib 2 z (z\<lparr>t_sys := (t_sys z)\<lparr>y_port := (y_port (t_sys z))\<lparr>w_pkt := w_pkt (y_port (t_sys z))\<rparr>\<rparr>\<rparr>)"
    by (rule gem5_move.Packets)
  then show ?thesis using True by simp
next
  case False
  then have "request_ok demo_lib 2 0 (t_sys z)" "now z < 1000" "pkt_payloadDelay (w_pkt (y_port (t_sys z)) 0) < 1000"
    and send: "\<exists>a. timed_request demo_lib 0 z = Inr (a, demo_send z)"
    unfolding demo_send_def by (auto split: if_splits sum.splits prod.splits)
  moreover from this(2,3) have "unat (now z) + unat (pkt_payloadDelay (w_pkt (y_port (t_sys z)) 0)) < 2 ^ 64"
    by (simp add: word_less_nat_alt)
  ultimately show ?thesis by (blast intro: gem5_move.Request)
qed

lemma demo_serve_cases:
  assumes "due demo_henv v" and reach: "timed_reachable demo_lib demo_tm 2 True (read_clocks v)"
    and serve: "demo_host_serve v = (e, v')"
  obtains (payload) j z' where "j < length (events (read_clocks v))" "fst (events (read_clocks v) ! j) = s_now v"
      "timed_event demo_lib True j (read_clocks v) = Inr z'"
      "v' = v\<lparr>s_queue := \<lparr>g_sys = z', g_own = g_own (s_queue v)\<rparr>\<rparr>" "e = None \<Longrightarrow> g_own (s_queue v) \<noteq> []"
  | (own) "s_now v \<in> set (g_own (s_queue v))" "e = None \<Longrightarrow> remove1 (s_now v) (g_own (s_queue v)) \<noteq> []"
      "v' = v\<lparr>s_queue := \<lparr>g_sys = demo_send (read_clocks v), g_own = remove1 (s_now v) (g_own (s_queue v))\<rparr>\<rparr>"
proof -
  let ?z = "read_clocks v"
  obtain H where H: "cosim_inv demo_tm 2 H (t_sys ?z)" "timed_ok 2 ?z" by (rule timed_reachable_ok [OF reach demo_lib_ok])
  have now: "now ?z = s_now v" by (simp add: read_clocks_def)
  show thesis
  proof (cases "find (\<lambda>j. fst (events ?z ! j) = s_now v) [0..<length (events ?z)]")
    case None
    then have "s_now v \<notin> fst ` set (events ?z)" by (fastforce simp: find_None_iff in_set_conv_nth)
    moreover have "s_now v \<in> set (ticks (s_queue v))"
      using assms(1) next_tick(1) by (fastforce simp: due_def demo_henv_def)
    ultimately have "s_now v \<in> set (g_own (s_queue v))" by (auto simp: ticks_def read_clocks_def)
    with serve None show thesis by (intro own) (auto simp: demo_host_serve_def Let_def now split: if_splits)
  next
    case (Some j)
    then have j: "j < length (events ?z)" "fst (events ?z ! j) = s_now v" by (auto simp: find_Some_iff)
    obtain y' where "sys_event demo_lib True j (t_sys ?z) = Inr y'"
      using event_step_ok [OF H(1) demo_lib_ok(1) due_next_event [OF H j(1)], of True] by blast
    then obtain z' where "timed_event demo_lib True j ?z = Inr z'" by (simp add: timed_event_def)
    with serve Some j show thesis by (intro payload) (auto simp: demo_host_serve_def Let_def now split: if_splits)
  qed
qed

lemma demo_gem5_serves: "gem5_serves demo_lib demo_tm 2 True demo_henv"
  unfolding gem5_serves_def
proof (intro conjI allI impI)
  fix v :: "gem5_side sworld" and e v'
  assume a: "due demo_henv v" "timed_reachable demo_lib demo_tm 2 True (read_clocks v)" "mo_serviceOne demo_henv v = (e, v')"
  have now: "now (read_clocks v) = s_now v" by (simp add: read_clocks_def)
  have own: "\<forall>t \<in> set (g_own (s_queue v)). s_now v \<le> t"
    using a(1) next_tick(2) by (fastforce simp: due_def demo_henv_def ticks_def)
  have serve: "demo_host_serve v = (e, v')" using a(3) by (simp add: demo_henv_def)
  note D = demo_serve_cases [OF a(1,2) serve]
  show "\<exists>z. served demo_lib True (read_clocks v) (g_own (s_queue v)) z \<and> (gem5_move demo_lib 2)\<^sup>*\<^sup>* z (g_sys (s_queue v'))"
  proof (rule D)
    fix j z'
    assume "j < length (events (read_clocks v))" "fst (events (read_clocks v) ! j) = s_now v"
      "timed_event demo_lib True j (read_clocks v) = Inr z'" "v' = v\<lparr>s_queue := \<lparr>g_sys = z', g_own = g_own (s_queue v)\<rparr>\<rparr>"
    then show ?thesis using now by (intro exI [of _ z']) (auto simp: served_def)
  next
    assume "s_now v \<in> set (g_own (s_queue v))"
      "v' = v\<lparr>s_queue := \<lparr>g_sys = demo_send (read_clocks v), g_own = remove1 (s_now v) (g_own (s_queue v))\<rparr>\<rparr>"
    then show ?thesis using now demo_send_move by (intro exI [of _ "read_clocks v"]) (auto simp: served_def)
  qed
  show "\<forall>t \<in> set (g_own (s_queue v')). s_now v \<le> t" by (rule D) (use own set_remove1_subset in fastforce)+
  show "g_own (s_queue v') \<noteq> []" if "e = None" by (rule D) (use that in auto)
  show "s_mod v' = s_mod v" "s_async v' = s_async v" "s_now v' = s_now v" "s_curTick v' = s_curTick v"
    "\<exists>l. s_log v' = s_log v @ l \<and> set l \<subseteq> {Notify_external 0}" by (rule D; simp)+
qed (simp_all add: demo_henv_def)

lemma demo_steady: "steady demo_lib demo_tm 2 True demo_henv (\<lambda>q. length (ticks q))"
  unfolding steady_def
proof (intro allI impI)
  fix v v' :: "gem5_side sworld"
  assume a: "due demo_henv v" "timed_reachable demo_lib demo_tm 2 True (read_clocks v)" "mo_serviceOne demo_henv v = (None, v')"
  have serve: "demo_host_serve v = (None, v')" using a(3) by (simp add: demo_henv_def)
  obtain H where H: "cosim_inv demo_tm 2 H (t_sys (read_clocks v))" "timed_ok 2 (read_clocks v)"
    by (rule timed_reachable_ok [OF a(2) demo_lib_ok])
  have ev: "events (read_clocks v) = events (g_sys (s_queue v))" by (simp add: read_clocks_def)
  show "length (ticks (s_queue v')) < length (ticks (s_queue v))"
  proof (rule demo_serve_cases [OF a(1,2) serve])
    fix j z'
    assume j: "j < length (events (read_clocks v))" "timed_event demo_lib True j (read_clocks v) = Inr z'"
      "v' = v\<lparr>s_queue := \<lparr>g_sys = z', g_own = g_own (s_queue v)\<rparr>\<rparr>"
    have "events z' = take j (events (read_clocks v)) @ drop (Suc j) (events (read_clocks v))"
      by (rule timed_event_cases [OF H(1) demo_lib_ok(1) due_next_event [OF H j(1)] j(2)]) (simp_all add: port_effect_def)
    then show ?thesis using j(1,3) ev by (simp add: ticks_def)
  next
    assume o: "s_now v \<in> set (g_own (s_queue v))"
      "v' = v\<lparr>s_queue := \<lparr>g_sys = demo_send (read_clocks v), g_own = remove1 (s_now v) (g_own (s_queue v))\<rparr>\<rparr>"
    have "events (demo_send (read_clocks v)) = events (read_clocks v)"
      by (rule gem5_move.cases [OF demo_send_move])
        (auto elim!: timed_request_cases [OF H(1) demo_lib_ok(1)] timed_resp_retry_effect [OF H(1) demo_lib_ok(1)] simp: port_effect_def)
    then show ?thesis using o ev length_pos_if_in_set [OF o(1)] by (auto simp: ticks_def length_remove1)
  qed
qed

definition demo_hosted :: hosted where
  "demo_hosted = \<lparr>h_world = \<lparr>s_mod = (Module 0 None)\<lparr>in_simulate := True\<rparr>, s_queue = \<lparr>g_sys = demo_timed, g_own = [0, 100000]\<rparr>,
       s_queues = 1, s_curTick = 0, s_now = 0, s_async = \<lparr>async_event = False, async_statdump = False,
         async_statreset = False, async_exit = False, async_io = False, async_exception = False\<rparr>, s_log = []\<rparr>,
     h_enter = Some 0, h_external = None, h_exit = False\<rparr>"

definition enter :: "nat \<Rightarrow> hosted \<Rightarrow> hosted res" where
  "enter rounds h =
     (if \<not> h_exit h \<and> h_enter h = Some (clock h)
      then bindr (eventLoop demo_henv rounds (h_world h)) (\<lambda>w. Inr (ran (h\<lparr>h_enter := None\<rparr>) w))
      else Inl Assert_failed)"

definition external :: "nat \<Rightarrow> hosted \<Rightarrow> hosted res" where
  "external rounds h =
     (if \<not> h_exit h \<and> h_external h = Some (clock h)
      then bindr (serviceExternalEvent demo_henv rounds (h_world h)) (\<lambda>w. Inr (ran (h\<lparr>h_external := None\<rparr>) w))
      else Inl Assert_failed)"

definition systemc_list :: "hosted \<Rightarrow> tick list" where
  "systemc_list h = (let z = g_sys (s_queue (h_world h)); opt = (\<lambda>p. case p of None \<Rightarrow> [] | Some d \<Rightarrow> [d]) in
     opt (h_enter h) @ opt (h_external h) @ concat (map (\<lambda>k. map fst (t_peq z k) @ opt (t_done z k)) [0, 1]))"

definition pass :: "tick \<Rightarrow> hosted \<Rightarrow> hosted res" where
  "pass c h = (if \<not> h_exit h \<and> clock h \<le> c \<and> list_all (\<lambda>x. c \<le> x) (systemc_list h)
     then Inr (h\<lparr>h_world := (h_world h)\<lparr>s_now := c\<rparr>\<rparr>) else Inl Assert_failed)"

definition peq_phase :: "u32 \<Rightarrow> tick \<times> ptr \<times> tlm_phase \<Rightarrow> hosted \<Rightarrow> hosted res" where
  "peq_phase k e h =
     (if \<not> h_exit h \<and> k < 2 \<and> t_peq (g_sys (s_queue (h_world h))) k = [e] \<and> fst e = clock h
      then hosted_router (timed_peq demo_lib k e) h else Inl Assert_failed)"

text \<open>gem5 sends its packet at 0; it arrives at 3, its router ends it and wakes gem5 up for the end of the
  request at 10003, which is served then: the notification for 100000 has given way to that one.\<close>

definition demo_hosted_run :: "hosted res" where
  "demo_hosted_run =
     bindr (enter (Suc (Suc (Suc 0))) demo_hosted) (\<lambda>h. bindr (pass 3 h) (\<lambda>h.
     bindr (peq_phase 1 (3, 0, BEGIN_REQ) h) (\<lambda>h. bindr (external (Suc (Suc (Suc 0))) h) (\<lambda>h.
     bindr (pass 10003 h) (enter (Suc (Suc (Suc 0))))))))"

lemma demo_hosted_runs:
  "case demo_hosted_run of Inl _ \<Rightarrow> False
   | Inr h \<Rightarrow> clock h = 10003 \<and> s_curTick (h_world h) = 10003 \<and> ticks (s_queue (h_world h)) = [100000] \<and> h_enter h = Some 100000
       \<and> h_external h = None \<and> \<not> h_exit h"
  by code_simp

definition demo_step :: "hosted \<Rightarrow> hosted \<Rightarrow> bool" where
  "demo_step h h' \<longleftrightarrow> \<not> h_exit h \<and> (\<exists>mv. hosted_step demo_lib 2 demo_henv mv h h')"

lemma demo_host_steps:
  "enter r h = Inr h' \<Longrightarrow> demo_step h h'"
  "external r h = Inr h' \<Longrightarrow> demo_step h h'"
  "peq_phase k e h = Inr h' \<Longrightarrow> demo_step h h'"
  "pass c h = Inr h' \<Longrightarrow> unat c + 25000 < 2 ^ 64 \<Longrightarrow> demo_step h h'"
proof -
  show "demo_step h h'" if "enter r h = Inr h'"
    using that by (auto simp: demo_step_def enter_def bindr_eq_Inr split: if_splits intro: hosted_step.Enter)
  show "demo_step h h'" if "external r h = Inr h'"
    using that by (auto simp: demo_step_def external_def bindr_eq_Inr split: if_splits intro: hosted_step.External)
  show "demo_step h h'" if "peq_phase k e h = Inr h'"
    using that by (auto simp: demo_step_def peq_phase_def split: if_splits intro!: exI hosted_step.Router_peq [where e = e])
  have two: "(k :: u32) < 2 \<longleftrightarrow> k = 0 \<or> k = 1" for k by unat_arith
  have "systemc_quiet 2 h c \<longleftrightarrow> list_all (\<lambda>x. c \<le> x) (systemc_list h)"
    by (auto simp: systemc_quiet_def systemc_list_def alarms_def Let_def list_all_iff two split: option.splits)
  then show "demo_step h h'" if "pass c h = Inr h'" "unat c + 25000 < 2 ^ 64"
    using that by (auto simp: demo_step_def pass_def split: if_splits intro!: exI hosted_step.Time_passes)
qed

lemma demo_hosted_start: "hosted_start demo_tm 2 demo_hosted"
proof -
  have "with_clocks 0 0 demo_timed = demo_timed"
    by (rule with_own_clocks) (simp_all add: demo_timed_def demo_cosim_def demo_idle_def demo_start_def)
  then show ?thesis using demo_timed_starts by (simp add: hosted_start_def demo_hosted_def)
qed

lemma demo_hosted_outcome:
  obtains h where "demo_hosted_run = Inr h" "hosted_reachable demo_lib demo_tm 2 demo_henv h" "clock h = 10003"
    "ticks (s_queue (h_world h)) = [100000]" "h_enter h = Some 100000" "h_external h = None" "\<not> h_exit h"
proof (cases demo_hosted_run)
  case (Inl e)
  show thesis using demo_hosted_runs unfolding Inl by simp
next
  case (Inr h)
  obtain h1 h2 h3 h4 h5 where run: "enter (Suc (Suc (Suc 0))) demo_hosted = Inr h1" "pass 3 h1 = Inr h2"
      "peq_phase 1 (3, 0, BEGIN_REQ) h2 = Inr h3" "external (Suc (Suc (Suc 0))) h3 = Inr h4" "pass 10003 h4 = Inr h5"
      "enter (Suc (Suc (Suc 0))) h5 = Inr h"
    using Inr by (auto simp: demo_hosted_run_def bindr_eq_Inr)
  have final: "clock h = 10003" "ticks (s_queue (h_world h)) = [100000]" "h_enter h = Some 100000" "h_external h = None" "\<not> h_exit h"
    using demo_hosted_runs unfolding Inr by simp_all
  have "demo_step h1 h2" "demo_step h4 h5" using demo_host_steps(4) [OF run(2)] demo_host_steps(4) [OF run(5)] by simp_all
  with demo_host_steps(1) [OF run(1)] demo_host_steps(1) [OF run(6)] demo_host_steps(2) [OF run(4)] demo_host_steps(3) [OF run(3)]
  have "demo_step\<^sup>*\<^sup>* demo_hosted h" by (blast intro: converse_rtranclp_into_rtranclp)
  moreover have "demo_step = (\<lambda>h h'. \<not> h_exit h \<and> (\<exists>mv. hosted_step demo_lib 2 demo_henv mv h h'))"
    by (simp add: demo_step_def fun_eq_iff)
  ultimately have "hosted_reachable demo_lib demo_tm 2 demo_henv h" using demo_hosted_start by (auto simp: hosted_reachable_def)
  then show thesis using that Inr final by blast
qed

theorem hosted_on_time_witness:
  "\<exists>h. demo_hosted_run = Inr h \<and> timed_reachable demo_lib demo_tm 2 True (caught_up (h_world h)) \<and> clock h = 10003
     \<and> (\<exists>d \<in> alarms h. clock h \<le> d \<and> d \<le> 100000)"
proof -
  obtain h where h: "demo_hosted_run = Inr h" "hosted_reachable demo_lib demo_tm 2 demo_henv h" "clock h = 10003"
    "ticks (s_queue (h_world h)) = [100000]" "\<not> h_exit h" by (rule demo_hosted_outcome) blast
  from hosted_on_time [OF h(2) demo_gem5_serves demo_lib_ok] h(5)
  have "timed_reachable demo_lib demo_tm 2 True (caught_up (h_world h))"
    and "\<exists>d \<in> alarms h. clock h \<le> d \<and> (\<forall>t \<in> set (ticks (s_queue (h_world h))). d \<le> t)" by blast+
  with h(1,3,4) show ?thesis by (intro exI [of _ h]) simp
qed

theorem hosted_goes_on_witness:
  "\<exists>h c. demo_hosted_run = Inr h \<and> c \<in> systemc_times 2 h \<and> 10003 \<le> c \<and> systemc_quiet 2 h c
     \<and> (c = 10003 \<longrightarrow> (\<exists>h'. hosted_step demo_lib 2 demo_henv Internal h h'))"
proof -
  obtain h where h: "demo_hosted_run = Inr h" "hosted_reachable demo_lib demo_tm 2 demo_henv h" "clock h = 10003"
    "\<not> h_exit h" by (rule demo_hosted_outcome) blast
  from hosted_goes_on [OF h(2,4) demo_gem5_serves demo_lib_ok demo_steady] h(1,3) show ?thesis by auto
qed

definition demo_limit_env :: "gem5_side module_env" where
  "demo_limit_env = demo_henv\<lparr>mo_new_limit := (\<lambda>c v. (0, v\<lparr>s_queue := (s_queue v)\<lparr>g_own := g_own (s_queue v) @ [c]\<rparr>\<rparr>))\<rparr>"

theorem simulate_hosts_witness:
  "\<exists>v k. (\<forall>f. simulate (demo_limit_env\<lparr>mo_wait_exit := f\<rparr>) 500 (h_world demo_hosted) = bindr (f v) k)
     \<and> hosted_start demo_tm 2 (post (drop 0 (s_log v)) \<lparr>h_world = v, h_enter = None, h_external = Some 0, h_exit = True\<rparr>)"
proof -
  have start: "timed_start demo_tm 2 (caught_up (h_world demo_hosted))" "\<not> async_event (s_async (h_world demo_hosted))"
      "s_curTick (h_world demo_hosted) \<le> s_now (h_world demo_hosted)"
    using demo_hosted_start by (simp_all add: hosted_start_def)
  have own: "\<forall>t \<in> set (g_own (s_queue (h_world demo_hosted))). s_now (h_world demo_hosted) \<le> t"
    using demo_hosted_start by (simp add: hosted_start_def)
  have env: "\<forall>q. mo_empty demo_limit_env q \<longleftrightarrow> ticks q = []" "\<forall>q. mo_nextTick demo_limit_env q = next_tick q"
    "\<forall>c v. snd (mo_new_limit demo_limit_env c v) = v\<lparr>s_queue := (s_queue v)\<lparr>g_own := g_own (s_queue v) @ [c]\<rparr>\<rparr>"
    by (simp_all add: demo_limit_env_def demo_henv_def)
  have "s_now (h_world demo_hosted) = 0" "length (s_log (h_world demo_hosted)) = 0" by (simp_all add: demo_hosted_def)
  then show ?thesis using simulate_hosts [OF start own env, of 500 "Some 0" True undefined] by simp
qed

end
