(* ===== verification/Control_Properties.thy ===== *)
theory Control_Properties
  imports Sim_Control Slave_Binding
begin

text \<open>
  The properties of the simulation control: the registry of ports, the debug flags, the cores, and the
  agreement of the control and of the bound slave ports on which core a requestor belongs to.
\<close>

section \<open>Registry\<close>

text \<open>
  A port that gem5 creates under a fresh name is found under that name, with the control's cores
  told to it and every other port untouched; names already taken and names never registered end the
  program.
\<close>

theorem external_port_is_found:
  assumes "smap_ok (slavePorts (c_control w))"
  shows "slave_getExternalPort name w =
      (if smap_find name (slavePorts (c_control w)) = None
       then Inr (c_next w, w\<lparr>c_slave := (c_slave w)(c_next w := SCSlavePort), c_next := Suc (c_next w),
              c_control := (c_control w)\<lparr>slavePorts := smap_assign name (c_next w) (slavePorts (c_control w))\<rparr>\<rparr>)
       else Inl (Exit_failure ''Slave Port is already registered!''))
    \<and> (\<forall>p w'. slave_getExternalPort name w = Inr (p, w') \<longrightarrow>
        smap_ok (slavePorts (c_control w'))
      \<and> getSlavePort name w' = Inr (p, w'\<lparr>c_slave := (c_slave w')(p := fresh_port (cpuPorts (c_control w')))\<rparr>)
      \<and> (\<forall>n. n \<noteq> name \<longrightarrow> smap_find n (slavePorts (c_control w')) = smap_find n (slavePorts (c_control w))))
    \<and> (smap_find name (slavePorts (c_control w)) = None \<longrightarrow>
        getSlavePort name w = Inl (Exit_failure ''Slave Port was not found!''))"
  using assms
  by (auto simp: slave_getExternalPort_def registerSlavePort_def getSlavePort_def Let_def smap_laws fresh_port_def)

definition demo_cworld :: cworld where
  "demo_cworld = \<lparr>c_control = \<lparr>simulationEnd = 0, slavePorts = [(''a'', 0)], masterPorts = [], cpuPorts = demo_cores\<rparr>,
     c_slave = (\<lambda>_. SCSlavePort), c_master = (\<lambda>_. SCMasterPort), c_next = 1, c_instance = True, c_queues = 1, c_log = []\<rparr>"

theorem external_port_is_found_witness:
  "\<exists>w'. slave_getExternalPort ''b'' demo_cworld = Inr (1, w') \<and> returns (getSlavePort ''b'' w')
     \<and> slave_getExternalPort ''a'' demo_cworld = Inl (Exit_failure ''Slave Port is already registered!'')"
proof -
  have ok: "smap_ok (slavePorts (c_control demo_cworld))" by (simp add: demo_cworld_def)
  have n: "smap_find ''b'' (slavePorts (c_control demo_cworld)) = None" "c_next demo_cworld = 1"
      "smap_find ''a'' (slavePorts (c_control demo_cworld)) \<noteq> None"
    by (simp_all add: demo_cworld_def)
  obtain w' where w': "slave_getExternalPort ''b'' demo_cworld = Inr (1, w')"
    using external_port_is_found [OF ok, of "''b''"] n by simp
  moreover have "returns (getSlavePort ''b'' w')"
    using external_port_is_found [OF ok, of "''b''"] w' by simp
  moreover have "slave_getExternalPort ''a'' demo_cworld = Inl (Exit_failure ''Slave Port is already registered!'')"
    using external_port_is_found [OF ok, of "''a''"] n(3) by simp
  ultimately show ?thesis by blast
qed

section \<open>Debug flags\<close>

text \<open>Words separated by one space each.\<close>

fun join :: "string list \<Rightarrow> string" where
  "join [] = []"
| "join [f] = f"
| "join (f # g # fs) = f @ CHR '' '' # join (g # fs)"

definition word_ok :: "string \<Rightarrow> bool" where
  "word_ok f \<longleftrightarrow> f \<noteq> [] \<and> CHR '' '' \<notin> set f"

lemma getlines_word:
  assumes "CHR '' '' \<notin> set f"
  shows "f \<noteq> [] \<Longrightarrow> getlines f = [f]" and "getlines (f @ CHR '' '' # s) = f # getlines s"
proof -
  have t: "takeWhile (\<lambda>x. x \<noteq> CHR '' '') (f @ CHR '' '' # s) = f" "takeWhile (\<lambda>x. x \<noteq> CHR '' '') f = f"
    and d: "dropWhile (\<lambda>x. x \<noteq> CHR '' '') (f @ CHR '' '' # s) = CHR '' '' # s" "dropWhile (\<lambda>x. x \<noteq> CHR '' '') f = []"
    using assms by (induction f) auto
  show "getlines (f @ CHR '' '' # s) = f # getlines s"
    using t(1) d(1) by (cases f) simp_all
  show "f \<noteq> [] \<Longrightarrow> getlines f = [f]"
    using t(2) d(2) by (cases f) simp_all
qed

lemma getlines_join: "\<forall>f \<in> set fs. word_ok f \<Longrightarrow> getlines (join fs) = fs"
  by (induction fs rule: join.induct) (auto simp: word_ok_def getlines_word)

definition flag_call :: "string \<Rightarrow> ccall" where
  "flag_call f = (if hd f = CHR ''-'' then Clear_debug_flag (tl f) else Set_debug_flag f)"

lemma apply_flags_words:
  "\<forall>f \<in> set fs. f \<noteq> [] \<Longrightarrow> apply_flags fs w = Inr (c_note (map flag_call fs) w)"
proof (induction fs arbitrary: w)
  case Nil
  then show ?case by (simp add: c_note_def)
next
  case (Cons f fs)
  then obtain c rest where "f = c # rest" by (cases f) auto
  with Cons show ?case by (simp add: apply_flag_def c_note_def flag_call_def)
qed

lemma apply_flags_empty:
  "[] \<in> set fs \<Longrightarrow> apply_flags fs w = Inl Out_of_range_exception"
proof (induction fs arbitrary: w)
  case (Cons f fs)
  then show ?case by (cases f) (auto simp: apply_flag_def)
qed simp

text \<open>
  The list of debug flags is read as documented when words are separated by single spaces: each
  flag is set, or cleared when it starts with \<open>-\<close>, in order and nothing else happens. But two
  adjacent spaces, or one at the start, make the constructor throw an exception that nothing catches.
\<close>

theorem debug_flags_parsed:
  assumes "\<forall>f \<in> set fs. word_ok f"
  shows "parse_debug_flags (join fs) w = Inr (w\<lparr>c_log := c_log w @ map flag_call fs\<rparr>)
    \<and> parse_debug_flags (join fs @ ''  '' @ s) w = Inl Out_of_range_exception
    \<and> parse_debug_flags (CHR '' '' # s) w = Inl Out_of_range_exception"
proof -
  have lead: "parse_debug_flags (CHR '' '' # s) w = Inl Out_of_range_exception" for s
    by (simp add: parse_debug_flags_def apply_flag_def)
  have "getlines (join fs @ ''  '' @ s) = fs @ [] # getlines s \<or> fs = []"
    using assms
  proof (induction fs rule: join.induct)
    case (2 f)
    then show ?case by (simp add: word_ok_def getlines_word)
  next
    case (3 f g fs)
    then show ?case by (simp add: word_ok_def getlines_word)
  qed simp
  then have "parse_debug_flags (join fs @ ''  '' @ s) w = Inl Out_of_range_exception"
    using lead [of "CHR '' '' # s"] apply_flags_empty [of "fs @ [] # getlines s" w]
    by (auto simp: parse_debug_flags_def simp del: getlines.simps)
  moreover have "parse_debug_flags (join fs) w = Inr (w\<lparr>c_log := c_log w @ map flag_call fs\<rparr>)"
    using assms getlines_join [OF assms] apply_flags_words [of fs w]
    by (auto simp: parse_debug_flags_def word_ok_def c_note_def)
  ultimately show ?thesis using lead by blast
qed

theorem debug_flags_parsed_witness:
  "parse_debug_flags ''Event -Cache'' demo_cworld
     = Inr (demo_cworld\<lparr>c_log := [Set_debug_flag ''Event'', Clear_debug_flag ''Cache'']\<rparr>)
   \<and> parse_debug_flags ''Event  Cache'' demo_cworld = Inl Out_of_range_exception"
proof -
  have "\<forall>f \<in> set [''Event'', ''-Cache'']. word_ok f" "\<forall>f \<in> set [''Event'']. word_ok f"
    by (simp_all add: word_ok_def)
  from debug_flags_parsed [OF this(1), of demo_cworld] debug_flags_parsed [OF this(2), of demo_cworld "''Cache''"]
  show ?thesis by (simp add: flag_call_def demo_cworld_def)
qed

section \<open>Cores\<close>

lemma core_id_from_index:
  "core_id_from c i m = (case core_index i m of Some k \<Rightarrow> c + of_nat k | None \<Rightarrow> 0)"
  by (induction c i m rule: core_id_from.induct)
    (auto simp: core_index_Cons core_index_def [of _ "[]"] add.assoc split: option.split)

lemma addCoreID_find:
  "smap_find n (cpuPorts (addCoreID core i c)) =
     (if n = core then Some ((case smap_find core (cpuPorts c) of Some ids \<Rightarrow> ids | None \<Rightarrow> []) @ [i])
      else smap_find n (cpuPorts c))"
  by (auto simp: addCoreID_def smap_find_assign_any split: option.split)

lemma addCoreID_ok: "smap_ok (cpuPorts c) \<Longrightarrow> smap_ok (cpuPorts (addCoreID core i c))"
  by (auto simp: addCoreID_def smap_ok_assign_any split: option.split)

text \<open>
  After the configuration is instantiated every core owns exactly its instruction and data
  requestor ids, in that order, and the cores are kept in the order of their names.
\<close>

theorem cores_own_their_requestors:
  assumes "distinct (map fst cores)" and "cpuPorts c = []"
  shows "smap_ok (cpuPorts (initCoreInfo cores c))
    \<and> (\<forall>n. smap_find n (cpuPorts (initCoreInfo cores c)) = map_option (\<lambda>(i, d). [i, d]) (map_of cores n))"
proof -
  have "smap_ok (cpuPorts (initCoreInfo cores c)) \<and> (\<forall>n. smap_find n (cpuPorts (initCoreInfo cores c)) =
      (case map_of cores n of Some (i, d) \<Rightarrow> Some [i, d] | None \<Rightarrow> smap_find n (cpuPorts c)))"
    if "distinct (map fst cores)" "smap_ok (cpuPorts c)" "\<forall>n \<in> set (map fst cores). smap_find n (cpuPorts c) = None"
    using that unfolding initCoreInfo_def
  proof (induction cores arbitrary: c)
    case (Cons x cores)
    obtain core i d where x: "x = (core, i, d)" by (cases x)
    define c1 where "c1 = addCoreID core d (addCoreID core i c)"
    have f: "smap_find n (cpuPorts c1) = (if n = core then Some [i, d] else smap_find n (cpuPorts c))" for n
      using Cons.prems(3) x by (simp add: c1_def addCoreID_find)
    have "smap_ok (cpuPorts c1)" using Cons.prems(2) by (simp add: c1_def addCoreID_ok)
    moreover have "distinct (map fst cores)" "core \<notin> fst ` set cores"
        "\<forall>n \<in> set (map fst cores). smap_find n (cpuPorts c1) = None"
      using Cons.prems(1,3) x f by auto
    ultimately show ?case
      using Cons.IH [of c1] x f by (auto simp: c1_def [symmetric] map_of_eq_None_iff split: option.splits)
  qed simp
  from this [OF assms(1)] assms(2) show ?thesis by (auto split: option.split)
qed

definition demo_control :: sim_control where
  "demo_control = \<lparr>simulationEnd = 0, slavePorts = [], masterPorts = [], cpuPorts = []\<rparr>"

theorem cores_own_their_requestors_witness:
  "smap_find ''cpu1'' (cpuPorts (initCoreInfo [(''cpu1'', 7, 8), (''cpu0'', 5, 6)] demo_control)) = Some [7, 8]"
  using cores_own_their_requestors [of "[(''cpu1'', 7, 8), (''cpu0'', 5, 6)]" demo_control]
  by (simp add: demo_control_def)

text \<open>
  C34: the control and the bound port agree on the core of a requestor. When a transactor without a
  socket configuration, to which the control is bound, finds its freshly created port in the registry and binds it, the binding
  succeeds, and for every requestor id the socket the port chooses is the core number the control
  computes.
\<close>

theorem socket_is_core:
  assumes reg: "smap_find (stm_portName tm) (slavePorts (c_control w)) = Some p" "c_slave w p = SCSlavePort"
    and tm: "socket_core_map tm = []" and pool: "pool_ok {} (w_pool sw)"
    and cores: "cpuPorts (c_control w) \<noteq> []" "length (cpuPorts (c_control w)) < 2 ^ 32 - 1"
  shows "\<exists>w' sw'. multi_before_end_of_elaboration tm (Some w) sw = Inr (w', sw') \<and> c_slave w' p = w_port sw'
     \<and> port_ok (of_nat (length (cpuPorts (c_control w)))) Map.empty sw'
     \<and> (\<forall>r. getSocketId r (c_slave w' p) = getCoreIDByRequestorID r (c_control w'))"
proof -
  let ?m = "cpuPorts (c_control w)"
  let ?sw = "sw\<lparr>w_port := fresh_port ?m\<rparr>"
  obtain sw' where b: "bindToTransactor_multi tm ?sw = Inr sw'" "port_ok (of_nat (length ?m)) Map.empty sw'"
      "\<And>r. getSocketId r (w_port sw') = (case core_index r ?m of Some i \<Rightarrow> of_nat i | None \<Rightarrow> 0)"
    using bind_default_fresh [of ?sw ?m tm] pool tm cores by auto
  define w1 where "w1 = w\<lparr>c_slave := (c_slave w)(p := fresh_port ?m)\<rparr>"
  have "getSlavePort (stm_portName tm) w = Inr (p, w1)"
    using reg by (simp add: getSlavePort_def fresh_port_def w1_def)
  then have "multi_before_end_of_elaboration tm (Some w) sw = Inr (w1\<lparr>c_slave := (c_slave w1)(p := w_port sw')\<rparr>, sw')"
    using b(1) by (simp add: multi_before_end_of_elaboration_def get_interface_def w1_def)
  moreover have "c_control (w1\<lparr>c_slave := (c_slave w1)(p := w_port sw')\<rparr>) = c_control w" by (simp add: w1_def)
  ultimately show ?thesis
    using b(2,3) by (auto simp: getCoreIDByRequestorID_def core_id_from_index split: option.split)
qed

theorem socket_is_core_witness:
  "\<exists>w' sw'. multi_before_end_of_elaboration (demo_tm\<lparr>stm_portName := ''a''\<rparr>) (Some demo_cworld) demo_start = Inr (w', sw')
     \<and> getSocketId 4 (c_slave w' 0) = getCoreIDByRequestorID 4 (c_control w')"
proof -
  have "smap_find (stm_portName (demo_tm\<lparr>stm_portName := ''a''\<rparr>)) (slavePorts (c_control demo_cworld)) = Some 0"
      "c_slave demo_cworld 0 = SCSlavePort" "socket_core_map (demo_tm\<lparr>stm_portName := ''a''\<rparr>) = []"
      "pool_ok {} (w_pool demo_start)" "cpuPorts (c_control demo_cworld) \<noteq> []"
      "length (cpuPorts (c_control demo_cworld)) < 2 ^ 32 - 1"
    by (simp_all add: demo_cworld_def demo_tm_def demo_start_def demo_cores_def pool_ok_empty)
  from socket_is_core [OF this] show ?thesis by blast
qed

end
