(* ===== verification/Sc_Logger.thy ===== *)
theory Sc_Logger
  imports Prelude
begin

text \<open>
  \<open>Logger\<close> and its stream buffer \<open>CuttingStreambuf\<close> of \<open>sc_logger.{hh,cc}\<close>: characters written to gem5's debug
  stream are collected into lines, and each line becomes one information report. The stream has no
  buffer of its own, so every character arrives through \<open>overflow\<close>.
\<close>

section \<open>State and operations\<close>

record cutting_streambuf =
  cs_line :: string
  cs_reports :: "(string \<times> string) list"

definition CuttingStreambuf :: cutting_streambuf where
  "CuttingStreambuf = \<lparr>cs_line = [], cs_reports = []\<rparr>"

definition white :: "char \<Rightarrow> bool" where
  "white c \<longleftrightarrow> c = CHR '' '' \<or> c = CHR 0x0A \<or> c = CHR 0x0D"

text \<open>\<open>s.erase(s.find_last_not_of(" \n\r") + 1)\<close>; when there is no such character the sum wraps to \<open>0\<close>.\<close>

fun find_last_not_white :: "string \<Rightarrow> nat option" where
  "find_last_not_white [] = None"
| "find_last_not_white (c # s) =
     (case find_last_not_white s of
        Some i \<Rightarrow> Some (Suc i)
      | None \<Rightarrow> (if white c then None else Some 0))"

definition erase_trailing :: "string \<Rightarrow> string" where
  "erase_trailing s = take (case find_last_not_white s of Some i \<Rightarrow> i + 1 | None \<Rightarrow> 0) s"

text \<open>What \<open>c_str()\<close> shows of a string.\<close>

definition c_str :: "string \<Rightarrow> string" where
  "c_str s = takeWhile (\<lambda>c. c \<noteq> CHR 0x00) s"

definition logMessage :: "string \<Rightarrow> string \<Rightarrow> cutting_streambuf \<Rightarrow> cutting_streambuf" where
  "logMessage name message b =
     b\<lparr>cs_reports := cs_reports b @ [(c_str name, c_str (erase_trailing message))]\<rparr>"

definition outputLine :: "cutting_streambuf \<Rightarrow> cutting_streambuf" where
  "outputLine b = (logMessage ''gem5'' (cs_line b) b)\<lparr>cs_line := []\<rparr>"

text \<open>The argument is a character, or \<open>None\<close> for \<open>EOF\<close>.\<close>

definition overflow :: "char option \<Rightarrow> cutting_streambuf \<Rightarrow> cutting_streambuf" where
  "overflow chr b =
     (if chr = Some (CHR 0x0A) then outputLine b
      else case chr of Some c \<Rightarrow> b\<lparr>cs_line := cs_line b @ [c]\<rparr> | None \<Rightarrow> b)"

definition sync :: "cutting_streambuf \<Rightarrow> cutting_streambuf" where
  "sync b = (if cs_line b \<noteq> [] then outputLine b else b)"

text \<open>
  A logger owns a new buffer, and \<open>getOstream\<close> hands out the stream over it. Writing a string to that
  stream, and the logger's destructor: a flush and the buffer's destructor.
\<close>

definition Logger :: cutting_streambuf where
  "Logger = CuttingStreambuf"

definition put :: "string \<Rightarrow> cutting_streambuf \<Rightarrow> cutting_streambuf" where
  "put s b = fold (\<lambda>c. overflow (Some c)) s b"

definition CuttingStreambuf_destroy :: "cutting_streambuf \<Rightarrow> cutting_streambuf" where
  "CuttingStreambuf_destroy b = sync b"

definition Logger_destroy :: "cutting_streambuf \<Rightarrow> cutting_streambuf" where
  "Logger_destroy b = CuttingStreambuf_destroy (sync b)"

section \<open>Properties\<close>

text \<open>The lines of a text: each newline ends one; an unfinished last line counts when it is not empty.\<close>

fun split_lines :: "string \<Rightarrow> string \<Rightarrow> string list" where
  "split_lines acc [] = (if acc = [] then [] else [acc])"
| "split_lines acc (c # s) = (if c = CHR 0x0A then acc # split_lines [] s else split_lines (acc @ [c]) s)"

definition strip_end :: "string \<Rightarrow> string" where
  "strip_end s = rev (dropWhile white (rev s))"

lemma find_last_None: "find_last_not_white s = None \<longleftrightarrow> (\<forall>c \<in> set s. white c)"
  by (induction s) (auto split: option.splits)

lemma strip_end_Cons:
  "strip_end (c # s) = (if strip_end s = [] then (if white c then [] else [c]) else c # strip_end s)"
  by (auto simp: strip_end_def dropWhile_append dropWhile_eq_Nil_conv)

lemma strip_end_Nil: "strip_end s = [] \<longleftrightarrow> (\<forall>c \<in> set s. white c)"
  by (simp add: strip_end_def dropWhile_eq_Nil_conv)

lemma erase_trailing_strip: "erase_trailing s = strip_end s"
proof (induction s)
  case Nil
  then show ?case by (simp add: erase_trailing_def strip_end_def)
next
  case (Cons c s)
  show ?case
  proof (cases "find_last_not_white s")
    case None
    moreover from this have "strip_end s = []" by (simp add: find_last_None strip_end_Nil)
    ultimately show ?thesis by (auto simp: strip_end_Cons erase_trailing_def)
  next
    case (Some i)
    moreover from this have "strip_end s \<noteq> []" using find_last_None [of s] strip_end_Nil [of s] by auto
    ultimately show ?thesis using Cons by (simp add: strip_end_Cons erase_trailing_def)
  qed
qed

lemma c_str_gem5: "c_str ''gem5'' = ''gem5''"
  by (simp add: c_str_def)

lemma put_Cons: "put (c # s) b = put s (overflow (Some c) b)"
  by (simp add: put_def)

lemma Logger_destroy_once: "Logger_destroy b = sync b"
  by (simp add: Logger_destroy_def CuttingStreambuf_destroy_def sync_def outputLine_def logMessage_def)

lemma put_destroy:
  "cs_reports (Logger_destroy (put s b)) =
     cs_reports b @ map (\<lambda>l. (''gem5'', c_str (strip_end l))) (split_lines (cs_line b) s)
   \<and> cs_line (Logger_destroy (put s b)) = []"
proof (induction s arbitrary: b)
  case Nil
  then show ?case
    by (simp add: put_def Logger_destroy_once sync_def outputLine_def logMessage_def erase_trailing_strip c_str_gem5)
next
  case (Cons c s)
  show ?case
    using Cons [of "overflow (Some c) b"]
    by (auto simp: put_Cons overflow_def outputLine_def logMessage_def erase_trailing_strip c_str_gem5)
qed

text \<open>
  C37: no message is lost, merged or split. Whatever is written to the stream of a new logger, its
  destruction leaves exactly one report per line of the text, in order - also for an unfinished last
  line - and each report is its line without trailing blanks, up to a null character.
\<close>

theorem one_report_per_line:
  "cs_reports (Logger_destroy (put s Logger)) =
     map (\<lambda>l. (''gem5'', c_str (strip_end l))) (split_lines [] s)"
  using put_destroy [of s Logger] by (simp add: Logger_def CuttingStreambuf_def)

end
