(* ===== verification/Stats.thy ===== *)
theory Stats
  imports Prelude
begin

text \<open>
  The statistics handlers of \<open>stats.{hh,cc}\<close>: which visit each statistic gets in a dump, and the order of
  the calls. The dynamic type of a statistic is gem5's: a \<open>stat\<close> records for each class whether the
  dynamic cast to it succeeds.
\<close>

section \<open>State and operations\<close>

record stat =
  st_name :: string
  isScalarInfo :: bool
  isVectorInfo :: bool
  isVector2dInfo :: bool
  isFormulaInfo :: bool
  isDistInfo :: bool
  isVectorDistInfo :: bool
  isSparseHistInfo :: bool
  isVector2dProxy :: bool

datatype visit = Visit_formula | Visit_vector | Visit_vector2d | Visit_proxy | Visit_vectordist
  | Visit_dist | Visit_sparse | Visit_scalar

datatype stat_call =
    Init_text
  | Process_dump_queue
  | Process_reset_queue
  | Enable string
  | Enable_vector string
  | Prepare string
  | Prepare_vector string
  | Output_begin
  | Output_visit visit string
  | Warn_not_dumped string
  | Output_end

definition statsPrepare :: "stat list \<Rightarrow> stat_call list" where
  "statsPrepare stats = map (\<lambda>s. if isVectorInfo s then Prepare_vector (st_name s) else Prepare (st_name s)) stats"

definition statsEnable :: "stat list \<Rightarrow> stat_call list" where
  "statsEnable stats = map (\<lambda>s. if isVectorInfo s then Enable_vector (st_name s) else Enable (st_name s)) stats"

text \<open>
  One statistic of a dump. The cast to \<open>Vector2dInfo\<close> starts from the pointer \<open>vector\<close>, which is null when
  the cast to \<open>VectorInfo\<close> failed.
\<close>

definition dump_one :: "stat \<Rightarrow> stat_call" where
  "dump_one s =
     (let vector = isVectorInfo s;
          vector2d = (vector \<and> isVector2dInfo s)
      in if vector then
           (if isFormulaInfo s then Output_visit Visit_formula (st_name s) else Output_visit Visit_vector (st_name s))
         else if vector2d then Output_visit Visit_vector2d (st_name s)
         else if isVector2dProxy s then Output_visit Visit_proxy (st_name s)
         else if isVectorDistInfo s then Output_visit Visit_vectordist (st_name s)
         else if isDistInfo s then Output_visit Visit_dist (st_name s)
         else if isSparseHistInfo s then Output_visit Visit_sparse (st_name s)
         else if isScalarInfo s then Output_visit Visit_scalar (st_name s)
         else Warn_not_dumped (st_name s))"

definition statsDump :: "stat list \<Rightarrow> stat_call list" where
  "statsDump stats =
     [Init_text, Process_dump_queue] @ statsEnable stats @ statsPrepare stats @ [Output_begin]
     @ map dump_one stats @ [Output_end]"

definition statsReset :: "stat list \<Rightarrow> stat_call list" where
  "statsReset stats = [Process_reset_queue]"

section \<open>Properties\<close>

text \<open>
  The branch of a dump for two-dimensional vectors is dead. No dump of any list of statistics
  visits one as such: a statistic that is a vector is visited as a vector or formula before the
  branch is reached, and for any other the pointer it tests is null, so two-dimensional statistics
  appear only through their proxy class and are otherwise reported as not dumped.
\<close>

theorem vector2d_never_visited:
  "Output_visit Visit_vector2d n \<notin> set (statsDump stats)
   \<and> (\<forall>s \<in> set stats. isVector2dInfo s \<and> \<not> isVectorInfo s \<and> \<not> isVector2dProxy s \<and> \<not> isVectorDistInfo s
        \<and> \<not> isDistInfo s \<and> \<not> isSparseHistInfo s \<and> \<not> isScalarInfo s \<longrightarrow>
        Warn_not_dumped (st_name s) \<in> set (statsDump stats))"
proof -
  have no: "dump_one s \<noteq> Output_visit Visit_vector2d n" for s by (auto simp: dump_one_def Let_def)
  have warn: "dump_one s = Warn_not_dumped (st_name s)"
    if "\<not> isVectorInfo s" "\<not> isVector2dProxy s" "\<not> isVectorDistInfo s" "\<not> isDistInfo s"
      "\<not> isSparseHistInfo s" "\<not> isScalarInfo s" for s
    using that by (simp add: dump_one_def)
  have "Output_visit Visit_vector2d n \<notin> set (statsDump stats)"
    using no by (auto simp: statsDump_def statsEnable_def statsPrepare_def) metis
  moreover have "dump_one s \<in> set (statsDump stats)" if "s \<in> set stats" for s
    using that by (simp add: statsDump_def)
  ultimately show ?thesis using warn by metis
qed

definition demo_stat :: stat where
  "demo_stat = \<lparr>st_name = ''m'', isScalarInfo = False, isVectorInfo = False, isVector2dInfo = True,
     isFormulaInfo = False, isDistInfo = False, isVectorDistInfo = False, isSparseHistInfo = False,
     isVector2dProxy = False\<rparr>"

theorem vector2d_never_visited_witness:
  "Output_visit Visit_vector2d ''m'' \<notin> set (statsDump [demo_stat])
   \<and> Warn_not_dumped ''m'' \<in> set (statsDump [demo_stat])"
  using vector2d_never_visited [of "''m''" "[demo_stat]"] by (simp add: demo_stat_def)

end
