(* ===== verification/Gem5_Control.thy ===== *)
theory Gem5_Control
  imports Sc_Module
begin

text \<open>
  \<open>Gem5Control\<close>, \<open>Gem5System\<close> and \<open>Gem5TopLevelModule\<close> of \<open>sc_gem5_control.{hh,cc}\<close>: the alternative, library-style
  control of gem5. What the configuration managers do is gem5's; the model keeps the names and
  values the wrapper computes, the order of the calls, and the exceptions, which end the simulation.
\<close>

section \<open>State\<close>

datatype gcall =
    Add_renaming string string
  | Set_param string string string
  | Set_param_vector string string "string list"
  | Find_object string bool
  | Find_traversal_order string
  | Bind_object_ports ptr
  | Manager_instantiate bool
  | Manager_initState
  | Manager_startup
  | Delete_manager
  | Delete_config_file
  | Cxx_init
  | Set_logger
  | Set_frequency
  | Setup_queues
  | Signals
  | Sim_stats
  | Stat_handlers
  | Enable_trace
  | Enable_stats
  | Push_object ptr
  | Call_function ptr
  | Debug_flag string bool
  | Gdb_port u32
  | Dump_queue

record gem5_system =
  systemName :: string
  instanceName :: string

record top_level_module =
  tl_config_loaded :: bool
  endOfElaborationFuncs :: "ptr list"

record gem5_control =
  gc_module :: top_level_module
  gc_version :: string

text \<open>
  The configuration manager: which of its calls throws, and the objects it orders. The exceptions of
  the calls are told apart by the call.
\<close>

record manager_env =
  mg_throws :: "gcall \<Rightarrow> bool"
  mg_objectsInOrder :: "ptr list"
  mg_root :: ptr
  mg_load :: "string \<Rightarrow> bool"
  mg_resolution_is_1ps :: bool
  mg_queues :: nat

section \<open>Systems\<close>

definition Gem5System :: "string \<Rightarrow> string \<Rightarrow> gem5_system \<times> gcall list" where
  "Gem5System system_name instance_name =
     (\<lparr>systemName = system_name, instanceName = instance_name\<rparr>, [Add_renaming system_name instance_name])"

definition Gem5System_destroy :: "gem5_system \<Rightarrow> gcall list" where
  "Gem5System_destroy s = [Delete_manager]"

definition object_path :: "gem5_system \<Rightarrow> string \<Rightarrow> string" where
  "object_path s obj = systemName s @ (if obj \<noteq> [] then CHR ''.'' # obj else [])"

definition setParam :: "string \<Rightarrow> string \<Rightarrow> string \<Rightarrow> gem5_system \<Rightarrow> gcall list" where
  "setParam obj param_name param_value s = [Set_param (object_path s obj) param_name param_value]"

definition setParamVector :: "string \<Rightarrow> string \<Rightarrow> string list \<Rightarrow> gem5_system \<Rightarrow> gcall list" where
  "setParamVector obj param_name param_values s = [Set_param_vector (object_path s obj) param_name param_values]"

text \<open>A sequence of manager calls inside \<open>try\<close>: the first that throws ends the simulation.\<close>

fun try_calls :: "manager_env \<Rightarrow> string \<Rightarrow> gcall list \<Rightarrow> gcall list \<Rightarrow> gcall list res" where
  "try_calls M msg [] log = Inr log"
| "try_calls M msg (c # cs) log = (if mg_throws M c then Inl (Fatal msg) else try_calls M msg cs (log @ [c]))"

definition Gem5System_instantiate :: "manager_env \<Rightarrow> gem5_system \<Rightarrow> gcall list res" where
  "Gem5System_instantiate M s =
     try_calls M ''Config problem in Gem5System''
       ([Find_object (systemName s) True, Find_traversal_order (systemName s)]
        @ map Bind_object_ports (mg_objectsInOrder M)
        @ [Manager_instantiate False, Manager_initState, Manager_startup]) []"

section \<open>The control\<close>

definition Gem5TopLevelModule :: "manager_env \<Rightarrow> string \<Rightarrow> (top_level_module \<times> gcall list) res" where
  "Gem5TopLevelModule M config_filename =
     (if mg_queues M \<noteq> 0
      then Inl (Fatal ''Gem5SystemC::Module::setupEventQueues must be called before any gem5 event queues are set up'')
      else if \<not> mg_resolution_is_1ps M
      then Inl (Fatal ''Time resolution must be set to 1 ps for gem5 to work'')
      else if \<not> mg_load M config_filename
      then Inl (Fatal ''Gem5TopLevelModule: Can't open config file'')
      else bindr (try_calls M ''Config problem in Gem5TopLevelModule''
             [Find_object ''root'' False, Push_object (mg_root M), Manager_instantiate False, Manager_initState,
              Manager_startup]
             [Cxx_init, Set_logger, Set_frequency, Setup_queues, Signals, Sim_stats, Stat_handlers, Enable_trace,
              Enable_stats])
           (\<lambda>log. Inr (\<lparr>tl_config_loaded = True, endOfElaborationFuncs = []\<rparr>, log)))"

definition Gem5TopLevelModule_destroy :: "top_level_module \<Rightarrow> gcall list" where
  "Gem5TopLevelModule_destroy m = [Delete_config_file, Delete_manager]"

definition tl_registerEndOfElaboration :: "ptr \<Rightarrow> top_level_module \<Rightarrow> top_level_module" where
  "tl_registerEndOfElaboration func m = m\<lparr>endOfElaborationFuncs := endOfElaborationFuncs m @ [func]\<rparr>"

definition tl_end_of_elaboration :: "top_level_module \<Rightarrow> gcall list" where
  "tl_end_of_elaboration m = map Call_function (endOfElaborationFuncs m)"

definition tl_run :: "'q module_env \<Rightarrow> 'q sworld \<Rightarrow> (ptr \<times> 'q sworld \<times> gcall list) res" where
  "tl_run E w = bindr (simulate E (mo_MaxTick E) w) (\<lambda>(exit_event, w). Inr (exit_event, w, [Dump_queue]))"

definition Gem5Control :: "manager_env \<Rightarrow> string \<Rightarrow> (gem5_control \<times> gcall list) res" where
  "Gem5Control M config_filename =
     bindr (Gem5TopLevelModule M config_filename) (\<lambda>(m, log). Inr (\<lparr>gc_module = m, gc_version = []\<rparr>, log))"

text \<open>The destructor has an empty body: the module is not deleted.\<close>

definition Gem5Control_destroy :: "gem5_control \<Rightarrow> gcall list" where
  "Gem5Control_destroy c = []"

definition makeGem5Control :: "manager_env \<Rightarrow> string \<Rightarrow> (gem5_control \<times> gcall list) res" where
  "makeGem5Control M config_filename = Gem5Control M config_filename"

definition registerEndOfElaboration :: "ptr \<Rightarrow> gem5_control \<Rightarrow> gem5_control" where
  "registerEndOfElaboration func c = c\<lparr>gc_module := tl_registerEndOfElaboration func (gc_module c)\<rparr>"

definition gc_setDebugFlag :: "string \<Rightarrow> gcall list" where
  "gc_setDebugFlag flag = [Debug_flag flag True]"

definition gc_clearDebugFlag :: "string \<Rightarrow> gcall list" where
  "gc_clearDebugFlag flag = [Debug_flag flag False]"

definition setRemoteGDBPort :: "u32 \<Rightarrow> gcall list" where
  "setRemoteGDBPort port = [Gdb_port port]"

definition makeSystem :: "string \<Rightarrow> string \<Rightarrow> gem5_control \<Rightarrow> gem5_system \<times> gcall list" where
  "makeSystem system_name instance_name c = Gem5System system_name instance_name"

definition getVersion :: "gem5_control \<Rightarrow> string" where
  "getVersion c = gc_version c"

definition setVersion :: "string \<Rightarrow> gem5_control \<Rightarrow> gem5_control res" where
  "setVersion new_version c =
     (if gc_version c \<noteq> [] then Inl (Fatal ''Gem5Control::setVersion called for a second time'')
      else Inr (c\<lparr>gc_version := new_version\<rparr>))"

section \<open>Lemmas\<close>

lemma try_calls_result:
  "try_calls M msg cs log =
     (if \<exists>c \<in> set cs. mg_throws M c then Inl (Fatal msg) else Inr (log @ cs))"
  by (induction cs arbitrary: log) auto

section \<open>A session with the control\<close>

text \<open>The calls that a program makes on a control before the simulation starts, in any order.\<close>

datatype control_op =
    Register_function ptr
  | Set_version string
  | Change_flag string bool
  | Set_gdb_port u32
  | Make_system string string

fun do_op :: "control_op \<Rightarrow> gem5_control \<times> gcall list \<Rightarrow> (gem5_control \<times> gcall list) res" where
  "do_op (Register_function f) (c, log) = Inr (registerEndOfElaboration f c, log)"
| "do_op (Set_version v) (c, log) = bindr (setVersion v c) (\<lambda>c. Inr (c, log))"
| "do_op (Change_flag flag on) (c, log) =
     Inr (c, log @ (if on then gc_setDebugFlag flag else gc_clearDebugFlag flag))"
| "do_op (Set_gdb_port port) (c, log) = Inr (c, log @ setRemoteGDBPort port)"
| "do_op (Make_system system_name instance_name) (c, log) =
     Inr (c, log @ snd (makeSystem system_name instance_name c))"

fun control_session :: "control_op list \<Rightarrow> gem5_control \<times> gcall list \<Rightarrow> (gem5_control \<times> gcall list) res" where
  "control_session [] s = Inr s"
| "control_session (op # ops) s = bindr (do_op op s) (control_session ops)"

text \<open>What a session asks for.\<close>

fun registered :: "control_op \<Rightarrow> ptr list" where
  "registered (Register_function f) = [f]"
| "registered _ = []"

fun version_of :: "control_op \<Rightarrow> string list" where
  "version_of (Set_version v) = [v]"
| "version_of _ = []"

fun calls_of :: "control_op \<Rightarrow> gcall list" where
  "calls_of (Change_flag flag on) = [Debug_flag flag on]"
| "calls_of (Set_gdb_port port) = [Gdb_port port]"
| "calls_of (Make_system system_name instance_name) = [Add_renaming system_name instance_name]"
| "calls_of _ = []"

definition real_versions :: "string \<Rightarrow> control_op list \<Rightarrow> string list" where
  "real_versions v ops = dropWhile (\<lambda>v. v = []) (v # concat (map version_of ops))"

lemma real_versions_Cons: "version_of op = [] \<Longrightarrow> real_versions v (op # ops) = real_versions v ops"
  by (simp add: real_versions_def)

lemma version_ops:
  "real_versions v (Set_version v' # ops) =
    (if v = [] then real_versions v' ops else v # v' # concat (map version_of ops))"
  by (simp add: real_versions_def)

lemma control_session_result:
  "control_session ops (c, log) =
    (if 2 \<le> length (real_versions (gc_version c) ops)
     then Inl (Fatal ''Gem5Control::setVersion called for a second time'')
     else Inr (c\<lparr>gc_version := concat (real_versions (gc_version c) ops),
         gc_module := (gc_module c)\<lparr>endOfElaborationFuncs := endOfElaborationFuncs (gc_module c) @ concat (map registered ops)\<rparr>\<rparr>,
       log @ concat (map calls_of ops)))"
proof (induction ops arbitrary: c log)
  case Nil
  then show ?case by (simp add: real_versions_def)
next
  case (Cons op ops)
  show ?case
  proof (cases op)
    case (Set_version v)
    show ?thesis
    proof (cases "gc_version c = []")
      case True
      then show ?thesis using Cons by (simp add: Set_version version_ops setVersion_def)
    next
      case False
      then show ?thesis by (simp add: Set_version version_ops setVersion_def)
    qed
  qed (simp_all add: Cons real_versions_Cons registerEndOfElaboration_def tl_registerEndOfElaboration_def gc_setDebugFlag_def
      gc_clearDebugFlag_def setRemoteGDBPort_def makeSystem_def Gem5System_def)
qed

text \<open>
  C40: a control serves any sequence of calls in order. A new control has started the configuration and
  has no version and no functions. After any session its version is the first non-empty one that was
  set, each registered function is called exactly once at the end of elaboration, in the order of
  registration, and flags, debugger ports and systems reach gem5 in the order of the calls. The
  session ends the simulation exactly when a version is set after a non-empty one.
\<close>

theorem control_session_in_order:
  assumes "makeGem5Control M config_filename = Inr (c, log)"
    and "vs = dropWhile (\<lambda>v. v = []) (concat (map version_of ops))"
  shows "getVersion c = [] \<and> tl_end_of_elaboration (gc_module c) = [] \<and> last log = Manager_startup
    \<and> (returns (control_session ops (c, log)) \<longleftrightarrow> length vs \<le> 1)
    \<and> (\<forall>c' log'. control_session ops (c, log) = Inr (c', log') \<longrightarrow>
        getVersion c' = concat vs
      \<and> tl_end_of_elaboration (gc_module c') = map Call_function (concat (map registered ops))
      \<and> log' = log @ concat (map calls_of ops))"
proof -
  have c: "gc_version c = []" "endOfElaborationFuncs (gc_module c) = []" "last log = Manager_startup"
    using assms(1)
    by (auto simp: makeGem5Control_def Gem5Control_def Gem5TopLevelModule_def try_calls_result res_simps split: if_splits)
  moreover have "real_versions (gc_version c) ops = vs" using c(1) assms(2) by (simp add: real_versions_def)
  ultimately show ?thesis
    by (auto simp: control_session_result getVersion_def tl_end_of_elaboration_def)
qed

definition demo_manager :: manager_env where
  "demo_manager = \<lparr>mg_throws = (\<lambda>_. False), mg_objectsInOrder = [], mg_root = 0, mg_load = (\<lambda>_. True),
     mg_resolution_is_1ps = True, mg_queues = 0\<rparr>"

theorem control_session_in_order_witness:
  "\<exists>c log. makeGem5Control demo_manager ''config.ini'' = Inr (c, log)
     \<and> returns (control_session [Register_function 3, Set_version [], Set_version ''1.0'', Register_function 7] (c, log))
     \<and> \<not> returns (control_session [Set_version ''1.0'', Set_version []] (c, log))"
proof -
  obtain c log where new: "makeGem5Control demo_manager ''config.ini'' = Inr (c, log)"
    by (simp add: makeGem5Control_def Gem5Control_def Gem5TopLevelModule_def demo_manager_def)
  show ?thesis
    using control_session_in_order [OF new refl, of "[Register_function 3, Set_version [], Set_version ''1.0'', Register_function 7]"]
      control_session_in_order [OF new refl, of "[Set_version ''1.0'', Set_version []]"] new by auto
qed

end
