(* ===== verification/Spec2Isabelle.thy ===== *)
theory Spec2Isabelle
  imports Co_Timed_Properties Co_Simulation_Reentrant Memory_Path Wrapper_Properties Slave_Traces Master_System_Properties Router_Properties Simple_Bus Module_Host_Properties Control_Properties
    Sc_Logger Stats Gem5_Wrapper Gem5_Control
begin

text \<open>
  A model of the gem5 wrapper: the C++ library under \<open>src/\<close> that runs the gem5 simulator inside a SystemC
  simulation and connects gem5's memory ports to TLM-2.0 sockets.

  \<^bold>\<open>The program.\<close> gem5 runs in the SystemC module \<open>Module\<close> (\<open>sc_module.cc\<close>), which serves gem5 events when
  SystemC time reaches them. \<open>Gem5SimControl\<close> (\<open>sim_control.cc\<close>) is that module with the configuration, a
  registry of external ports and the table of cores; \<open>Gem5Control\<close> (\<open>sc_gem5_control.cc\<close>) is an
  alternative control. A gem5 component with an external port gets a \<open>SCSlavePort\<close>
  (\<open>sc_slave_port.cc\<close>: packets become TLM transactions) or a \<open>SCMasterPort\<close> (\<open>sc_master_port.cc\<close>:
  transactions become packets). At the end of elaboration a transactor finds its port in the registry and
  binds it to its sockets. A slave port keeps, in a \<open>BlockingPacketHelper\<close>, which transaction blocks the
  request and the response channel of every socket and which socket owes gem5 a retry; it takes
  transactions from the pool \<open>MemoryManager\<close> and finds packets through \<open>Gem5Extension\<close>. On the SystemC side
  \<open>TxnRouter\<close> (\<open>txn_router.h\<close>) ends requests, models latency and forwards to memory or to the \<open>SimpleBus\<close>.
  \<open>Gem5Wrapper\<close> creates and connects everything. \<open>Logger\<close> and the statistics handlers serve gem5's output.

  \<^bold>\<open>Conventions.\<close> (\<open>Prelude\<close>, \<open>Std_Map\<close>, \<open>Tlm_Gem5\<close>) An operation returns \<open>Inr\<close> of its result, or \<open>Inl\<close> of the
  way it stops the program: a failed assertion, an error report, a C++ exception, an exit, or undefined
  behaviour such as reading an uninitialised member. Machine integers are words of their width, so address
  and tick arithmetic wraps as in C++. Objects live in heaps indexed by addresses; a pointer is an address
  or \<open>None\<close>. \<open>std::map\<close> is a sorted association list that satisfies the locale \<open>ordered_map\<close>. Calls to the
  outside are appended to a log, and what they do is a parameter of the operation: an environment record
  with one function per call, from the whole state to an answer and a new state, so that a callee may
  re-enter the component. gem5, SystemC and the TLM library are such parameters. Console output is left
  out.

  \<^bold>\<open>Theories and what they show.\<close>

  \<^item> \<open>Tlm_Gem5\<close>: payloads, packets and \<open>sc_ext.{hh,cc}\<close>.

  \<^item> \<open>Memory_Manager\<close>: \<open>sc_mm.{hh,cc}\<close>. The locale \<open>payload_pool\<close> states the contract of a pool, the
    interpretation \<open>mm_pool\<close> discharges it: no sequence of allocations and returns hands out a payload
    in use.

  \<^item> \<open>Blocking_Helper\<close>: \<open>blocking_packet_helper.{hh,cc}\<close>. The three maps refine a table of channel states per
    socket (locale \<open>blocking_table\<close>, interpretation \<open>bph\<close>); \<open>init\<close> returns and establishes the empty table.

  \<^item> \<open>Slave_Transactor\<close>: \<open>slave_transactor.{hh,cc}\<close>, the sockets and their names.

  \<^item> \<open>Slave_Port\<close>: \<open>sc_slave_port.{hh,cc}\<close> and \<open>sc_peq.hh\<close>. \<open>Slave_Invariant\<close> states which part owns each
    transaction that the pool has handed out (\<open>port_ok\<close>) and proves that every operation keeps it, for every
    environment with the guarantees of the locale \<open>slave_rely\<close>; the locale \<open>tlm_library\<close> derives them for
    callees that do not re-enter. \<open>Slave_Exact\<close> strengthens ownership to an equation, the transactions handed
    out are exactly those in the table and in flight (\<open>port_exact\<close>), so that none leaks; its locale
    \<open>slave_exact\<close> is met by callees that do not re-enter and by those that re-enter with requests.
    \<open>Slave_Binding\<close> and \<open>Socket_Config\<close> cover the binding without and with a socket configuration (several
    cores may share a socket) and where requestors are routed, \<open>Slave_Properties\<close> exact ownership at the
    top level, retries, re-entrance and the configurations that stop the simulation, \<open>Slave_Traces\<close> the exact
    calls and states on each branch and the end of the loop of \<open>recvRespRetry\<close>.

  \<^item> \<open>Master_Port\<close>: \<open>sc_master_port.{hh,cc}\<close>. \<open>Master_Properties\<close> has the invariant over all reachable states,
    \<open>Master_Traces\<close> the branches, the round trip of a packet through a payload, and two defects.
    \<open>Master_System\<close> puts the port between an initiator and a gem5 that keep their protocols,
    \<open>Master_System_Properties\<close> proves that this system never stops, whatever legal answers the initiator
    gives to a response, that every request is answered, and which references the port keeps.

  \<^item> \<open>Txn_Router\<close>, \<open>Router_Properties\<close>: \<open>txn_router.h\<close>. The life cycle of the router as a step relation, the
    invariant of its reachable states, what each phase does, the address test with its wrap-around, and a
    deadlock.

  \<^item> \<open>Co_Simulation\<close> and the five theories on it: a slave port and the routers behind its sockets as one system,
    which is what \<open>bindTxnRouter2Transactor\<close> connects. Each operation is the modelled one; the calls it
    has logged are carried out on the other side. \<open>Co_Simulation_Invariant\<close> says where each transaction is,
    \<open>Co_Simulation_Steps\<close> that each step keeps that and decreases the work left,
    \<open>Co_Simulation_Properties\<close> that no step ends the simulation, that the system comes to rest with every
    request answered unless gem5 refused a response and keeps one behind it waiting, and that references are balanced, \<open>Co_Simulation_Retry\<close> that a request sent from inside \<open>sendRetryReq\<close> has the
    effect of one sent after the event, and \<open>Co_Simulation_Reentrant\<close> that one sent from inside
    \<open>sendTimingResp\<close> has the effect of one sent before it, with the log given exactly, so that the system
    with both stays safe and can be drained. An abort inside such a nested request aborts the event.

  \<^item> \<open>Co_Timed\<close> and the three theories on it: the same system in time, with the delays of \<open>sc_slave_port.cc\<close>
    and \<open>txn_router.h\<close>. \<open>Co_Timed_Invariant\<close> bounds what is pending and proves that timed steps are steps of
    the system without time, \<open>Co_Latency\<close> follows the time window of each transaction,
    \<open>Co_Timed_Properties\<close> states the refinement, the latency of a request and that time never stops.

  \<^item> \<open>Simple_Bus\<close>: \<open>simple_bus.h\<close>, routing by address. \<open>Memory_Path\<close>: atomic and functional accesses from the slave
    port through router and bus to a target; they implement an address map, whose errors gem5 does
    not see in one case and stop the simulation in the other.

  \<^item> \<open>Sc_Module\<close>, \<open>Module_Properties\<close>: \<open>sc_module.{hh,cc}\<close>. Events are served when due, the loop ends, the
    limit saturates. \<open>Module_Host\<close> puts the timed system into the event loop: gem5 runs only when SystemC
    runs a method of \<open>Module\<close>, its clock lags in between, and only pending notifications keep time from
    passing its events. \<open>Module_Host_Invariant\<close> shows that a notification for the first event is always
    pending, \<open>Module_Host_Properties\<close> that the hosted system refines the timed one, goes on until gem5 exits
    (what is due returns, and the steps that do it are kept apart from the passing of time),
    and is started by \<open>simulate\<close>.

  \<^item> \<open>Sim_Control\<close>, \<open>Control_Properties\<close>: \<open>sim_control.{hh,cc}\<close>, the port handlers of the two port files, and
    the constructors and elaboration callbacks of the transactors. The registry, the debug flags, the table
    of cores, and that the control and a bound port agree on the core of a requestor.

  \<^item> \<open>Gem5_Wrapper\<close>, \<open>Wrapper_Properties\<close>: \<open>gem5_wrapper.{hh,cc}\<close>. Sequences of the wrapper's operations as a step
    relation, the invariant of the objects and connections they build, when connecting them is an error, and
    that elaboration either fails, because a port is unbound or a socket not bound to exactly one router, or makes
    the transactor an initial state of the composed system.

  \<^item> \<open>Sc_Logger\<close>: \<open>sc_logger.{hh,cc}\<close>, one report per line. \<open>Stats\<close>: \<open>stats.{hh,cc}\<close>, which visit a
    statistic gets. \<open>Gem5_Control\<close>: \<open>sc_gem5_control.{hh,cc}\<close>, a session of calls on the control.

  \<^bold>\<open>Bounds.\<close> Two loops carry fuel, and running out of it is the error \<open>No_return\<close>. The loop of
  \<open>recvRespRetry\<close> ends within one round more than the port has sockets when the callees do not re-enter,
  because each round empties one held response. The event loop ends within one round more than a measure
  of gem5's queue that decreases with each event served; the existence of such a measure is a hypothesis,
  since what an event schedules is gem5's.

  \<^bold>\<open>Not modelled.\<close> gem5, SystemC and TLM themselves, console and debug output, the build files, and \<open>init\<close> of
  \<open>Gem5Wrapper\<close>, which has no body. Concurrency is that of SystemC: operations run to completion, and
  interleaving is the order of calls, with re-entrance through the environments.

  \<^bold>\<open>The composed system.\<close> Events, queues and latencies may happen in any order in which the events of one
  transaction keep theirs; the timed system shows that the delays give this order. Its ticks stay 25 ns
  below their limit, the memory answers without waiting, and the bound on the latency is for a gem5
  that takes every response at once. In both, gem5 sends requests that the port admits, to
  addresses of the memory behind the socket. The untimed system has a version in which it also does so
  inside \<open>sendRetryReq\<close> and inside the \<open>sendTimingResp\<close> of a payload event; for those inside the loop of
  \<open>recvRespRetry\<close> the invariant of the port alone is proved, which covers every re-entrance. Each socket has its own
  router. The bound of the run, \<open>work n y\<close>, counts for each transaction the phases it has still to go
  through.

  \<^bold>\<open>The hosted system.\<close> gem5's queue holds the payload events and any events of its own; serving one may
  send requests, ask for held responses and schedule more, but nothing in the past, and gem5 keeps an
  event until it exits (\<open>gem5_serves\<close>). A SystemC event holds one notification, the earliest. No
  asynchronous request (signals, statistics dumps) comes in during the run, and what follows the exit
  event in the same instant is left out.

  \<^bold>\<open>The system of a master port.\<close> The initiator uses a transaction for one request at a time and begins none
  before the last has ended; its transactions are ones that the port accepts (no byte enables, no
  streaming). It answers a response with \<open>TLM_ACCEPTED\<close> and ends it later, or ends it at once with
  \<open>TLM_UPDATED\<close> or \<open>TLM_COMPLETED\<close>. gem5 answers a packet that it has accepted once. The one call into the port from
  inside a call of it is a response that gem5 sends from inside \<open>sendRetryResp\<close>; a second one there fails
  an assertion, and one from inside \<open>sendTimingReq\<close> is left out. \<open>m_work s\<close> bounds the run in the same way as \<open>work\<close>.

  \<^bold>\<open>SystemC's binding.\<close> Of SystemC's ports the wrapper relies on three rules of the standard, which the model has
  as error values: \<open>bind\<close> with an interface that the port has already is an error, a call through a port
  that nothing is bound to is an error, and at the end of elaboration each port must have exactly one.

  \<^bold>\<open>The gem5 cache mode\<close> of the slave port and of the helper is in the definitions, but
  \<open>isUsingGem5Cache\<close> returns \<open>false\<close>, so binding never turns it on; the invariants are those of the other
  mode, which binding establishes.

  \<^bold>\<open>Left out of the composed systems\<close> are requests that gem5 sends inside the loop of \<open>recvRespRetry\<close>, beyond
  the invariant of the port, and a memory that waits in \<open>b_transport\<close>, whose coroutine would interleave with
  the router's own events.
\<close>

end
